(* ===== verification/Prelude.thy ===== *)
theory Prelude
  imports Main "HOL-Library.Word"
begin

text \<open>
  The vocabulary the components share: Go's fixed-width integers and byte strings, the error
  results, the big-endian byte form of a word, and the two interfaces several components provide
  (a step function that keeps an invariant, and a codec whose decoder undoes its encoder).

  Conventions. A Go \<open>string\<close> is a HOL \<open>string\<close> (a list of 8-bit characters), a \<open>[]byte\<close> is a list of
  \<open>8 word\<close>, a \<open>uint64\<close> is a \<open>64 word\<close> (read as a number by \<open>unat\<close>), a \<open>[32]byte\<close> is a \<open>256 word\<close>,
  its byte 0 the most significant one. A function that returns \<open>(T, error)\<close> returns \<open>err + T\<close>.
\<close>

type_synonym byte = "8 word"
type_synonym bytes = "8 word list"
type_synonym u64 = "64 word"
type_synonym b32 = "256 word"

named_theorems guards \<open>definitions of guards and checks, for unfolding in case analyses\<close>

section \<open>Error results\<close>

fun ok :: "'e + 'a \<Rightarrow> bool" where
  "ok (Inl e) = False"
| "ok (Inr x) = True"

lemma ok_iff: "ok r \<longleftrightarrow> (\<exists>x. r = Inr x)"
  by (cases r) auto

definition guard :: "bool \<Rightarrow> 'e \<Rightarrow> 'e + unit" where
  "guard b e = (if b then Inl e else Inr ())"

text \<open>\<open>ebind\<close> is the early return: the first error ends the sequence.\<close>

definition ebind :: "'e + 'a \<Rightarrow> ('a \<Rightarrow> 'e + 'b) \<Rightarrow> 'e + 'b" where
  "ebind r f = (case r of Inl e \<Rightarrow> Inl e | Inr x \<Rightarrow> f x)"

lemma ebind_simps [simp]:
  "ebind (Inl e) f = Inl e" "ebind (Inr x) f = f x"
  by (simp_all add: ebind_def)

lemma ebind_Inr_iff: "ebind r f = Inr y \<longleftrightarrow> (\<exists>x. r = Inr x \<and> f x = Inr y)"
  by (cases r) auto

lemma ebind_Inl_iff: "ebind r f = Inl e \<longleftrightarrow> r = Inl e \<or> (\<exists>x. r = Inr x \<and> f x = Inl e)"
  by (cases r) auto

lemma guard_Inr_iff [simp]: "guard b e = Inr u \<longleftrightarrow> \<not> b"
  by (simp add: guard_def)

lemma guard_Inl_iff [simp]: "guard b e = Inl e' \<longleftrightarrow> b \<and> e' = e"
  by (auto simp: guard_def)

text \<open>A chain of early returns succeeds when every test passes and the last result is a success.\<close>

lemma if_Inl_iff: "(if b then Inl e else r) = Inr x \<longleftrightarrow> \<not> b \<and> r = Inr x"
  by simp

lemma if_else_Inl_iff: "(if b then r else Inl e) = Inr x \<longleftrightarrow> b \<and> r = Inr x"
  by simp

lemma option_Inl_iff:
  "(case m of None \<Rightarrow> Inl e | Some y \<Rightarrow> f y) = Inr x \<longleftrightarrow> (\<exists>y. m = Some y \<and> f y = Inr x)"
  by (cases m) simp_all

lemmas chain_iff = if_Inl_iff if_else_Inl_iff option_Inl_iff ebind_Inr_iff

lemmas result_simps = ebind_Inr_iff ebind_Inl_iff ok_iff

section \<open>Words as numbers\<close>

lemma unat_add_no_wrap:
  fixes a b :: "'a::len word"
  assumes "unat a + unat b < 2 ^ LENGTH('a)"
  shows "unat (a + b) = unat a + unat b"
  using assms by (simp add: unat_word_ariths)

lemma unat_sub_le:
  fixes a b :: "'a::len word"
  assumes "b \<le> a"
  shows "unat (a - b) = unat a - unat b"
  using assms by (rule unat_sub)

lemma unat_less_2p64: "unat (x :: u64) < 18446744073709551616"
proof -
  have "unat x < 2 ^ LENGTH(64)" by (rule unsigned_less)
  then show ?thesis by simp
qed

lemma unat_drop_bit_div: "unat (drop_bit n w) = unat (w :: 'a::len word) div 2 ^ n"
proof -
  have "unat (drop_bit n w) = drop_bit n (unat w)" by (rule unat_drop_bit_eq)
  also have "\<dots> = unat w div 2 ^ n" by (rule drop_bit_eq_div)
  finally show ?thesis .
qed

lemma unat_take_bit_mod: "unat (take_bit n w) = unat (w :: 'a::len word) mod 2 ^ n"
proof -
  have "unat (take_bit n w) = take_bit n (unat w)" by (rule unsigned_take_bit_eq)
  also have "\<dots> = unat w mod 2 ^ n" by (rule take_bit_eq_mod)
  finally show ?thesis .
qed

lemma unat_of_nat_less: "n < 2 ^ LENGTH('a::len) \<Longrightarrow> unat (of_nat n :: 'a word) = n"
  by (simp add: unat_of_nat)

section \<open>Big-endian bytes of a word\<close>

text \<open>\<open>be_bytes n w\<close> is \<open>binary.BigEndian.PutUint64\<close> for \<open>n = 8\<close>, and the bytes of a \<open>[32]byte\<close> for
  \<open>n = 32\<close>; \<open>be_word\<close> reads the bytes back (\<open>binary.BigEndian.Uint64\<close>).\<close>

definition be_bytes :: "nat \<Rightarrow> 'a::len word \<Rightarrow> bytes" where
  "be_bytes n w = map (\<lambda>i. ucast (drop_bit (8 * (n - 1 - i)) w)) [0..<n]"

definition be_word :: "bytes \<Rightarrow> 'a::len word" where
  "be_word bs = word_of_nat (foldl (\<lambda>acc b. acc * 256 + unat b) 0 bs)"

lemma length_be_bytes [simp]: "length (be_bytes n w) = n"
  by (simp add: be_bytes_def)

lemma nth_be_bytes: "i < n \<Longrightarrow> be_bytes n w ! i = ucast (drop_bit (8 * (n - 1 - i)) w)"
  by (simp add: be_bytes_def)

lemma be_bytes_inj:
  fixes w v :: "'a::len word"
  assumes eq: "be_bytes n w = be_bytes n v" and len: "LENGTH('a) \<le> 8 * n"
  shows "w = v"
proof (rule bit_word_eqI)
  fix k assume k: "k < LENGTH('a)"
  define i where "i = n - 1 - k div 8"
  have i: "i < n" "n - 1 - i = k div 8"
    using k len by (auto simp: i_def)
  have "be_bytes n w ! i = be_bytes n v ! i" by (simp add: eq)
  then have "(ucast (drop_bit (8 * (k div 8)) w) :: byte) = ucast (drop_bit (8 * (k div 8)) v)"
    by (simp only: nth_be_bytes [OF i(1)] i(2))
  then have "bit (ucast (drop_bit (8 * (k div 8)) w) :: byte) (k mod 8)
           = bit (ucast (drop_bit (8 * (k div 8)) v) :: byte) (k mod 8)"
    by (rule arg_cong)
  then show "bit w k = bit v k"
    by (simp add: bit_ucast_iff bit_drop_bit_eq)
qed

lemma be_bytes_inj_iff:
  fixes w v :: "'a::len word"
  shows "LENGTH('a) \<le> 8 * n \<Longrightarrow> be_bytes n w = be_bytes n v \<longleftrightarrow> w = v"
  using be_bytes_inj by blast

lemma be_bytes_64_iff [simp]: "be_bytes 8 (w :: u64) = be_bytes 8 v \<longleftrightarrow> w = v"
  by (simp add: be_bytes_inj_iff)

lemma be_bytes_256_iff [simp]: "be_bytes 32 (w :: b32) = be_bytes 32 v \<longleftrightarrow> w = v"
  by (simp add: be_bytes_inj_iff)

lemma be_bytes_Suc: "be_bytes (Suc n) w = ucast (drop_bit (8 * n) w) # be_bytes n w"
proof (rule nth_equalityI)
  fix i assume "i < length (be_bytes (Suc n) w)"
  then show "be_bytes (Suc n) w ! i = (ucast (drop_bit (8 * n) w) # be_bytes n w) ! i"
    by (cases i) (simp_all add: nth_be_bytes)
qed simp

definition be_nat :: "bytes \<Rightarrow> nat" where
  "be_nat bs = foldl (\<lambda>acc b. acc * 256 + unat b) 0 bs"

lemma be_nat_foldl: "foldl (\<lambda>acc b. acc * 256 + unat b) a bs = a * 256 ^ length bs + be_nat (bs :: bytes)"
proof (induction bs arbitrary: a)
  case Nil
  then show ?case by (simp add: be_nat_def)
next
  case (Cons b bs)
  from Cons.IH [of "a * 256 + unat b"] Cons.IH [of "unat b"] show ?case
    by (simp add: be_nat_def algebra_simps)
qed

lemma be_nat_simps [simp]:
  "be_nat [] = 0" "be_nat (b # bs) = unat b * 256 ^ length bs + be_nat bs"
  using be_nat_foldl [of "unat b" bs] by (simp_all add: be_nat_def)

lemma be_nat_less: "be_nat bs < 256 ^ length bs"
proof (induction bs)
  case (Cons b bs)
  have "unat b < 2 ^ LENGTH(8)" by (rule unsigned_less)
  then have "unat b + 1 \<le> 256" by simp
  then have "(unat b + 1) * 256 ^ length bs \<le> 256 * 256 ^ length bs" by (rule mult_le_mono1)
  then show ?case using Cons
    unfolding be_nat_simps add_mult_distrib length_Cons power_Suc by linarith
qed simp

lemma be_nat_inj: "length as = length bs \<Longrightarrow> be_nat as = be_nat bs \<Longrightarrow> as = bs"
proof (induction as bs rule: list_induct2)
  case (Cons a as b bs)
  have "be_nat as = be_nat (a # as) mod 256 ^ length as" "unat a = be_nat (a # as) div 256 ^ length as"
    using be_nat_less [of as] by simp_all
  moreover have "be_nat bs = be_nat (b # bs) mod 256 ^ length as" "unat b = be_nat (b # bs) div 256 ^ length as"
    using be_nat_less [of bs] Cons.hyps by simp_all
  ultimately have "unat a = unat b" "be_nat as = be_nat bs" using Cons.prems by argo+
  then show ?case using Cons.IH by (simp add: word_unat_eq_iff)
qed simp

lemma be_nat_be_bytes: "be_nat (be_bytes n w) = unat (w :: 'a::len word) mod 256 ^ n"
proof (induction n)
  case 0
  then show ?case by (simp add: be_bytes_def)
next
  case (Suc n)
  have "unat (drop_bit (8 * n) w) = unat w div 256 ^ n"
    by (simp only: unat_drop_bit_div power_mult) simp
  moreover have "unat (ucast v :: byte) = unat v mod 256" for v :: "'a word"
  proof -
    have "unat (ucast v :: byte) = take_bit LENGTH(8) (unat v)" by (rule unsigned_ucast_eq)
    also have "\<dots> = unat v mod 2 ^ LENGTH(8)" by (rule take_bit_eq_mod)
    finally show ?thesis by simp
  qed
  ultimately have "unat (ucast (drop_bit (8 * n) w) :: byte) = unat w div 256 ^ n mod 256"
    by (simp only:)
  then have "be_nat (be_bytes (Suc n) w) = (unat w div 256 ^ n mod 256) * 256 ^ n + unat w mod 256 ^ n"
    using Suc by (simp only: be_bytes_Suc be_nat_simps length_be_bytes)
  moreover have "unat w mod (256 ^ n * 256) = 256 ^ n * (unat w div 256 ^ n mod 256) + unat w mod 256 ^ n"
    by (rule mod_mult2_eq)
  ultimately show ?case by (simp only: power_Suc mult.commute)
qed

lemma be_word_be_bytes:
  assumes "LENGTH('a) \<le> 8 * n"
  shows "be_word (be_bytes n w) = (w :: 'a::len word)"
proof -
  have "unat w < 2 ^ LENGTH('a)" by (rule unsigned_less)
  also have "(2 :: nat) ^ LENGTH('a) \<le> 2 ^ (8 * n)" using assms by (rule power_increasing) simp
  finally have "unat w < 256 ^ n" by (simp add: power_mult)
  then have "be_nat (be_bytes n w) = unat w" by (simp add: be_nat_be_bytes)
  then show ?thesis by (simp add: be_word_def be_nat_def)
qed

lemma be_bytes_be_word:
  assumes "length bs = n" and "8 * n = LENGTH('a::len)"
  shows "be_bytes n (be_word bs :: 'a word) = bs"
proof (rule be_nat_inj)
  have "(256 :: nat) ^ n = 2 ^ LENGTH('a)" by (simp flip: assms(2) add: power_mult)
  then have "unat (be_word bs :: 'a word) = be_nat bs"
    using be_nat_less [of bs] assms(1) by (simp add: be_word_def be_nat_def unat_of_nat)
  then show "be_nat (be_bytes n (be_word bs :: 'a word)) = be_nat bs"
    using be_nat_less [of bs] assms(1) by (simp add: be_nat_be_bytes)
qed (simp add: assms(1))

section \<open>Strings as bytes\<close>

definition ascii :: "string \<Rightarrow> bytes" where
  "ascii s = map of_char s"

lemma length_ascii [simp]: "length (ascii s) = length s"
  by (simp add: ascii_def)

lemma of_char_inj_byte: "(of_char c :: byte) = of_char d \<Longrightarrow> c = d"
proof -
  assume eq: "(of_char c :: byte) = of_char d"
  have u: "unat (of_char x :: byte) = of_char x" for x
  proof -
    have "(of_char x :: nat) < 2 ^ LENGTH(8)" by simp
    moreover have "(of_char x :: byte) = of_nat (of_char x)" by (simp add: of_nat_of_char)
    ultimately show ?thesis by (simp only: unat_of_nat take_bit_nat_eq_self mod_less)
  qed
  have "(of_char c :: nat) = of_char d" using arg_cong [OF eq, of unat] by (simp only: u)
  then show "c = d" by simp
qed

lemma ascii_inj [simp]: "ascii s = ascii t \<longleftrightarrow> s = t"
proof
  assume "ascii s = ascii t"
  then show "s = t"
    unfolding ascii_def by (rule map_injective) (auto intro: injI of_char_inj_byte)
qed simp

lemma zero_in_ascii: "0 \<in> set (ascii s) \<longleftrightarrow> CHR 0x00 \<in> set s"
proof
  assume "0 \<in> set (ascii s)"
  then obtain c where c: "c \<in> set s" "(of_char c :: byte) = 0" by (auto simp: ascii_def)
  have "(of_char (CHR 0x00) :: byte) = 0" by simp
  then have "c = CHR 0x00" using c(2) by (metis of_char_inj_byte)
  then show "CHR 0x00 \<in> set s" using c(1) by simp
next
  assume "CHR 0x00 \<in> set s"
  then have "of_char (CHR 0x00) \<in> set (ascii s)" unfolding ascii_def set_map by (rule imageI)
  then show "0 \<in> set (ascii s)" by simp
qed

text \<open>A field without the separator, ended by the separator, is read off in only one way.\<close>

lemma separator_unique:
  assumes "a @ x # r = b @ x # s" and "x \<notin> set a" and "x \<notin> set b"
  shows "a = b \<and> r = s"
  using assms
proof (induction a arbitrary: b)
  case Nil
  then show ?case by (cases b) auto
next
  case (Cons y a)
  then show ?case by (cases b) auto
qed

lemma zero_terminated_unique:
  assumes "a @ 0 # r = b @ 0 # s" and "0 \<notin> set a" and "0 \<notin> set (b :: bytes)"
  shows "a = b \<and> r = s"
  using assms by (rule separator_unique)

section \<open>Interface: a step function that keeps an invariant\<close>

text \<open>\<open>run\<close> applies operations to a state, stopping at the first refusal. Components whose
  operations all keep an invariant interpret \<open>machine\<close> and get it for every run.\<close>

fun run :: "('s \<Rightarrow> 'o \<Rightarrow> 'e + 's) \<Rightarrow> 's \<Rightarrow> 'o list \<Rightarrow> 'e + 's" where
  "run step s [] = Inr s"
| "run step s (x # xs) = (case step s x of Inl e \<Rightarrow> Inl e | Inr s' \<Rightarrow> run step s' xs)"

lemma run_append:
  "run step s (xs @ ys) = (case run step s xs of Inl e \<Rightarrow> Inl e | Inr s' \<Rightarrow> run step s' ys)"
  by (induction xs arbitrary: s) (auto split: sum.splits)

lemma run_snocE:
  assumes "run step s (xs @ [x]) = Inr s'"
  obtains t where "run step s xs = Inr t" "step t x = Inr s'"
  using assms by (auto simp: run_append split: sum.splits)

locale machine =
  fixes step :: "'s \<Rightarrow> 'o \<Rightarrow> 'e + 's"
    and inv :: "'s \<Rightarrow> bool"
  assumes step_inv: "inv s \<Longrightarrow> step s x = Inr s' \<Longrightarrow> inv s'"
begin

lemma run_inv: "inv s \<Longrightarrow> run step s xs = Inr s' \<Longrightarrow> inv s'"
proof (induction xs arbitrary: s)
  case Nil
  then show ?case by simp
next
  case (Cons x xs)
  then show ?case by (auto split: sum.splits intro: step_inv)
qed

lemma run_prefix_inv:
  assumes "inv s" and "run step s (xs @ ys) = Inr s'"
  shows "\<exists>t. run step s xs = Inr t \<and> inv t"
  using assms by (auto simp: run_append split: sum.splits intro: run_inv)

end

section \<open>Interface: a codec\<close>

text \<open>A decoder that reads back every value its encoder writes. \<open>valid\<close> are the values the encoder
  is used on. Encodings of different values then differ, whatever the format.\<close>

locale codec =
  fixes enc :: "'v \<Rightarrow> 'w"
    and dec :: "'w \<Rightarrow> 'e + 'v"
    and valid :: "'v \<Rightarrow> bool"
  assumes dec_enc: "valid x \<Longrightarrow> dec (enc x) = Inr x"
begin

lemma enc_inj: "valid x \<Longrightarrow> valid y \<Longrightarrow> enc x = enc y \<Longrightarrow> x = y"
  using dec_enc by (metis sum.inject(2))

lemma enc_inj_on: "inj_on enc (Collect valid)"
  by (auto intro: inj_onI enc_inj)

lemma map_enc_inj:
  "list_all valid xs \<Longrightarrow> list_all valid ys \<Longrightarrow> map enc xs = map enc ys \<Longrightarrow> xs = ys"
  by (rule map_inj_on) (auto simp: list_all_iff intro: inj_onI enc_inj)

end

end
