(* ===== verification/Liab_Tree.thy ===== *)
theory Liab_Tree
  imports Prelude "HOL-Library.Multiset"
begin

unbundle bit_operations_syntax

text \<open>
  The liability tree a hub publishes once per supply epoch (\<open>liabtree/liabtree.go\<close>): a Merkle sum
  tree over the accounts' balances. \<open>Build\<close> pads, shuffles, salts and hashes the leaves, \<open>Rebuild\<close>
  takes stored leaves as they are, \<open>Proof\<close> gives an account the path of its leaf and \<open>Verify\<close>
  checks a path against the three values of a signed epoch record.

  \<open>sha\<close> (SHA-256) and \<open>enc\<close> (the CoreDet encoder on \<open>LiabLeafContent\<close>, which fails on a string
  that is not UTF-8) are arguments. The random source is the finite sequence of bytes it delivers
  before it fails; \<open>io.ReadFull\<close> takes a prefix of it.
\<close>

section \<open>Data\<close>

record leaf_content =
  lc_aid :: string
  lc_to_day :: u64
  lc_balance :: u64

record leaf =
  l_aid :: string
  l_balance :: u64

record entry =
  e_aid :: string
  e_balance :: u64
  e_salt :: b32

record node =
  n_hash :: b32
  n_sum :: u64

type_synonym side = char

definition SideLeft :: side where "SideLeft = CHR ''L''"
definition SideRight :: side where "SideRight = CHR ''R''"

record path_step =
  s_hash :: b32
  s_sum :: u64
  s_side :: side

record liab_proof =
  p_aid :: string
  p_to_day :: u64
  p_balance :: u64
  p_salt :: b32
  p_path :: "path_step list"

record liab_tree =
  t_to_day :: u64
  t_entries :: "entry list"
  t_levels :: "node list list"
  t_pos :: "string \<rightharpoonup> nat"

datatype liab_err =
    ErrMalformed | ErrOverflow | ErrRoot | ErrSum
  | LeafContent | TooManyAccounts | EmptyAID | AppearsTwice | RandFailed
  | BadLeafCount | PaddingBalance

type_synonym leaf_enc = "leaf_content \<Rightarrow> bytes option"
type_synonym hash_fn = "bytes \<Rightarrow> b32"

definition MinLeaves :: nat where "MinLeaves = 16"
definition MinDepth :: int where "MinDepth = 4"
definition MaxDepth :: nat where "MaxDepth = 32"
definition MaxSum :: u64 where "MaxSum = 9223372036854775807"

definition leafLabel :: string where "leafLabel = ''anet-liab-leaf/v1''"
definition nodeLabel :: string where "nodeLabel = ''anet-liab-node/v1''"

definition padding :: "entry \<Rightarrow> bool" where
  "padding e = (e_aid e = '''')"

section \<open>Hashes and sums\<close>

definition leaf_input :: "b32 \<Rightarrow> bytes \<Rightarrow> bytes" where
  "leaf_input salt content = ascii leafLabel @ [0] @ be_bytes 32 salt @ content"

definition LeafHash :: "hash_fn \<Rightarrow> leaf_enc \<Rightarrow> string \<Rightarrow> u64 \<Rightarrow> u64 \<Rightarrow> b32 \<Rightarrow> liab_err + b32" where
  "LeafHash sha enc aid toDay balance salt =
     (case enc \<lparr>lc_aid = aid, lc_to_day = toDay, lc_balance = balance\<rparr> of
        None \<Rightarrow> Inl LeafContent
      | Some content \<Rightarrow> Inr (sha (leaf_input salt content)))"

definition node_input :: "node \<Rightarrow> node \<Rightarrow> bytes" where
  "node_input l r = ascii nodeLabel @ [0] @ be_bytes 32 (n_hash l) @ be_bytes 8 (n_sum l)
     @ be_bytes 32 (n_hash r) @ be_bytes 8 (n_sum r)"

definition NodeHash :: "hash_fn \<Rightarrow> node \<Rightarrow> node \<Rightarrow> b32" where
  "NodeHash sha l r = sha (node_input l r)"

definition addSum :: "u64 \<Rightarrow> u64 \<Rightarrow> u64 option" where
  "addSum a b = (if a > MaxSum \<or> b > MaxSum \<or> a + b > MaxSum then None else Some (a + b))"

section \<open>The random source\<close>

definition read_full :: "nat \<Rightarrow> bytes \<Rightarrow> (bytes \<times> bytes) option" where
  "read_full n rand = (if length rand < n then None else Some (take n rand, drop n rand))"

definition uniform_limit :: "u64 \<Rightarrow> u64" where
  "uniform_limit m = (- 1) - (((- 1) mod m) + 1) mod m"

function uniform :: "bytes \<Rightarrow> u64 \<Rightarrow> liab_err + (u64 \<times> bytes)" where
  "uniform rand m =
     (case read_full 8 rand of
        None \<Rightarrow> Inl RandFailed
      | Some (b, rest) \<Rightarrow>
          (let x = be_word b in
           if x \<le> uniform_limit m then Inr (x mod m, rest) else uniform rest m))"
  by pat_completeness auto
termination
  by (relation "measure (\<lambda>(rand, m). length rand)") (auto simp: read_full_def split: if_splits)

declare uniform.simps [simp del]

definition swap :: "'a list \<Rightarrow> nat \<Rightarrow> nat \<Rightarrow> 'a list" where
  "swap xs i j = xs[i := xs ! j, j := xs ! i]"

text \<open>\<open>shuffle i\<close> is the Fisher-Yates loop from index \<open>i\<close> down to 1.\<close>

fun shuffle :: "nat \<Rightarrow> 'a list \<Rightarrow> bytes \<Rightarrow> liab_err + ('a list \<times> bytes)" where
  "shuffle 0 es rand = Inr (es, rand)"
| "shuffle (Suc i) es rand =
     (case uniform rand (of_nat (Suc i) + 1) of
        Inl e \<Rightarrow> Inl e
      | Inr (j, rand') \<Rightarrow> shuffle i (swap es (Suc i) (unat j)) rand')"

fun draw_salts :: "entry list \<Rightarrow> bytes \<Rightarrow> liab_err + (entry list \<times> bytes)" where
  "draw_salts [] rand = Inr ([], rand)"
| "draw_salts (e # es) rand =
     (case read_full 32 rand of
        None \<Rightarrow> Inl RandFailed
      | Some (b, rest) \<Rightarrow>
          ebind (draw_salts es rest) (\<lambda>(es', rest'). Inr (e\<lparr>e_salt := be_word b\<rparr> # es', rest')))"

section \<open>Building the tree\<close>

function grow_size :: "nat \<Rightarrow> nat \<Rightarrow> nat" where
  "grow_size n sz = (if 0 < sz \<and> sz < n then grow_size n (2 * sz) else sz)"
  by pat_completeness auto
termination
  by (relation "measure (\<lambda>(n, sz). n - sz)") auto

declare grow_size.simps [simp del]

fun place_leaves :: "string list \<Rightarrow> leaf list \<Rightarrow> liab_err + entry list" where
  "place_leaves seen [] = Inr []"
| "place_leaves seen (l # ls) =
     (if l_aid l = '''' then Inl EmptyAID
      else if l_aid l \<in> set seen then Inl AppearsTwice
      else ebind (place_leaves (l_aid l # seen) ls)
             (\<lambda>es. Inr (\<lparr>e_aid = l_aid l, e_balance = l_balance l, e_salt = 0\<rparr> # es)))"

definition pad_entry :: entry where
  "pad_entry = \<lparr>e_aid = '''', e_balance = 0, e_salt = 0\<rparr>"

fun leaf_nodes :: "hash_fn \<Rightarrow> leaf_enc \<Rightarrow> u64 \<Rightarrow> entry list \<Rightarrow> liab_err + node list" where
  "leaf_nodes sha enc toDay [] = Inr []"
| "leaf_nodes sha enc toDay (e # es) =
     ebind (LeafHash sha enc (e_aid e) toDay (e_balance e) (e_salt e))
       (\<lambda>h. ebind (leaf_nodes sha enc toDay es)
         (\<lambda>ns. Inr (\<lparr>n_hash = h, n_sum = e_balance e\<rparr> # ns)))"

fun leaf_pos :: "nat \<Rightarrow> entry list \<Rightarrow> (string \<rightharpoonup> nat) \<Rightarrow> (string \<rightharpoonup> nat)" where
  "leaf_pos i [] pos = pos"
| "leaf_pos i (e # es) pos = leaf_pos (Suc i) es (if padding e then pos else pos(e_aid e \<mapsto> i))"

fun next_level :: "hash_fn \<Rightarrow> node list \<Rightarrow> liab_err + node list" where
  "next_level sha (l # r # rest) =
     (case addSum (n_sum l) (n_sum r) of
        None \<Rightarrow> Inl ErrOverflow
      | Some s \<Rightarrow>
          ebind (next_level sha rest) (\<lambda>ns. Inr (\<lparr>n_hash = NodeHash sha l r, n_sum = s\<rparr> # ns)))"
| "next_level sha ns = Inr []"

lemma length_next_level: "next_level sha ns = Inr ns' \<Longrightarrow> length ns' = length ns div 2"
  by (induction sha ns arbitrary: ns' rule: next_level.induct)
     (auto simp: ebind_Inr_iff split: option.splits)

function build_levels :: "hash_fn \<Rightarrow> node list \<Rightarrow> liab_err + node list list" where
  "build_levels sha cur =
     (if length cur > 1 then
        (case next_level sha cur of
           Inl e \<Rightarrow> Inl e
         | Inr next \<Rightarrow>
             (case build_levels sha next of Inl e \<Rightarrow> Inl e | Inr ls \<Rightarrow> Inr (cur # ls)))
      else Inr [cur])"
  by pat_completeness auto
termination
  by (relation "measure (\<lambda>(sha, cur). length cur)") (auto dest: length_next_level)

declare build_levels.simps [simp del]

definition build :: "hash_fn \<Rightarrow> leaf_enc \<Rightarrow> u64 \<Rightarrow> entry list \<Rightarrow> liab_err + liab_tree" where
  "build sha enc toDay es =
     ebind (leaf_nodes sha enc toDay es) (\<lambda>leaves.
     ebind (build_levels sha leaves) (\<lambda>levels.
     Inr \<lparr>t_to_day = toDay, t_entries = es, t_levels = levels,
          t_pos = leaf_pos 0 es Map.empty\<rparr>))"

definition Build :: "hash_fn \<Rightarrow> leaf_enc \<Rightarrow> leaf list \<Rightarrow> u64 \<Rightarrow> bytes \<Rightarrow> liab_err + liab_tree" where
  "Build sha enc leaves toDay rand =
     (if length leaves > 2 ^ MaxDepth then Inl TooManyAccounts
      else let sz = grow_size (length leaves) MinLeaves in
        ebind (place_leaves [] leaves) (\<lambda>accounts.
        ebind (shuffle (sz - 1) (accounts @ replicate (sz - length leaves) pad_entry) rand)
          (\<lambda>(es, rand').
        ebind (draw_salts es rand') (\<lambda>(es', _).
        build sha enc toDay es'))))"

fun check_entries :: "string list \<Rightarrow> entry list \<Rightarrow> liab_err + unit" where
  "check_entries seen [] = Inr ()"
| "check_entries seen (e # es) =
     (if padding e then
        (if e_balance e \<noteq> 0 then Inl PaddingBalance else check_entries seen es)
      else if e_aid e \<in> set seen then Inl AppearsTwice
      else check_entries (e_aid e # seen) es)"

definition Rebuild :: "hash_fn \<Rightarrow> leaf_enc \<Rightarrow> u64 \<Rightarrow> entry list \<Rightarrow> liab_err + liab_tree" where
  "Rebuild sha enc toDay es =
     (let n = (of_nat (length es) :: u64) in
      if n < of_nat MinLeaves \<or> n > 2 ^ MaxDepth \<or> n AND (n - 1) \<noteq> 0 then Inl BadLeafCount
      else ebind (check_entries [] es) (\<lambda>_. build sha enc toDay es))"

section \<open>Reading a tree, proofs\<close>

definition Depth :: "liab_tree \<Rightarrow> nat" where
  "Depth t = length (t_levels t) - 1"

definition Root :: "liab_tree \<Rightarrow> b32" where
  "Root t = n_hash (last (t_levels t) ! 0)"

definition Outstanding :: "liab_tree \<Rightarrow> u64" where
  "Outstanding t = n_sum (last (t_levels t) ! 0)"

fun path_up :: "node list list \<Rightarrow> nat \<Rightarrow> path_step list" where
  "path_up (lvl # up # rest) i =
     (let (sib, side) = (if i mod 2 = 1 then (i - 1, SideLeft) else (i + 1, SideRight));
          n = lvl ! sib
      in \<lparr>s_hash = n_hash n, s_sum = n_sum n, s_side = side\<rparr> # path_up (up # rest) (i div 2))"
| "path_up ls i = []"

definition proofAt :: "liab_tree \<Rightarrow> nat \<Rightarrow> liab_proof" where
  "proofAt t i =
     (let e = t_entries t ! i in
      \<lparr>p_aid = e_aid e, p_to_day = t_to_day t, p_balance = e_balance e, p_salt = e_salt e,
       p_path = path_up (t_levels t) i\<rparr>)"

definition Proof :: "liab_tree \<Rightarrow> string \<Rightarrow> liab_proof option" where
  "Proof t aid =
     (case t_pos t aid of
        None \<Rightarrow> None
      | Some i \<Rightarrow> if aid = '''' then None else Some (proofAt t i))"

section \<open>Verifying a proof\<close>

fun fold_path :: "hash_fn \<Rightarrow> node \<Rightarrow> path_step list \<Rightarrow> liab_err + node" where
  "fold_path sha cur [] = Inr cur"
| "fold_path sha cur (s # ss) =
     (case addSum (n_sum cur) (s_sum s) of
        None \<Rightarrow> Inl ErrOverflow
      | Some tot \<Rightarrow>
          (let sib = \<lparr>n_hash = s_hash s, n_sum = s_sum s\<rparr> in
           if s_side s = SideLeft
             then fold_path sha \<lparr>n_hash = NodeHash sha sib cur, n_sum = tot\<rparr> ss
           else if s_side s = SideRight
             then fold_path sha \<lparr>n_hash = NodeHash sha cur sib, n_sum = tot\<rparr> ss
           else Inl ErrMalformed))"

definition fold_proof :: "hash_fn \<Rightarrow> leaf_enc \<Rightarrow> liab_proof \<Rightarrow> liab_err + node" where
  "fold_proof sha enc p =
     (case LeafHash sha enc (p_aid p) (p_to_day p) (p_balance p) (p_salt p) of
        Inl _ \<Rightarrow> Inl ErrMalformed
      | Inr h \<Rightarrow> fold_path sha \<lparr>n_hash = h, n_sum = p_balance p\<rparr> (p_path p))"

definition Verify :: "hash_fn \<Rightarrow> leaf_enc \<Rightarrow> liab_proof \<Rightarrow> b32 \<Rightarrow> u64 \<Rightarrow> int \<Rightarrow> liab_err + unit" where
  "Verify sha enc p root outstanding depth =
     (if depth < MinDepth \<or> depth > int MaxDepth then Inl ErrMalformed
      else if int (length (p_path p)) \<noteq> depth then Inl ErrMalformed
      else if p_aid p = '''' then Inl ErrMalformed
      else if outstanding > MaxSum then Inl ErrOverflow
      else ebind (fold_proof sha enc p) (\<lambda>top.
        if n_hash top \<noteq> root then Inl ErrRoot
        else if n_sum top \<noteq> outstanding then Inl ErrSum
        else Inr ()))"

end
