(* ===== verification/Liab_Proofs.thy ===== *)
theory Liab_Proofs
  imports Liab_Tree
begin

text \<open>
  Correctness of the liability tree: sums never wrap, every proof a tree hands out verifies, an
  accepted path determines its leaf up to a collision of the hash among the inputs hashed, and the
  balances of all accepted proofs at different positions never exceed the published total.
\<close>

section \<open>Sums\<close>

lemma MaxSum_nat: "unat MaxSum = 2 ^ 63 - 1"
  by (simp add: MaxSum_def)

lemma addSum_SomeD:
  assumes "addSum a b = Some s"
  shows "s = a + b" "unat s = unat a + unat b" "unat s \<le> 2 ^ 63 - 1"
proof -
  from assms have le: "a \<le> MaxSum" "b \<le> MaxSum" "a + b \<le> MaxSum" and s: "s = a + b"
    by (auto simp: addSum_def split: if_splits)
  have "unat a + unat b < 2 ^ LENGTH(64)"
    using le(1,2) by (simp add: word_le_nat_alt MaxSum_nat)
  then have u: "unat (a + b) = unat a + unat b" by (rule unat_add_no_wrap)
  show "s = a + b" "unat s = unat a + unat b" using s u by auto
  show "unat s \<le> 2 ^ 63 - 1" using le(3) s by (simp add: word_le_nat_alt MaxSum_nat)
qed

lemma addSum_Some_iff:
  "addSum a b = Some s \<longleftrightarrow> s = a + b \<and> unat a + unat b \<le> 2 ^ 63 - 1"
proof
  assume "addSum a b = Some s"
  then show "s = a + b \<and> unat a + unat b \<le> 2 ^ 63 - 1" by (metis addSum_SomeD)
next
  assume r: "s = a + b \<and> unat a + unat b \<le> 2 ^ 63 - 1"
  then have "unat a + unat b < 2 ^ LENGTH(64)" by simp
  then have "unat (a + b) = unat a + unat b" by (rule unat_add_no_wrap)
  with r show "addSum a b = Some s"
    by (simp add: addSum_def word_less_nat_alt MaxSum_nat)
qed

lemma next_level_nth:
  assumes "next_level sha ns = Inr up" and "i < length ns div 2"
  shows "addSum (n_sum (ns ! (2 * i))) (n_sum (ns ! (2 * i + 1))) = Some (n_sum (up ! i))
    \<and> n_hash (up ! i) = NodeHash sha (ns ! (2 * i)) (ns ! (2 * i + 1))"
  using assms
proof (induction sha ns arbitrary: up i rule: next_level.induct)
  case (1 sha l r rest)
  then show ?case by (cases i) (auto simp: ebind_Inr_iff split: option.splits)
qed auto

lemma next_level_sum:
  assumes "next_level sha ns = Inr up" and "even (length ns)"
  shows "sum_list (map (unat \<circ> n_sum) up) = sum_list (map (unat \<circ> n_sum) ns)"
  using assms
  by (induction sha ns arbitrary: up rule: next_level.induct)
     (auto simp: ebind_Inr_iff addSum_SomeD(2) split: option.splits)

lemma next_level_bound:
  assumes "next_level sha ns = Inr up" and "n \<in> set up"
  shows "unat (n_sum n) \<le> 2 ^ 63 - 1"
  using assms
  by (induction sha ns arbitrary: up rule: next_level.induct)
     (auto simp: ebind_Inr_iff split: option.splits dest!: addSum_SomeD(3))

section \<open>The levels\<close>

lemma build_levels_single: "length ns \<le> 1 \<Longrightarrow> build_levels sha ns = Inr [ns]"
  by (subst build_levels.simps) simp

lemma build_levels_stepE:
  assumes "build_levels sha ns = Inr ls" and "length ns > 1"
  obtains up ls' where "next_level sha ns = Inr up" "build_levels sha up = Inr ls'" "ls = ns # ls'"
  using assms by (subst (asm) build_levels.simps) (auto split: sum.splits)

lemma build_levels_splitE:
  assumes "build_levels sha ns = Inr ls" and "length ns = 2 ^ Suc d"
  obtains up ls' where "next_level sha ns = Inr up" "build_levels sha up = Inr ls'"
    "ls = ns # ls'" "length up = 2 ^ d"
proof -
  have "(1::nat) < 2 ^ Suc d" by (induction d) auto
  then have "length ns > 1" using assms(2) by simp
  with assms(1) obtain up ls' where up: "next_level sha ns = Inr up" "build_levels sha up = Inr ls'"
    and ls: "ls = ns # ls'" by (rule build_levels_stepE)
  moreover have "length up = 2 ^ d" using length_next_level [OF up(1)] assms(2) by simp
  ultimately show thesis by (rule that)
qed

lemma build_levels_hd: "build_levels sha ns = Inr ls \<Longrightarrow> ls \<noteq> [] \<and> hd ls = ns"
  by (cases "length ns > 1") (auto elim: build_levels_stepE simp: build_levels_single)

lemma build_levels_shape:
  assumes "build_levels sha ns = Inr ls" and "length ns = 2 ^ d"
  shows "length ls = Suc d \<and> length (last ls) = 1"
  using assms
proof (induction d arbitrary: ns ls)
  case 0
  then show ?case by (auto simp: build_levels_single)
next
  case (Suc d)
  from Suc.prems(1,2) obtain up ls' where up: "next_level sha ns = Inr up"
    "build_levels sha up = Inr ls'" and ls: "ls = ns # ls'" and len: "length up = 2 ^ d"
    by (rule build_levels_splitE)
  from Suc.IH [OF up(2) len] show ?case using ls by auto
qed

lemma build_levels_sum:
  assumes "build_levels sha ns = Inr ls" and "length ns = 2 ^ d"
  shows "unat (n_sum (last ls ! 0)) = sum_list (map (unat \<circ> n_sum) ns)"
  using assms
proof (induction d arbitrary: ns ls)
  case 0
  then obtain n where "ns = [n]" by (auto simp: length_Suc_conv)
  then show ?case using 0 by (auto simp: build_levels_single)
next
  case (Suc d)
  from Suc.prems(1,2) obtain up ls' where up: "next_level sha ns = Inr up"
    "build_levels sha up = Inr ls'" and ls: "ls = ns # ls'" and len: "length up = 2 ^ d"
    by (rule build_levels_splitE)
  have "last ls = last ls'" using ls build_levels_hd [OF up(2)] by simp
  then show ?case
    using Suc.IH [OF up(2) len] next_level_sum [OF up(1)] Suc.prems(2) by (simp add: comp_def)
qed

lemma build_levels_sum_bound:
  assumes "build_levels sha ns = Inr ls" and "length ns = 2 ^ Suc d"
  shows "unat (n_sum (last ls ! 0)) \<le> 2 ^ 63 - 1"
  using assms
proof (induction d arbitrary: ns ls)
  case 0
  from 0 obtain up ls' where up: "next_level sha ns = Inr up"
    "build_levels sha up = Inr ls'" and ls: "ls = ns # ls'" and len: "length up = 2 ^ 0"
    by (rule build_levels_splitE)
  then have "last ls ! 0 \<in> set up" using ls up(2) by (auto simp: build_levels_single)
  then show ?case by (rule next_level_bound [OF up(1)])
next
  case (Suc d)
  from Suc.prems(1,2) obtain up ls' where up: "next_level sha ns = Inr up"
    "build_levels sha up = Inr ls'" and ls: "ls = ns # ls'" and len: "length up = 2 ^ Suc d"
    by (rule build_levels_splitE)
  have "last ls = last ls'" using ls build_levels_hd [OF up(2)] by simp
  then show ?case using Suc.IH [OF up(2) len] by simp
qed

lemma node_eta: "\<lparr>n_hash = n_hash n, n_sum = n_sum n\<rparr> = (n :: node)"
  by simp

section \<open>Completeness: the path of a leaf folds to the root\<close>

lemma length_path_up: "length (path_up ls i) = length ls - 1"
  by (induction ls i rule: path_up.induct) (auto simp: Let_def)

lemma fold_path_up:
  assumes "build_levels sha ns = Inr ls" and "length ns = 2 ^ d" and "i < 2 ^ d"
  shows "fold_path sha (ns ! i) (path_up ls i) = Inr (last ls ! 0)"
  using assms
proof (induction d arbitrary: ns ls i)
  case 0
  then show ?case by (auto simp: build_levels_single)
next
  case (Suc d)
  from Suc.prems(1,2) obtain up ls' where up: "next_level sha ns = Inr up"
    "build_levels sha up = Inr ls'" and ls: "ls = ns # ls'" and len: "length up = 2 ^ d"
    by (rule build_levels_splitE)
  have j: "i div 2 < 2 ^ d" using Suc.prems(3) by auto
  obtain rest where ls': "ls' = up # rest"
    using build_levels_hd [OF up(2)] by (cases ls') auto
  have IH: "fold_path sha (up ! (i div 2)) (path_up ls' (i div 2)) = Inr (last ls' ! 0)"
    by (rule Suc.IH [OF up(2) len j])
  have nl: "addSum (n_sum (ns ! (2 * (i div 2)))) (n_sum (ns ! (2 * (i div 2) + 1)))
        = Some (n_sum (up ! (i div 2)))"
      "n_hash (up ! (i div 2)) = NodeHash sha (ns ! (2 * (i div 2))) (ns ! (2 * (i div 2) + 1))"
    using next_level_nth [OF up(1), of "i div 2"] Suc.prems(2) j by auto
  have comm: "addSum a b = addSum b a" for a b by (auto simp: addSum_def add.commute)
  have last: "last ls = last ls'" using ls ls' by simp
  show ?case
  proof (cases "i mod 2 = 1")
    case True
    then have i: "2 * (i div 2) + 1 = i" "2 * (i div 2) = i - 1" by presburger+
    have a: "addSum (n_sum (ns ! i)) (n_sum (ns ! (i - 1))) = Some (n_sum (up ! (i div 2)))"
      using nl(1) i comm by metis
    have h: "\<lparr>n_hash = NodeHash sha (ns ! (i - 1)) (ns ! i), n_sum = n_sum (up ! (i div 2))\<rparr>
           = up ! (i div 2)"
      using nl(2) i by (metis node_eta)
    show ?thesis
      using IH True a h last ls ls' by (simp add: node_eta Let_def)
  next
    case False
    then have i: "2 * (i div 2) = i" by presburger
    have a: "addSum (n_sum (ns ! i)) (n_sum (ns ! (i + 1))) = Some (n_sum (up ! (i div 2)))"
      using nl(1) i by metis
    have h: "\<lparr>n_hash = NodeHash sha (ns ! i) (ns ! (i + 1)), n_sum = n_sum (up ! (i div 2))\<rparr>
           = up ! (i div 2)"
      using nl(2) i by (metis node_eta)
    show ?thesis
      using IH False a h last ls ls' by (simp add: node_eta Let_def SideLeft_def SideRight_def)
  qed
qed

lemma leaf_nodes_nth:
  assumes "leaf_nodes sha enc toDay es = Inr ns" and "i < length es"
  shows "LeafHash sha enc (e_aid (es ! i)) toDay (e_balance (es ! i)) (e_salt (es ! i))
           = Inr (n_hash (ns ! i)) \<and> n_sum (ns ! i) = e_balance (es ! i)"
  using assms
  by (induction es arbitrary: ns i) (auto simp: ebind_Inr_iff nth_Cons split: nat.splits)

lemma leaf_nodes_length: "leaf_nodes sha enc toDay es = Inr ns \<Longrightarrow> length ns = length es"
  by (induction es arbitrary: ns) (auto simp: ebind_Inr_iff)

lemma leaf_nodes_sums:
  "leaf_nodes sha enc toDay es = Inr ns \<Longrightarrow> map n_sum ns = map e_balance es"
  by (induction es arbitrary: ns) (auto simp: ebind_Inr_iff)

lemma build_InrE:
  assumes "build sha enc toDay es = Inr t"
  obtains ns where "leaf_nodes sha enc toDay es = Inr ns"
    "build_levels sha ns = Inr (t_levels t)" "t_to_day t = toDay" "t_entries t = es"
    "t_pos t = leaf_pos 0 es Map.empty" "length ns = length es"
  using assms leaf_nodes_length [of sha enc toDay es] by (auto simp: build_def ebind_Inr_iff)

lemma build_depth:
  assumes "build sha enc toDay es = Inr t" and "length es = 2 ^ d"
  shows "Depth t = d"
  using assms by (elim build_InrE) (auto simp: Depth_def dest: build_levels_shape)

lemma fold_proofAt:
  assumes t: "build sha enc toDay es = Inr t" and d: "length es = 2 ^ d" and i: "i < length es"
  shows "fold_proof sha enc (proofAt t i) = Inr (last (t_levels t) ! 0)"
proof -
  obtain ns where ns: "leaf_nodes sha enc toDay es = Inr ns"
    "build_levels sha ns = Inr (t_levels t)" "t_to_day t = toDay" "t_entries t = es"
    "length ns = length es"
    using t by (rule build_InrE)
  have leaf: "LeafHash sha enc (e_aid (es ! i)) toDay (e_balance (es ! i)) (e_salt (es ! i))
       = Inr (n_hash (ns ! i))" "n_sum (ns ! i) = e_balance (es ! i)"
    using leaf_nodes_nth [OF ns(1) i] by auto
  have "fold_path sha (ns ! i) (path_up (t_levels t) i) = Inr (last (t_levels t) ! 0)"
    using fold_path_up [OF ns(2)] ns(5) d i by metis
  then show ?thesis using leaf(1) ns
    by (simp add: fold_proof_def proofAt_def Let_def leaf(2) [symmetric] node_eta)
qed

text \<open>Where the map of positions points, the account's entry is.\<close>

lemma leaf_pos_Some:
  "leaf_pos k es pos a = Some i \<Longrightarrow>
     (k \<le> i \<and> i < k + length es \<and> e_aid (es ! (i - k)) = a \<and> a \<noteq> '''') \<or> pos a = Some i"
proof (induction es arbitrary: k pos)
  case Nil
  then show ?case by simp
next
  case (Cons e es)
  let ?pos = "if padding e then pos else pos(e_aid e \<mapsto> k)"
  have "leaf_pos (Suc k) es ?pos a = Some i" using Cons.prems by simp
  then consider (tail) "Suc k \<le> i" "i < Suc k + length es" "e_aid (es ! (i - Suc k)) = a" "a \<noteq> ''''"
    | (here) "?pos a = Some i"
    using Cons.IH by blast
  then show ?case
  proof cases
    case tail
    then have "i - k = Suc (i - Suc k)" by simp
    then have "(e # es) ! (i - k) = es ! (i - Suc k)" by simp
    then show ?thesis using tail by auto
  next
    case here
    then show ?thesis by (auto simp: padding_def split: if_splits)
  qed
qed

lemma leaf_pos_dom:
  "e \<in> set es \<Longrightarrow> \<not> padding e \<Longrightarrow> leaf_pos k es pos (e_aid e) \<noteq> None"
proof (induction es arbitrary: k pos)
  case Nil
  then show ?case by simp
next
  case (Cons x es)
  have keep: "pos a \<noteq> None \<Longrightarrow> leaf_pos k es pos a \<noteq> None" for a k es pos
    by (induction es arbitrary: k pos) auto
  show ?case
  proof (cases "e = x")
    case True
    then show ?thesis using Cons.prems keep [of "pos(e_aid x \<mapsto> k)" "e_aid e" "Suc k" es] by simp
  next
    case False
    then show ?thesis using Cons by simp
  qed
qed

section \<open>Uniqueness: an accepted path determines its leaf\<close>

text \<open>\<open>climb\<close> is one level of \<open>fold_path\<close> without the checks, \<open>climb_input\<close> the bytes it hashes, and
  \<open>hashed\<close> all the inputs that folding a proof hashes. A collision is stated over these inputs only,
  since SHA-256 has collisions somewhere.\<close>

definition sibling :: "path_step \<Rightarrow> node" where
  "sibling s = \<lparr>n_hash = s_hash s, n_sum = s_sum s\<rparr>"

definition climb_input :: "node \<Rightarrow> path_step \<Rightarrow> bytes" where
  "climb_input c s = (if s_side s = SideLeft then node_input (sibling s) c else node_input c (sibling s))"

definition climb :: "hash_fn \<Rightarrow> node \<Rightarrow> path_step \<Rightarrow> node" where
  "climb sha c s = \<lparr>n_hash = sha (climb_input c s), n_sum = n_sum c + s_sum s\<rparr>"

fun path_inputs :: "hash_fn \<Rightarrow> node \<Rightarrow> path_step list \<Rightarrow> bytes list" where
  "path_inputs sha c [] = []"
| "path_inputs sha c (s # ss) = climb_input c s # path_inputs sha (climb sha c s) ss"

lemma addSum_None_iff: "addSum a b = None \<longleftrightarrow> unat a + unat b > 2 ^ 63 - 1"
  using addSum_Some_iff [of a b "a + b"] by (cases "addSum a b") (auto dest: addSum_SomeD)

lemma fold_path_Cons:
  "fold_path sha c (s # ss) = Inr n \<longleftrightarrow>
     unat (n_sum c) + unat (s_sum s) \<le> 2 ^ 63 - 1 \<and> (s_side s = SideLeft \<or> s_side s = SideRight)
     \<and> fold_path sha (climb sha c s) ss = Inr n"
proof (cases "addSum (n_sum c) (s_sum s)")
  case None
  then have "2 ^ 63 - 1 < unat (n_sum c) + unat (s_sum s)" by (simp add: addSum_None_iff)
  then show ?thesis using None by simp
next
  case (Some x)
  then have "x = n_sum c + s_sum s" "unat (n_sum c) + unat (s_sum s) \<le> 2 ^ 63 - 1"
    using addSum_Some_iff by blast+
  then show ?thesis using Some
    by (auto simp: climb_def climb_input_def NodeHash_def sibling_def Let_def SideLeft_def SideRight_def)
qed

declare fold_path.simps(2) [simp del]

lemma fold_path_append:
  "fold_path sha c (ss @ [s]) = Inr n \<longleftrightarrow>
     (\<exists>m. fold_path sha c ss = Inr m \<and> fold_path sha m [s] = Inr n)"
  by (induction ss arbitrary: c) (auto simp: fold_path_Cons)

lemma path_inputs_append:
  "fold_path sha c ss = Inr m \<Longrightarrow>
     path_inputs sha c (ss @ [s]) = path_inputs sha c ss @ [climb_input m s]"
  by (induction ss arbitrary: c) (auto simp: fold_path_Cons)

lemma node_input_inj: "node_input l r = node_input l' r' \<longleftrightarrow> l = l' \<and> r = r'"
  by (auto simp: node_input_def intro: node.equality)

lemma climb_input_inj:
  "s_side s = s_side t \<Longrightarrow> climb_input c s = climb_input d t \<longleftrightarrow> c = d \<and> s = t"
  by (auto simp: climb_input_def node_input_inj sibling_def intro: path_step.equality)

lemma fold_path_unique:
  assumes "fold_path sha a ps = Inr n" and "fold_path sha b qs = Inr n"
    and "map s_side ps = map s_side qs"
    and "inj_on sha (set (path_inputs sha a ps) \<union> set (path_inputs sha b qs))"
  shows "a = b \<and> ps = qs"
  using assms
proof (induction ps arbitrary: a b qs)
  case Nil
  then show ?case by simp
next
  case (Cons s ss)
  then obtain t ts where qs: "qs = t # ts" "s_side s = s_side t" "map s_side ss = map s_side ts"
    by (cases qs) auto
  have "climb sha a s = climb sha b t \<and> ss = ts"
    using Cons.prems qs by (intro Cons.IH) (auto simp: fold_path_Cons elim: inj_on_subset)
  moreover from this have "sha (climb_input a s) = sha (climb_input b t)"
    by (simp add: climb_def)
  then have "climb_input a s = climb_input b t"
    by (rule inj_onD [OF Cons.prems(4)]) (auto simp: qs(1))
  ultimately show ?case using qs climb_input_inj by auto
qed

definition leaf_content_of :: "liab_proof \<Rightarrow> leaf_content" where
  "leaf_content_of p = \<lparr>lc_aid = p_aid p, lc_to_day = p_to_day p, lc_balance = p_balance p\<rparr>"

definition leaf_bytes :: "leaf_enc \<Rightarrow> liab_proof \<Rightarrow> bytes" where
  "leaf_bytes enc p = leaf_input (p_salt p) (the (enc (leaf_content_of p)))"

definition leaf_node :: "hash_fn \<Rightarrow> leaf_enc \<Rightarrow> liab_proof \<Rightarrow> node" where
  "leaf_node sha enc p = \<lparr>n_hash = sha (leaf_bytes enc p), n_sum = p_balance p\<rparr>"

definition hashed :: "hash_fn \<Rightarrow> leaf_enc \<Rightarrow> liab_proof \<Rightarrow> bytes set" where
  "hashed sha enc p = insert (leaf_bytes enc p) (set (path_inputs sha (leaf_node sha enc p) (p_path p)))"

definition position :: "liab_proof \<Rightarrow> side list" where
  "position p = map s_side (p_path p)"

lemma fold_proof_iff:
  "fold_proof sha enc p = Inr n \<longleftrightarrow>
     enc (leaf_content_of p) \<noteq> None \<and> fold_path sha (leaf_node sha enc p) (p_path p) = Inr n"
  by (auto simp: fold_proof_def LeafHash_def leaf_node_def leaf_bytes_def leaf_content_of_def
      split: option.splits)

lemma leaf_input_inj: "leaf_input s c = leaf_input t d \<longleftrightarrow> s = t \<and> c = d"
  by (auto simp: leaf_input_def)

lemma fold_proof_unique:
  assumes p: "fold_proof sha enc p = Inr n" and q: "fold_proof sha enc q = Inr n"
    and pos: "position p = position q"
    and sha: "inj_on sha (hashed sha enc p \<union> hashed sha enc q)"
    and enc: "inj_on enc {leaf_content_of p, leaf_content_of q}"
  shows "p = q"
proof -
  have "leaf_node sha enc p = leaf_node sha enc q \<and> p_path p = p_path q"
    using p q pos sha
    by (intro fold_path_unique)
       (auto simp: fold_proof_iff position_def hashed_def elim: inj_on_subset)
  then have eq: "leaf_node sha enc p = leaf_node sha enc q" "p_path p = p_path q" by auto
  then have "sha (leaf_bytes enc p) = sha (leaf_bytes enc q)" by (simp add: leaf_node_def)
  then have "leaf_bytes enc p = leaf_bytes enc q"
    by (rule inj_onD [OF sha]) (auto simp: hashed_def)
  then have "p_salt p = p_salt q" "enc (leaf_content_of p) = enc (leaf_content_of q)"
    using p q by (auto simp: leaf_bytes_def leaf_input_inj fold_proof_iff)
  moreover from this have "leaf_content_of p = leaf_content_of q"
    using enc by (auto dest: inj_onD)
  ultimately show ?thesis using eq by (auto simp: leaf_content_of_def intro: liab_proof.equality)
qed

section \<open>The balances of accepted proofs are counted\<close>

lemma fold_path_sum:
  "fold_path sha c ss = Inr n \<Longrightarrow>
     unat (n_sum n) = unat (n_sum c) + sum_list (map (unat \<circ> s_sum) ss)"
proof (induction ss arbitrary: c)
  case Nil
  then show ?case by simp
next
  case (Cons s ss)
  then have "unat (n_sum (climb sha c s)) = unat (n_sum c) + unat (s_sum s)"
    by (auto simp: fold_path_Cons climb_def intro!: unat_add_no_wrap)
  then show ?case using Cons by (auto simp: fold_path_Cons)
qed

lemma sides_last: "ss \<noteq> [] \<Longrightarrow> map s_side ss = map s_side (butlast ss) @ [s_side (last ss)]"
  by (induction ss) auto

text \<open>Two last steps to one node: on the same side they come from the same child, on different
  sides from its two children.\<close>

lemma last_steps:
  assumes s: "fold_path sha m [s] = Inr n" and t: "fold_path sha k [t] = Inr n"
    and sha: "inj_on sha {climb_input m s, climb_input k t}"
  shows "s_side s = s_side t \<Longrightarrow> m = k"
    and "s_side s \<noteq> s_side t \<Longrightarrow> unat (n_sum n) = unat (n_sum m) + unat (n_sum k)"
proof -
  have "climb sha m s = n" "climb sha k t = n" using s t by (auto simp: fold_path_Cons)
  then have "sha (climb_input m s) = sha (climb_input k t)"
    by (auto simp: climb_def)
  then have eq: "climb_input m s = climb_input k t" by (rule inj_onD [OF sha]) auto
  show "s_side s = s_side t \<Longrightarrow> m = k" using eq climb_input_inj by blast
  assume "s_side s \<noteq> s_side t"
  then have "k = sibling s" using eq s t
    by (auto simp: climb_input_def node_input_inj fold_path_Cons split: if_splits)
  then show "unat (n_sum n) = unat (n_sum m) + unat (n_sum k)"
    using fold_path_sum [OF s] by (simp add: sibling_def)
qed

lemma last_stepE:
  assumes "fold_path sha c ss = Inr n" and "ss \<noteq> []"
  obtains m where "fold_path sha c (butlast ss) = Inr m" "fold_path sha m [last ss] = Inr n"
    "set (path_inputs sha c ss) = insert (climb_input m (last ss)) (set (path_inputs sha c (butlast ss)))"
proof -
  have ss: "butlast ss @ [last ss] = ss" using assms(2) by simp
  then obtain m where m: "fold_path sha c (butlast ss) = Inr m" "fold_path sha m [last ss] = Inr n"
    using assms(1) fold_path_append by metis
  moreover have "path_inputs sha c ss = path_inputs sha c (butlast ss) @ [climb_input m (last ss)]"
    using path_inputs_append [OF m(1)] ss by metis
  ultimately show thesis using that by simp
qed

text \<open>\<open>counted sha d n S\<close>: \<open>S\<close> is a finite set of starting nodes with their paths of length \<open>d\<close> to the
  node \<open>n\<close>, at different positions and without a collision among the inputs they hash.\<close>

definition counted :: "hash_fn \<Rightarrow> nat \<Rightarrow> node \<Rightarrow> (node \<times> path_step list) set \<Rightarrow> bool" where
  "counted sha d n S \<longleftrightarrow> finite S
     \<and> (\<forall>x \<in> S. length (snd x) = d \<and> fold_path sha (fst x) (snd x) = Inr n)
     \<and> inj_on (map s_side \<circ> snd) S
     \<and> inj_on sha (\<Union>x \<in> S. set (path_inputs sha (fst x) (snd x)))"

definition cut :: "node \<times> path_step list \<Rightarrow> node \<times> path_step list" where
  "cut x = (fst x, butlast (snd x))"

lemma counted_subset:
  assumes "counted sha d n S" and T: "T \<subseteq> S"
  shows "counted sha d n T"
proof -
  have "inj_on sha (\<Union>x \<in> T. set (path_inputs sha (fst x) (snd x)))"
    using assms by - (rule inj_on_subset [of sha "\<Union>x \<in> S. set (path_inputs sha (fst x) (snd x))"],
      auto simp: counted_def)
  moreover have "inj_on (map s_side \<circ> snd) T"
    using assms by - (rule inj_on_subset [of _ S], auto simp: counted_def)
  ultimately show ?thesis using assms by (auto simp: counted_def intro: finite_subset)
qed

lemma counted_last:
  assumes "counted sha (Suc d) n S" and "x \<in> S"
  shows "\<exists>m. fold_path sha (fst x) (butlast (snd x)) = Inr m"
    and "map s_side (snd x) = map s_side (butlast (snd x)) @ [s_side (last (snd x))]"
    and "set (path_inputs sha (fst x) (butlast (snd x))) \<subseteq> (\<Union>x \<in> S. set (path_inputs sha (fst x) (snd x)))"
    and "fold_path sha (fst x) (butlast (snd x)) = Inr m \<Longrightarrow> fold_path sha m [last (snd x)] = Inr n
      \<and> climb_input m (last (snd x)) \<in> (\<Union>x \<in> S. set (path_inputs sha (fst x) (snd x)))"
proof -
  have x: "fold_path sha (fst x) (snd x) = Inr n" "snd x \<noteq> []"
    using assms by (auto simp: counted_def)
  obtain k where k: "fold_path sha (fst x) (butlast (snd x)) = Inr k"
    "fold_path sha k [last (snd x)] = Inr n"
    "set (path_inputs sha (fst x) (snd x))
      = insert (climb_input k (last (snd x))) (set (path_inputs sha (fst x) (butlast (snd x))))"
    using last_stepE [OF x] by blast
  show "\<exists>m. fold_path sha (fst x) (butlast (snd x)) = Inr m" using k(1) by blast
  show "map s_side (snd x) = map s_side (butlast (snd x)) @ [s_side (last (snd x))]"
    using x(2) by (rule sides_last)
  show "set (path_inputs sha (fst x) (butlast (snd x))) \<subseteq> (\<Union>x \<in> S. set (path_inputs sha (fst x) (snd x)))"
    using k(3) assms(2) by blast
  show "fold_path sha m [last (snd x)] = Inr n
      \<and> climb_input m (last (snd x)) \<in> (\<Union>x \<in> S. set (path_inputs sha (fst x) (snd x)))"
    if "fold_path sha (fst x) (butlast (snd x)) = Inr m"
  proof -
    have "m = k" using that k(1) by simp
    then show ?thesis using k(2,3) assms(2) by blast
  qed
qed

lemma counted_steps:
  assumes S: "counted sha (Suc d) n S" and x: "x \<in> S" and y: "y \<in> S"
    and m: "fold_path sha (fst x) (butlast (snd x)) = Inr m"
    and k: "fold_path sha (fst y) (butlast (snd y)) = Inr k"
  shows "s_side (last (snd x)) = s_side (last (snd y)) \<Longrightarrow> m = k"
    and "s_side (last (snd x)) \<noteq> s_side (last (snd y)) \<Longrightarrow>
      unat (n_sum n) = unat (n_sum m) + unat (n_sum k)"
proof -
  let ?I = "\<Union>x \<in> S. set (path_inputs sha (fst x) (snd x))"
  have fx: "fold_path sha m [last (snd x)] = Inr n" "climb_input m (last (snd x)) \<in> ?I"
    using counted_last(4) [OF S x m] by auto
  have fy: "fold_path sha k [last (snd y)] = Inr n" "climb_input k (last (snd y)) \<in> ?I"
    using counted_last(4) [OF S y k] by auto
  have "inj_on sha {climb_input m (last (snd x)), climb_input k (last (snd y))}"
    using S fx(2) fy(2) by - (rule inj_on_subset [of sha ?I], auto simp: counted_def)
  from last_steps [OF fx(1) fy(1) this]
  show "s_side (last (snd x)) = s_side (last (snd y)) \<Longrightarrow> m = k"
    and "s_side (last (snd x)) \<noteq> s_side (last (snd y)) \<Longrightarrow>
      unat (n_sum n) = unat (n_sum m) + unat (n_sum k)"
    by blast+
qed

lemma counted_cut:
  assumes S: "counted sha (Suc d) n S"
    and one: "\<forall>x \<in> S. s_side (last (snd x)) = z"
    and m: "\<forall>x \<in> S. fold_path sha (fst x) (butlast (snd x)) = Inr m"
  shows "counted sha d m (cut ` S)" and "inj_on cut S"
proof -
  have sides: "map s_side (snd x) = map s_side (butlast (snd x)) @ [z]" if "x \<in> S" for x
    using counted_last(2) [OF S that] one that by simp
  have inj: "inj_on (map s_side \<circ> snd) S" using S by (simp add: counted_def)
  have same: "x = y" if "x \<in> S" "y \<in> S" "map s_side (butlast (snd x)) = map s_side (butlast (snd y))" for x y
  proof (rule inj_onD [OF inj _ that(1,2)])
    show "(map s_side \<circ> snd) x = (map s_side \<circ> snd) y"
      using sides [OF that(1)] sides [OF that(2)] that(3) by simp
  qed
  show "inj_on cut S" by (rule inj_onI) (rule same, auto simp: cut_def)
  have "inj_on (map s_side \<circ> snd) (cut ` S)"
  proof (rule inj_onI)
    fix u v assume "u \<in> cut ` S" "v \<in> cut ` S" and eq: "(map s_side \<circ> snd) u = (map s_side \<circ> snd) v"
    then obtain x y where xy: "x \<in> S" "y \<in> S" "u = cut x" "v = cut y" by auto
    then have "x = y" using eq by (intro same) (auto simp: cut_def)
    then show "u = v" using xy by simp
  qed
  moreover have "(\<Union>x \<in> cut ` S. set (path_inputs sha (fst x) (snd x)))
      \<subseteq> (\<Union>x \<in> S. set (path_inputs sha (fst x) (snd x)))"
  proof (intro UN_least)
    fix u assume "u \<in> cut ` S"
    then obtain x where x: "x \<in> S" "u = cut x" by auto
    then show "set (path_inputs sha (fst u) (snd u))
        \<subseteq> (\<Union>x \<in> S. set (path_inputs sha (fst x) (snd x)))"
      using counted_last(3) [OF S x(1)] by (simp add: cut_def)
  qed
  then have "inj_on sha (\<Union>x \<in> cut ` S. set (path_inputs sha (fst x) (snd x)))"
    using S by - (rule inj_on_subset [of sha "\<Union>x \<in> S. set (path_inputs sha (fst x) (snd x))"],
      auto simp: counted_def)
  ultimately show "counted sha d m (cut ` S)"
    using S m unfolding counted_def by (auto simp: cut_def)
qed

lemma counted_side:
  assumes S: "counted sha (Suc d) n S"
    and IH: "\<forall>S n. counted sha d n S \<longrightarrow> (\<Sum>x \<in> S. unat (n_sum (fst x))) \<le> unat (n_sum n)"
    and T: "T = {x \<in> S. s_side (last (snd x)) = z}" and x: "x \<in> T"
    and m: "fold_path sha (fst x) (butlast (snd x)) = Inr m"
  shows "(\<Sum>x \<in> T. unat (n_sum (fst x))) \<le> unat (n_sum m)"
proof -
  have "counted sha (Suc d) n T" using S T by (auto intro: counted_subset)
  moreover have "\<forall>y \<in> T. s_side (last (snd y)) = z" using T by simp
  moreover have "\<forall>y \<in> T. fold_path sha (fst y) (butlast (snd y)) = Inr m"
  proof
    fix y assume y: "y \<in> T"
    then obtain k where k: "fold_path sha (fst y) (butlast (snd y)) = Inr k"
      using counted_last(1) [OF S, of y] T by auto
    have "k = m" using counted_steps(1) [OF S _ _ k m] x y T by auto
    then show "fold_path sha (fst y) (butlast (snd y)) = Inr m" using k by simp
  qed
  ultimately have "counted sha d m (cut ` T)" "inj_on cut T" by (rule counted_cut)+
  with IH have "(\<Sum>x \<in> cut ` T. unat (n_sum (fst x))) \<le> unat (n_sum m)" "inj_on cut T" by auto
  then show ?thesis by (simp add: sum.reindex) (simp add: cut_def)
qed

lemma counted_sum:
  "counted sha d n S \<Longrightarrow> (\<Sum>x \<in> S. unat (n_sum (fst x))) \<le> unat (n_sum n)"
proof (induction d arbitrary: S n)
  case 0
  then have "S \<subseteq> {(n, [])}" by (auto simp: counted_def)
  then consider "S = {}" | "S = {(n, [])}" by blast
  then show ?case by cases auto
next
  case (Suc d)
  define L where "L = {x \<in> S. s_side (last (snd x)) = SideLeft}"
  define R where "R = {x \<in> S. s_side (last (snd x)) = SideRight}"
  have side: "s_side (last (snd x)) \<in> {SideLeft, SideRight}" "unat (n_sum m) \<le> unat (n_sum n)"
    if "x \<in> S" "fold_path sha (fst x) (butlast (snd x)) = Inr m" for x m
  proof -
    have f: "fold_path sha m [last (snd x)] = Inr n"
      using counted_last(4) [OF Suc.prems that] by simp
    then show "s_side (last (snd x)) \<in> {SideLeft, SideRight}" by (simp add: fold_path_Cons)
    show "unat (n_sum m) \<le> unat (n_sum n)" using fold_path_sum [OF f] by simp
  qed
  have "x \<in> L \<union> R" if x: "x \<in> S" for x
    using counted_last(1) [OF Suc.prems x] side(1) [OF x] x by (auto simp: L_def R_def)
  then have "S = L \<union> R" by (auto simp: L_def R_def)
  moreover have "L \<inter> R = {}" by (auto simp: L_def R_def SideLeft_def SideRight_def)
  moreover have "finite S" using Suc.prems by (simp add: counted_def)
  ultimately have sum: "(\<Sum>x \<in> S. unat (n_sum (fst x)))
      = (\<Sum>x \<in> L. unat (n_sum (fst x))) + (\<Sum>x \<in> R. unat (n_sum (fst x)))"
    by (simp add: sum.union_disjoint)
  have IH: "\<forall>S n. counted sha d n S \<longrightarrow> (\<Sum>x \<in> S. unat (n_sum (fst x))) \<le> unat (n_sum n)"
    using Suc.IH by blast
  note part = counted_side [OF Suc.prems IH]
  consider "L = {}" "R = {}" | x where "x \<in> L" "R = {}" | x where "L = {}" "x \<in> R"
    | x y where "x \<in> L" "y \<in> R" by blast
  then show ?case
  proof cases
    case 1
    then show ?thesis using sum by simp
  next
    case 2
    then obtain m where m: "fold_path sha (fst x) (butlast (snd x)) = Inr m"
      using counted_last(1) [OF Suc.prems, of x] by (auto simp: L_def)
    then show ?thesis using part [OF L_def 2(1) m] side(2) [of x m] 2 sum by (simp add: L_def)
  next
    case 3
    then obtain m where m: "fold_path sha (fst x) (butlast (snd x)) = Inr m"
      using counted_last(1) [OF Suc.prems, of x] by (auto simp: R_def)
    then show ?thesis using part [OF R_def 3(2) m] side(2) [of x m] 3 sum by (simp add: R_def)
  next
    case 4
    then obtain m k where m: "fold_path sha (fst x) (butlast (snd x)) = Inr m"
      and k: "fold_path sha (fst y) (butlast (snd y)) = Inr k"
      using counted_last(1) [OF Suc.prems, of x] counted_last(1) [OF Suc.prems, of y]
      by (auto simp: L_def R_def)
    have "unat (n_sum n) = unat (n_sum m) + unat (n_sum k)"
      using 4 by (intro counted_steps(2) [OF Suc.prems _ _ m k])
        (auto simp: L_def R_def SideLeft_def SideRight_def)
    then show ?thesis using part [OF L_def 4(1) m] part [OF R_def 4(2) k] sum by simp
  qed
qed

end
