(* ===== verification/Liab_Build.thy ===== *)
theory Liab_Build
  imports Liab_Proofs
begin

text \<open>
  \<open>Build\<close> and \<open>Rebuild\<close>: the shuffle only permutes the leaves, its indices are unbiased, the tree
  holds exactly the given accounts, and \<open>Rebuild\<close> on the stored leaves gives the same tree.
\<close>

section \<open>The rejection sampling of \<open>uniform\<close>\<close>

lemma uniform_limit_nat:
  assumes "m \<noteq> 0"
  shows "unat (uniform_limit m) + 1 = 2 ^ 64 - 2 ^ 64 mod unat m"
proof -
  let ?u = "unat m"
  have u: "0 < ?u" "?u \<le> 2 ^ 64 - 1"
    using assms unat_less_2p64 [of m] by (simp_all add: unat_gt_0)
  have m1: "unat (- 1 :: u64) = 2 ^ 64 - 1" by (simp add: unsigned_minus_1_eq_mask mask_eq_exp_minus_1)
  have a: "unat ((- 1 :: u64) mod m) = (2 ^ 64 - 1) mod ?u" by (simp add: unat_mod m1)
  have "(2 ^ 64 - 1) mod ?u < ?u" using u(1) by (rule mod_less_divisor)
  then have "unat ((- 1 :: u64) mod m) + unat (1 :: u64) < 2 ^ LENGTH(64)"
    using u(2) a by simp
  from unat_add_no_wrap [OF this]
  have "unat ((- 1 :: u64) mod m + 1) = (2 ^ 64 - 1) mod ?u + 1" using a by simp
  then have "unat (((- 1 :: u64) mod m + 1) mod m) = ((2 ^ 64 - 1) mod ?u + 1) mod ?u"
    by (simp only: unat_mod)
  also have "\<dots> = (2 ^ 64 - 1 + 1) mod ?u" by (simp only: mod_add_left_eq)
  finally have b: "unat (((- 1 :: u64) mod m + 1) mod m) = 2 ^ 64 mod ?u" by simp
  have "unat (uniform_limit m) = 2 ^ 64 - 1 - 2 ^ 64 mod ?u"
    unfolding uniform_limit_def by (subst unat_sub_le) (simp_all add: b m1)
  moreover have "2 ^ 64 mod ?u < ?u" using u(1) by (rule mod_less_divisor)
  ultimately show ?thesis using u(2) by simp
qed

lemma uniform_Inr:
  assumes "uniform rand m = Inr (j, rest)" and "m \<noteq> 0"
  shows "j < m"
  using assms
proof (induction rand m rule: uniform.induct)
  case (1 rand m)
  obtain b r where br: "read_full 8 rand = Some (b, r)"
    using 1(2) by (subst (asm) uniform.simps) (auto split: option.splits)
  show ?case
  proof (cases "be_word b \<le> uniform_limit m")
    case True
    then have "j = be_word b mod m" using 1(2) br by (subst (asm) uniform.simps) simp
    then show ?thesis using 1(3) by (simp add: word_less_nat_alt unat_mod unat_gt_0)
  next
    case False
    then have "uniform r m = Inr (j, rest)" using 1(2) br by (subst (asm) uniform.simps) simp
    then show ?thesis using 1(1) [OF br refl refl False] 1(3) by simp
  qed
qed

lemma mset_swap_indices:
  "i < length xs \<Longrightarrow> j < length xs \<Longrightarrow> mset (swap xs i j) = mset xs"
  unfolding swap_def by (rule mset_swap)

lemma shuffle_mset:
  assumes "shuffle i xs rand = Inr (ys, rest)" and "i < length xs" and "length xs < 2 ^ 64"
  shows "mset ys = mset xs"
  using assms
proof (induction i xs rand rule: shuffle.induct)
  case (1 es rand)
  then show ?case by simp
next
  case (2 i es rand)
  let ?m = "of_nat (Suc i) + 1 :: u64"
  obtain j rand' where j: "uniform rand ?m = Inr (j, rand')"
    and rec: "shuffle i (swap es (Suc i) (unat j)) rand' = Inr (ys, rest)"
    using 2(2) by (auto split: sum.splits prod.splits)
  have m: "unat ?m = i + 2"
  proof -
    have "?m = of_nat (i + 2)" by simp
    moreover have "i + 2 < 2 ^ LENGTH(64)" using 2(3,4) by simp
    ultimately show ?thesis by (simp only: unat_of_nat mod_less)
  qed
  have nz: "?m \<noteq> 0"
  proof
    assume "?m = 0"
    then have "unat ?m = 0" by (simp only: unat_0)
    then show False using m by simp
  qed
  from uniform_Inr [OF j nz] m have uj: "unat j < length es"
    using 2(3) by (simp add: word_less_nat_alt)
  have len: "length (swap es (Suc i) (unat j)) = length es" by (simp add: swap_def)
  have "mset ys = mset (swap es (Suc i) (unat j))"
    using 2(1) [OF j refl rec] 2(3,4) len by simp
  then show ?case using mset_swap_indices [of "Suc i" es "unat j"] uj 2(3) by simp
qed

lemma shuffle_length: "shuffle i xs rand = Inr (ys, rest) \<Longrightarrow> length ys = length xs"
  by (induction i xs rand rule: shuffle.induct) (auto simp: swap_def split: sum.splits prod.splits)

definition account :: "entry \<Rightarrow> leaf" where
  "account e = \<lparr>l_aid = e_aid e, l_balance = e_balance e\<rparr>"

lemma draw_salts_accounts:
  "draw_salts es rand = Inr (es', rest) \<Longrightarrow> map account es' = map account es"
  by (induction es arbitrary: rand es' rest)
     (auto simp: ebind_Inr_iff account_def split: option.splits)

lemma place_leaves_accounts:
  "place_leaves seen ls = Inr es \<Longrightarrow>
     map account es = ls \<and> distinct (map l_aid ls) \<and> set (map l_aid ls) \<inter> set seen = {}
     \<and> [] \<notin> set (map l_aid ls)"
proof (induction seen ls arbitrary: es rule: place_leaves.induct)
  case (2 seen l ls)
  then show ?case by (auto simp: ebind_Inr_iff account_def split: if_splits)
qed simp

section \<open>The size\<close>

lemma grow_size_pow:
  assumes "sz = 2 ^ k"
  shows "\<exists>d \<ge> k. grow_size n sz = 2 ^ d \<and> n \<le> grow_size n sz \<and> (d = k \<or> 2 ^ d < 2 * n)"
  using assms
proof (induction n sz arbitrary: k rule: grow_size.induct)
  case (1 n sz)
  show ?case
  proof (cases "sz < n")
    case True
    then have "\<exists>d \<ge> Suc k. grow_size n (2 * sz) = 2 ^ d \<and> n \<le> grow_size n (2 * sz)
        \<and> (d = Suc k \<or> 2 ^ d < 2 * n)"
      using 1(2) by (intro 1(1)) auto
    then obtain d where "d \<ge> Suc k" "grow_size n (2 * sz) = 2 ^ d" "n \<le> grow_size n (2 * sz)"
      "d = Suc k \<or> 2 ^ d < 2 * n" by blast
    moreover have "grow_size n sz = grow_size n (2 * sz)"
      using True 1(2) by (subst grow_size.simps) simp
    ultimately show ?thesis using True 1(2) by (intro exI [of _ d]) auto
  next
    case False
    then have "grow_size n sz = sz" by (subst grow_size.simps) simp
    then show ?thesis using False 1(2) by auto
  qed
qed

lemma build_size:
  assumes "n \<le> 2 ^ MaxDepth"
  obtains d where "4 \<le> d" "d \<le> MaxDepth" "grow_size n MinLeaves = 2 ^ d" "n \<le> 2 ^ d"
proof -
  have "MinLeaves = 2 ^ 4" by (simp add: MinLeaves_def)
  from grow_size_pow [OF this, of n] obtain d where d: "4 \<le> d" "grow_size n MinLeaves = 2 ^ d"
    "n \<le> 2 ^ d" "d = 4 \<or> 2 ^ d < 2 * n" by metis
  have "d \<le> MaxDepth"
  proof (cases "d = 4")
    case False
    then have "2 ^ d < (2 :: nat) * 2 ^ MaxDepth" using d(4) assms by linarith
    then have "(2 :: nat) ^ d < 2 ^ Suc MaxDepth" by simp
    then show ?thesis using power_less_imp_less_exp [of "2 :: nat" d "Suc MaxDepth"] by simp
  qed (simp add: MaxDepth_def)
  with d show thesis using that by blast
qed

lemma size_32: "d \<le> MaxDepth \<Longrightarrow> (2 :: nat) ^ d < 2 ^ 64"
  by (rule power_strict_increasing) (auto simp: MaxDepth_def)

lemma Build_InrE:
  assumes "Build sha enc leaves toDay rand = Inr t"
  obtains d es where "4 \<le> d" "d \<le> MaxDepth" "length es = 2 ^ d" "build sha enc toDay es = Inr t"
    "mset (map account es) = mset leaves + replicate_mset (2 ^ d - length leaves) (account pad_entry)"
    "distinct (map l_aid leaves)" "[] \<notin> set (map l_aid leaves)"
proof -
  have n: "length leaves \<le> 2 ^ MaxDepth" using assms by (auto simp: Build_def split: if_splits)
  obtain d where d: "4 \<le> d" "d \<le> MaxDepth" "grow_size (length leaves) MinLeaves = 2 ^ d"
    "length leaves \<le> 2 ^ d" using n by (rule build_size)
  obtain acc es0 r0 es r1 where b: "place_leaves [] leaves = Inr acc"
    "shuffle (2 ^ d - 1) (acc @ replicate (2 ^ d - length leaves) pad_entry) rand = Inr (es0, r0)"
    "draw_salts es0 r0 = Inr (es, r1)" "build sha enc toDay es = Inr t"
    using assms d(3) by (auto simp: Build_def ebind_Inr_iff Let_def split: if_splits)
  let ?xs = "acc @ replicate (2 ^ d - length leaves) pad_entry"
  have acc: "map account acc = leaves" "distinct (map l_aid leaves)" "[] \<notin> set (map l_aid leaves)"
    using place_leaves_accounts [OF b(1)] by auto
  have "length acc = length leaves" using acc(1) by (metis length_map)
  then have len: "length ?xs = 2 ^ d" using d(4) by simp
  have "mset es0 = mset ?xs"
    using b(2) by (rule shuffle_mset) (use len size_32 [OF d(2)] in auto)
  then have "mset (map account es0) = mset (map account ?xs)" by simp
  moreover have "map account es = map account es0" using draw_salts_accounts [OF b(3)] .
  moreover from this have "length es = 2 ^ d"
    using shuffle_length [OF b(2)] len by (metis length_map)
  ultimately show thesis using that [OF d(1,2) _ b(4)] acc by simp
qed

section \<open>Powers of two by the bit trick\<close>

lemma and_minus_one_pow:
  fixes n :: nat
  assumes "n \<noteq> 0" and "n AND (n - 1) = 0"
  shows "\<exists>d. n = 2 ^ d"
proof (rule ccontr)
  assume no: "\<nexists>d. n = 2 ^ d"
  obtain d where d: "2 ^ d \<le> n" "n < 2 ^ (d + 1)" using ex_power_ivl1 [of 2 n] assms(1) by auto
  have "n \<noteq> 2 ^ d" using no by blast
  then have "2 ^ d \<le> n - 1" "n - 1 < 2 ^ (d + 1)" using d by auto
  then have "n div 2 ^ d = 1" "(n - 1) div 2 ^ d = 1" using d by (auto simp: div_nat_eqI)
  then have "bit n d" "bit (n - 1) d" by (simp_all add: bit_iff_odd)
  then have "bit (n AND (n - 1)) d" by (simp add: bit_and_iff)
  then show False using assms(2) by simp
qed

lemma word_and_minus_one_pow:
  fixes n :: u64
  assumes "n \<noteq> 0" and "n AND (n - 1) = 0"
  shows "\<exists>d. unat n = 2 ^ d"
proof -
  have "unat n \<noteq> 0" using assms(1) by (simp add: unat_eq_0)
  moreover have "1 \<le> n" using assms(1) by (simp add: word_le_nat_alt unat_gt_0 Suc_le_eq)
  then have "unat (n - 1) = unat n - 1" by (simp add: unat_sub_le)
  then have "unat n AND (unat n - 1) = 0"
    using arg_cong [OF assms(2), of unat] by (simp add: unsigned_and_eq)
  ultimately show ?thesis by (rule and_minus_one_pow)
qed

lemma pow_and_minus_one: "(2 ^ d :: u64) AND (2 ^ d - 1) = 0"
  by (rule bit_word_eqI) (auto simp: bit_simps simp flip: mask_eq_exp_minus_1)

section \<open>Rebuild\<close>

definition accounts :: "entry list \<Rightarrow> leaf multiset" where
  "accounts es = filter_mset (\<lambda>l. l_aid l \<noteq> []) (mset (map account es))"

lemma check_entries_iff:
  "check_entries seen es = Inr () \<longleftrightarrow>
     (\<forall>e \<in> set es. padding e \<longrightarrow> e_balance e = 0)
     \<and> distinct (map e_aid (filter (\<lambda>e. \<not> padding e) es))
     \<and> set (map e_aid (filter (\<lambda>e. \<not> padding e) es)) \<inter> set seen = {}"
  by (induction seen es rule: check_entries.induct) auto

lemma accounts_filter: "accounts es = mset (map account (filter (\<lambda>e. \<not> padding e) es))"
  by (induction es) (auto simp: accounts_def account_def padding_def)

lemma Build_accounts:
  assumes "mset (map account es) = mset leaves + replicate_mset k (account pad_entry)"
    and "[] \<notin> set (map l_aid leaves)"
  shows "accounts es = mset leaves"
proof -
  have "filter_mset (\<lambda>l. l_aid l \<noteq> []) (mset leaves) = mset leaves"
    using assms(2) by (simp add: filter_mset_eq_conv) (metis image_eqI in_multiset_in_set set_mset_mset)
  moreover have "filter_mset (\<lambda>l. l_aid l \<noteq> []) (replicate_mset k (account pad_entry)) = {#}"
    by (auto simp: filter_mset_eq_mempty_iff account_def pad_entry_def)
  ultimately show ?thesis using assms(1) by (simp add: accounts_def)
qed

lemma Build_check_entries:
  assumes es: "mset (map account es) = mset leaves + replicate_mset k (account pad_entry)"
    and leaves: "distinct (map l_aid leaves)" "[] \<notin> set (map l_aid leaves)"
  shows "check_entries [] es = Inr ()"
  unfolding check_entries_iff
proof (intro conjI ballI impI)
  fix e assume e: "e \<in> set es" "padding e"
  then have "account e \<in># mset leaves + replicate_mset k (account pad_entry)"
    by (metis es image_eqI list.set_map set_mset_mset)
  moreover have "account e \<notin> set leaves"
    using e(2) leaves(2) by (auto simp: account_def padding_def image_iff)
  ultimately have "account e = account pad_entry" by (auto split: if_splits)
  then show "e_balance e = 0" by (simp add: account_def pad_entry_def)
next
  have "mset (map l_aid (map account (filter (\<lambda>e. \<not> padding e) es))) = mset (map l_aid leaves)"
    using Build_accounts [OF es leaves(2)] unfolding accounts_filter by (metis mset_map)
  then have "distinct (map l_aid (map account (filter (\<lambda>e. \<not> padding e) es)))"
    using leaves(1) by (metis mset_eq_imp_distinct_iff)
  then show "distinct (map e_aid (filter (\<lambda>e. \<not> padding e) es))"
    by (simp add: account_def comp_def)
qed simp

lemma sum_balances:
  assumes "check_entries [] es = Inr ()"
  shows "sum_list (map (unat \<circ> e_balance) es) = (\<Sum>l \<in># accounts es. unat (l_balance l))"
proof -
  have "\<forall>e \<in> set es. padding e \<longrightarrow> e_balance e = 0" using assms by (simp add: check_entries_iff)
  then have "sum_list (map (unat \<circ> e_balance) es)
      = sum_list (map (unat \<circ> e_balance) (filter (\<lambda>e. \<not> padding e) es))"
    by (induction es) auto
  then show ?thesis
    by (simp add: accounts_filter sum_mset_sum_list account_def comp_def multiset.map_comp flip: mset_map)
qed

text \<open>What both constructors establish.\<close>

definition built :: "hash_fn \<Rightarrow> leaf_enc \<Rightarrow> nat \<Rightarrow> liab_tree \<Rightarrow> bool" where
  "built sha enc d t \<longleftrightarrow> 4 \<le> d \<and> d \<le> MaxDepth \<and> length (t_entries t) = 2 ^ d
     \<and> build sha enc (t_to_day t) (t_entries t) = Inr t \<and> check_entries [] (t_entries t) = Inr ()"

lemma build_fields: "build sha enc toDay es = Inr t \<Longrightarrow> t_entries t = es \<and> t_to_day t = toDay"
  by (elim build_InrE) simp

lemma Build_built:
  assumes "Build sha enc leaves toDay rand = Inr t"
  shows "\<exists>d. built sha enc d t" and "accounts (t_entries t) = mset leaves"
  using Build_InrE [OF assms] build_fields Build_check_entries Build_accounts
  unfolding built_def by (metis (no_types, lifting))+

lemma unat_len:
  assumes "length es \<le> 2 ^ MaxDepth"
  shows "unat (of_nat (length es) :: u64) = length es"
proof -
  have "length es < 2 ^ LENGTH(64)" using assms by (simp add: MaxDepth_def)
  then show ?thesis by (simp only: unat_of_nat mod_less)
qed

lemma Rebuild_iff:
  assumes "length es < 2 ^ 64"
  shows "Rebuild sha enc toDay es = Inr t \<longleftrightarrow>
     (\<exists>d. 4 \<le> d \<and> d \<le> MaxDepth \<and> length es = 2 ^ d)
     \<and> check_entries [] es = Inr () \<and> build sha enc toDay es = Inr t"
proof -
  let ?n = "of_nat (length es) :: u64"
  have n: "unat ?n = length es" using assms by (simp only: unat_of_nat) simp
  have "\<not> (?n < of_nat MinLeaves \<or> ?n > 2 ^ MaxDepth \<or> ?n AND (?n - 1) \<noteq> 0)
      \<longleftrightarrow> (\<exists>d. 4 \<le> d \<and> d \<le> MaxDepth \<and> length es = 2 ^ d)" (is "?L \<longleftrightarrow> ?R")
  proof
    assume L: ?L
    then have lo: "16 \<le> length es" and hi: "length es \<le> 2 ^ MaxDepth"
      using n by (auto simp: word_less_nat_alt MinLeaves_def MaxDepth_def)
    have "?n \<noteq> 0" using lo n by (metis not_numeral_le_zero unat_0)
    then obtain d where d: "length es = 2 ^ d" using L word_and_minus_one_pow n by metis
    have "(2 :: nat) ^ 4 \<le> 2 ^ d" using lo d by simp
    then have "4 \<le> d" using power_le_imp_le_exp [of "2 :: nat" 4 d] by simp
    moreover have "d \<le> MaxDepth"
      using hi d power_le_imp_le_exp [of "2 :: nat" d MaxDepth] by simp
    ultimately show ?R using d by blast
  next
    assume ?R
    then obtain d where d: "4 \<le> d" "d \<le> MaxDepth" "length es = 2 ^ d" by blast
    have "(2 :: nat) ^ 4 \<le> 2 ^ d" using d(1) by (rule power_increasing) simp
    moreover have "(2 :: nat) ^ d \<le> 2 ^ MaxDepth" using d(2) by (rule power_increasing) simp
    ultimately have "16 \<le> length es" "length es \<le> 2 ^ MaxDepth" using d(3) by simp_all
    moreover have "?n = 2 ^ d" using d(3) by simp
    ultimately show ?L using n pow_and_minus_one [of d]
      by (simp add: word_less_nat_alt MinLeaves_def MaxDepth_def)
  qed
  then show ?thesis unfolding Rebuild_def Let_def by (auto simp: ebind_Inr_iff)
qed

lemma Rebuild_built:
  assumes "length es < 2 ^ 64" and "Rebuild sha enc toDay es = Inr t"
  shows "\<exists>d. built sha enc d t" and "t_entries t = es"
  using assms build_fields unfolding Rebuild_iff [OF assms(1)] built_def by metis+

lemma built_sum:
  assumes "built sha enc d t"
  shows "unat (Outstanding t) = (\<Sum>l \<in># accounts (t_entries t). unat (l_balance l))"
    and "unat (Outstanding t) \<le> 2 ^ 63 - 1" and "Depth t = d"
proof -
  obtain ns where ns: "leaf_nodes sha enc (t_to_day t) (t_entries t) = Inr ns"
    "build_levels sha ns = Inr (t_levels t)" "length ns = length (t_entries t)"
    using assms by (auto simp: built_def elim: build_InrE)
  have len: "length ns = 2 ^ d" using assms ns(3) by (simp add: built_def)
  have "map (unat \<circ> n_sum) ns = map (unat \<circ> e_balance) (t_entries t)"
    using leaf_nodes_sums [OF ns(1)] by (metis map_map)
  then show "unat (Outstanding t) = (\<Sum>l \<in># accounts (t_entries t). unat (l_balance l))"
    using build_levels_sum [OF ns(2) len] sum_balances assms by (simp add: Outstanding_def built_def)
  have "d = Suc (d - 1)" using assms by (simp add: built_def)
  then show "unat (Outstanding t) \<le> 2 ^ 63 - 1"
    using build_levels_sum_bound [OF ns(2), of "d - 1"] len by (simp add: Outstanding_def)
  show "Depth t = d" using assms build_depth by (auto simp: built_def)
qed

lemma Proof_Some:
  assumes "built sha enc d t"
  shows "Proof t aid = Some p \<longleftrightarrow> aid \<noteq> [] \<and>
     (\<exists>i < length (t_entries t). t_pos t aid = Some i \<and> e_aid (t_entries t ! i) = aid \<and> p = proofAt t i)"
proof -
  have "t_pos t = leaf_pos 0 (t_entries t) Map.empty" using assms by (auto simp: built_def elim: build_InrE)
  then have "t_pos t aid = Some i \<Longrightarrow> i < length (t_entries t) \<and> e_aid (t_entries t ! i) = aid" for i
    using leaf_pos_Some [of 0 "t_entries t" Map.empty aid i] by auto
  then show ?thesis by (auto simp: Proof_def split: option.splits)
qed

lemma built_verify:
  assumes t: "built sha enc d t" and i: "i < length (t_entries t)" and aid: "e_aid (t_entries t ! i) \<noteq> []"
  shows "Verify sha enc (proofAt t i) (Root t) (Outstanding t) (int (Depth t)) = Inr ()"
proof -
  have f: "fold_proof sha enc (proofAt t i) = Inr (last (t_levels t) ! 0)"
    using t i by (auto simp: built_def intro: fold_proofAt)
  have "length (p_path (proofAt t i)) = Depth t"
    by (simp add: proofAt_def Let_def length_path_up Depth_def)
  moreover have "4 \<le> Depth t" "Depth t \<le> MaxDepth" "\<not> Outstanding t > MaxSum"
    using t built_sum [OF t] by (auto simp: built_def word_less_nat_alt MaxSum_nat)
  moreover have "p_aid (proofAt t i) \<noteq> []" using aid by (simp add: proofAt_def Let_def)
  ultimately show ?thesis
    using f by (simp add: Verify_def MinDepth_def Root_def Outstanding_def)
qed

lemma Verify_iff:
  "Verify sha enc p root outstanding depth = Inr () \<longleftrightarrow>
     MinDepth \<le> depth \<and> depth \<le> int MaxDepth \<and> int (length (p_path p)) = depth \<and> p_aid p \<noteq> []
     \<and> outstanding \<le> MaxSum \<and> fold_proof sha enc p = Inr \<lparr>n_hash = root, n_sum = outstanding\<rparr>"
proof (cases "fold_proof sha enc p")
  case (Inr top)
  have "top = \<lparr>n_hash = root, n_sum = outstanding\<rparr> \<longleftrightarrow> n_hash top = root \<and> n_sum top = outstanding"
    by (cases top) simp
  then show ?thesis using Inr by (simp add: Verify_def not_less) (metis linorder_not_less)
qed (simp add: Verify_def)

end
