(* ===== verification/Liab_Props.thy ===== *)
theory Liab_Props
  imports Liab_Build
begin

text \<open>
  The properties of the liability tree, with their witnesses. The witnesses use \<open>demo_sha\<close>, a hash
  that reads three bytes of its input, and \<open>demo_enc\<close>, an encoder that writes the fields one after
  the other; the properties hold for every hash and every encoder.
\<close>

section \<open>A hash and an encoder to evaluate\<close>

definition demo_sha :: hash_fn where
  "demo_sha bs = (if length bs = 98 then ucast (bs ! 57) * 256 + ucast (bs ! 97)
     else 4294967296 + ucast (bs ! 49))"

definition demo_enc :: leaf_enc where
  "demo_enc c = Some (be_bytes 8 (lc_to_day c) @ be_bytes 8 (lc_balance c) @ ascii (lc_aid c))"

lemma demo_node: "demo_sha (node_input l r) = ucast (ucast (n_sum l) :: byte) * 256 + ucast (ucast (n_sum r) :: byte)"
  by (simp add: demo_sha_def node_input_def nodeLabel_def nth_append nth_be_bytes)

lemma demo_leaf:
  "length c \<noteq> 48 \<Longrightarrow> demo_sha (leaf_input salt c) = 4294967296 + ucast (ucast salt :: byte)"
  by (simp add: demo_sha_def leaf_input_def leafLabel_def nth_append nth_be_bytes)

lemma demo_enc_inj: "inj demo_enc"
  by (rule injI) (auto simp: demo_enc_def intro: leaf_content.equality)

lemma inj_on_distinct: "distinct (map f xs) \<Longrightarrow> A \<subseteq> set xs \<Longrightarrow> inj_on f A"
  by (auto simp: distinct_map intro: inj_on_subset)

definition demo_steps :: "path_step list" where
  "demo_steps = [\<lparr>s_hash = 0, s_sum = 1, s_side = SideRight\<rparr>,
     \<lparr>s_hash = 0, s_sum = 2, s_side = SideRight\<rparr>, \<lparr>s_hash = 0, s_sum = 3, s_side = SideRight\<rparr>]"

text \<open>Two sibling accounts of a tree of depth 4, with balances 5 and 7, and their proofs.\<close>

definition demo_p :: liab_proof where
  "demo_p = \<lparr>p_aid = ''a'', p_to_day = 1, p_balance = 5, p_salt = 1,
     p_path = \<lparr>s_hash = 4294967298, s_sum = 7, s_side = SideRight\<rparr> # demo_steps\<rparr>"

definition demo_q :: liab_proof where
  "demo_q = \<lparr>p_aid = ''b'', p_to_day = 1, p_balance = 7, p_salt = 2,
     p_path = \<lparr>s_hash = 4294967297, s_sum = 5, s_side = SideLeft\<rparr> # demo_steps\<rparr>"

lemma demo_fold:
  "fold_proof demo_sha demo_enc demo_p = Inr \<lparr>n_hash = 3843, n_sum = 18\<rparr>"
  "fold_proof demo_sha demo_enc demo_q = Inr \<lparr>n_hash = 3843, n_sum = 18\<rparr>"
  by (simp_all add: fold_proof_def demo_p_def demo_q_def demo_steps_def LeafHash_def demo_enc_def demo_leaf
      fold_path.simps addSum_def MaxSum_def SideLeft_def SideRight_def NodeHash_def demo_node)

lemma demo_verify:
  "Verify demo_sha demo_enc demo_p 3843 18 4 = Inr ()"
  "Verify demo_sha demo_enc demo_q 3843 18 4 = Inr ()"
  using demo_fold by (simp_all add: Verify_iff MinDepth_def MaxDepth_def MaxSum_def)
    (simp_all add: demo_p_def demo_q_def demo_steps_def)

lemma demo_no_collision: "inj_on demo_sha (hashed demo_sha demo_enc demo_p \<union> hashed demo_sha demo_enc demo_q)"
proof -
  let ?l = "\<lambda>p. leaf_bytes demo_enc p"
  let ?n0 = "node_input \<lparr>n_hash = 4294967297, n_sum = 5\<rparr> \<lparr>n_hash = 4294967298, n_sum = 7\<rparr>"
  let ?n1 = "node_input \<lparr>n_hash = 1287, n_sum = 12\<rparr> \<lparr>n_hash = 0, n_sum = 1\<rparr>"
  let ?n2 = "node_input \<lparr>n_hash = 3073, n_sum = 13\<rparr> \<lparr>n_hash = 0, n_sum = 2\<rparr>"
  let ?n3 = "node_input \<lparr>n_hash = 3330, n_sum = 15\<rparr> \<lparr>n_hash = 0, n_sum = 3\<rparr>"
  have "hashed demo_sha demo_enc demo_p \<union> hashed demo_sha demo_enc demo_q
      \<subseteq> set [?l demo_p, ?l demo_q, ?n0, ?n1, ?n2, ?n3]"
    by (simp add: hashed_def leaf_node_def leaf_bytes_def leaf_content_of_def demo_p_def demo_q_def
        demo_steps_def demo_enc_def climb_input_def climb_def sibling_def SideLeft_def SideRight_def
        demo_node demo_leaf)
  moreover have "distinct (map demo_sha [?l demo_p, ?l demo_q, ?n0, ?n1, ?n2, ?n3])"
    by (simp add: demo_node demo_leaf leaf_bytes_def leaf_content_of_def demo_p_def demo_q_def demo_enc_def)
  ultimately show ?thesis by (rule inj_on_distinct [rotated])
qed

section \<open>Liabilities are counted\<close>

text \<open>C7: whatever tree a hub published, the balances shown by all accepted proofs at different
  leaf positions of one signed record add up to at most the published total, unless two different
  inputs hashed by these proofs have one SHA-256.\<close>

theorem balances_counted:
  assumes "finite P" and "\<forall>p \<in> P. Verify sha enc p root outstanding depth = Inr ()"
    and "inj_on position P" and "inj_on sha (\<Union>p \<in> P. hashed sha enc p)"
  shows "(\<Sum>p \<in> P. unat (p_balance p)) \<le> unat outstanding"
proof -
  let ?f = "\<lambda>p. (leaf_node sha enc p, p_path p)"
  let ?n = "\<lparr>n_hash = root, n_sum = outstanding\<rparr>"
  have v: "fold_path sha (leaf_node sha enc p) (p_path p) = Inr ?n \<and> int (length (p_path p)) = depth"
    if "p \<in> P" for p
    using assms(2) that by (simp add: Verify_iff fold_proof_iff)
  have inj: "inj_on ?f P"
    using assms(3) by (auto simp: inj_on_def position_def)
  have "counted sha (nat depth) ?n (?f ` P)"
    unfolding counted_def
  proof (intro conjI)
    show "finite (?f ` P)" using assms(1) by simp
    show "\<forall>x \<in> ?f ` P. length (snd x) = nat depth \<and> fold_path sha (fst x) (snd x) = Inr ?n"
      using v by fastforce
    show "inj_on (map s_side \<circ> snd) (?f ` P)"
      using assms(3) by (auto simp: inj_on_def position_def)
    show "inj_on sha (\<Union>x \<in> ?f ` P. set (path_inputs sha (fst x) (snd x)))"
      using assms(4) by (rule inj_on_subset) (auto simp: hashed_def)
  qed
  from counted_sum [OF this] show ?thesis
    using inj by (simp add: sum.reindex) (simp add: leaf_node_def)
qed

theorem balances_counted_witness: "(\<Sum>p \<in> {demo_p, demo_q}. unat (p_balance p)) \<le> unat (18 :: u64)"
proof (rule balances_counted)
  show "\<forall>p \<in> {demo_p, demo_q}. Verify demo_sha demo_enc p 3843 18 4 = Inr ()"
    using demo_verify by simp
  show "inj_on position {demo_p, demo_q}"
    by (auto simp: inj_on_def position_def demo_p_def demo_q_def SideLeft_def SideRight_def)
  show "inj_on demo_sha (\<Union>p \<in> {demo_p, demo_q}. hashed demo_sha demo_enc p)"
    using demo_no_collision by simp
qed simp

section \<open>Build and Rebuild\<close>

lemma account_index:
  assumes t: "built sha enc d t" and l: "l \<in># accounts (t_entries t)"
  shows "\<exists>i < length (t_entries t). l_aid l \<noteq> [] \<and> t_pos t (l_aid l) = Some i
    \<and> account (t_entries t ! i) = l"
proof -
  obtain e where e: "e \<in> set (t_entries t)" "\<not> padding e" "l = account e"
    using l by (auto simp: accounts_filter)
  have pos: "t_pos t = leaf_pos 0 (t_entries t) Map.empty" using t by (auto simp: built_def elim: build_InrE)
  then obtain i where i: "t_pos t (e_aid e) = Some i"
    using leaf_pos_dom [OF e(1,2), of 0 Map.empty] by auto
  then have ii: "i < length (t_entries t)" "e_aid (t_entries t ! i) = e_aid e"
    using leaf_pos_Some [of 0 "t_entries t" Map.empty "e_aid e" i] pos by auto
  have "distinct (map e_aid (filter (\<lambda>e. \<not> padding e) (t_entries t)))"
    using t by (auto simp: built_def check_entries_iff)
  then have "inj_on e_aid (set (filter (\<lambda>e. \<not> padding e) (t_entries t)))"
    by (simp only: distinct_map)
  then have "t_entries t ! i = e"
    using ii e by (auto simp: padding_def dest: inj_onD)
  then show ?thesis using i ii e by (intro exI [of _ i]) (auto simp: account_def padding_def)
qed

lemma account_verifies:
  assumes "Build sha enc leaves toDay rand = Inr t" and "l \<in> set leaves"
  shows "\<exists>p. Proof t (l_aid l) = Some p \<and> p_aid p = l_aid l \<and> p_balance p = l_balance l
    \<and> p_to_day p = toDay \<and> Verify sha enc p (Root t) (Outstanding t) (int (Depth t)) = Inr ()"
proof -
  obtain d where t: "built sha enc d t" using Build_built [OF assms(1)] by blast
  have "l \<in># accounts (t_entries t)" using Build_built(2) [OF assms(1)] assms(2) by simp
  from account_index [OF t this] obtain i where i: "i < length (t_entries t)" "l_aid l \<noteq> []"
    "t_pos t (l_aid l) = Some i" "account (t_entries t ! i) = l" by blast
  have aid: "e_aid (t_entries t ! i) = l_aid l" "e_balance (t_entries t ! i) = l_balance l"
    using i(4) by (auto simp: account_def)
  have day: "t_to_day t = toDay" using Build_InrE [OF assms(1)] build_fields by metis
  show ?thesis
    using built_verify [OF t i(1)] i(2) aid i(3) day
    by (intro exI [of _ "proofAt t i"]) (auto simp: Proof_def proofAt_def Let_def)
qed

text \<open>C8: in a tree \<open>Build\<close> made, \<open>Proof\<close> gives every account a proof that carries its balance and
  that \<open>Verify\<close> accepts against the tree's root, total and depth.\<close>

theorem every_account_verifies:
  assumes "Build sha enc leaves toDay rand = Inr t" and "l \<in> set leaves"
  shows "\<exists>p. Proof t (l_aid l) = Some p \<and> p_aid p = l_aid l \<and> p_balance p = l_balance l
    \<and> p_to_day p = toDay \<and> Verify sha enc p (Root t) (Outstanding t) (int (Depth t)) = Inr ()"
  by (rule account_verifies [OF assms])

section \<open>When a tree is built\<close>

lemma next_level_total:
  "even (length ns) \<Longrightarrow> sum_list (map (unat \<circ> n_sum) ns) \<le> 2 ^ 63 - 1 \<Longrightarrow> \<exists>up. next_level sha ns = Inr up"
proof (induction sha ns rule: next_level.induct)
  case (1 sha l r rest)
  have a: "addSum (n_sum l) (n_sum r) = Some (n_sum l + n_sum r)"
    using 1(3) by (simp add: addSum_Some_iff)
  moreover have "\<exists>up. next_level sha rest = Inr up" using 1(2,3) by (intro 1(1) [OF a]) auto
  ultimately show ?case by auto
qed auto

lemma build_levels_total:
  "length ns = 2 ^ d \<Longrightarrow> sum_list (map (unat \<circ> n_sum) ns) \<le> 2 ^ 63 - 1 \<Longrightarrow>
     \<exists>ls. build_levels sha ns = Inr ls"
proof (induction d arbitrary: ns)
  case 0
  then show ?case by (simp add: build_levels_single)
next
  case (Suc d)
  have ev: "even (length ns)" using Suc.prems(1) by simp
  obtain up where up: "next_level sha ns = Inr up" using next_level_total [OF ev Suc.prems(2)] by blast
  have "length up = 2 ^ d" using length_next_level [OF up] Suc.prems(1) by simp
  moreover have "sum_list (map (unat \<circ> n_sum) up) \<le> 2 ^ 63 - 1"
    using next_level_sum [OF up ev] Suc.prems(2) by (simp only:)
  ultimately obtain ls where ls: "build_levels sha up = Inr ls" using Suc.IH by blast
  have "(1::nat) < 2 ^ Suc d" by (induction d) auto
  then show ?case using up ls Suc.prems(1) by (subst build_levels.simps) simp
qed

lemma leaf_nodes_total:
  "(\<exists>ns. leaf_nodes sha enc toDay es = Inr ns) \<longleftrightarrow>
     (\<forall>e \<in> set es. enc \<lparr>lc_aid = e_aid e, lc_to_day = toDay, lc_balance = e_balance e\<rparr> \<noteq> None)"
  by (induction es) (auto simp: LeafHash_def ebind_Inr_iff split: option.splits)

lemma build_total:
  assumes "length es = 2 ^ Suc d"
  shows "(\<exists>t. build sha enc toDay es = Inr t) \<longleftrightarrow>
     (\<forall>e \<in> set es. enc \<lparr>lc_aid = e_aid e, lc_to_day = toDay, lc_balance = e_balance e\<rparr> \<noteq> None)
     \<and> sum_list (map (unat \<circ> e_balance) es) \<le> 2 ^ 63 - 1"
proof -
  have *: "(\<exists>ls. build_levels sha ns = Inr ls) \<longleftrightarrow> sum_list (map (unat \<circ> e_balance) es) \<le> 2 ^ 63 - 1"
    if ns: "leaf_nodes sha enc toDay es = Inr ns" for ns
  proof -
    have len: "length ns = 2 ^ Suc d" using leaf_nodes_length [OF ns] assms by simp
    have "map (unat \<circ> n_sum) ns = map (unat \<circ> e_balance) es"
      using leaf_nodes_sums [OF ns] by (metis map_map)
    then show ?thesis
      using build_levels_total [OF len] build_levels_sum [OF _ len] build_levels_sum_bound [OF _ len] by metis
  qed
  show ?thesis
    using * leaf_nodes_total [of sha enc toDay es] by (auto simp: build_def ebind_Inr_iff)
qed

text \<open>\<open>Rebuild\<close> accepts exactly the lists of leaves it documents: a power of two from 16 to
  \<open>2^32\<close> of them, padding without balance, no account twice, every account an encodable string, and
  a total of at most \<open>2^63-1\<close> (which bounds every balance and every node sum too).\<close>

theorem Rebuild_accepts_iff:
  assumes "length es < 2 ^ 64"
  shows "(\<exists>t. Rebuild sha enc toDay es = Inr t) \<longleftrightarrow>
     (\<exists>d. 4 \<le> d \<and> d \<le> MaxDepth \<and> length es = 2 ^ d)
     \<and> (\<forall>e \<in> set es. padding e \<longrightarrow> e_balance e = 0)
     \<and> distinct (map e_aid (filter (\<lambda>e. \<not> padding e) es))
     \<and> (\<forall>e \<in> set es. enc \<lparr>lc_aid = e_aid e, lc_to_day = toDay, lc_balance = e_balance e\<rparr> \<noteq> None)
     \<and> sum_list (map (unat \<circ> e_balance) es) \<le> 2 ^ 63 - 1"
proof (cases "\<exists>d. 4 \<le> d \<and> d \<le> MaxDepth \<and> length es = 2 ^ d")
  case True
  then obtain d where d: "4 \<le> d" "d \<le> MaxDepth" "length es = 2 ^ d" by blast
  then have "length es = 2 ^ Suc (d - 1)" by simp
  from build_total [OF this, of sha enc toDay] show ?thesis
    using True by (simp add: Rebuild_iff [OF assms] check_entries_iff)
next
  case False
  then show ?thesis unfolding Rebuild_iff [OF assms] by blast
qed

definition demo_entries :: "entry list" where
  "demo_entries = [\<lparr>e_aid = ''a'', e_balance = 5, e_salt = 1\<rparr>, \<lparr>e_aid = ''b'', e_balance = 7, e_salt = 2\<rparr>]
     @ replicate 14 pad_entry"

theorem Rebuild_accepts_iff_witness: "\<exists>t. Rebuild demo_sha demo_enc 1 demo_entries = Inr t"
proof -
  have len: "length demo_entries = 2 ^ 4" by (simp add: demo_entries_def)
  then have "length demo_entries < 2 ^ 64" by simp
  from Rebuild_accepts_iff [OF this, of demo_sha demo_enc 1] show ?thesis
  proof (rule iffD2, intro conjI)
    show "\<exists>d. 4 \<le> d \<and> d \<le> MaxDepth \<and> length demo_entries = 2 ^ d"
      by (rule exI [of _ 4]) (simp add: MaxDepth_def len)
    show "distinct (map e_aid (filter (\<lambda>e. \<not> padding e) demo_entries))"
      by (simp add: demo_entries_def pad_entry_def padding_def)
    show "sum_list (map (unat \<circ> e_balance) demo_entries) \<le> 2 ^ 63 - 1"
      by (simp add: demo_entries_def pad_entry_def sum_list_replicate)
  qed (auto simp: demo_entries_def pad_entry_def padding_def demo_enc_def)
qed

text \<open>The witnesses of the properties of \<open>Build\<close>: two accounts, a random source of zero bytes.\<close>

lemma uniform_zeros:
  "8 \<le> n \<Longrightarrow> uniform (replicate n 0) m = Inr (0, replicate (n - 8) 0)"
proof -
  have "be_word (replicate 8 0) = (0 :: u64)" by (simp add: be_word_def numeral_eq_Suc)
  then show "8 \<le> n \<Longrightarrow> ?thesis"
    by (subst uniform.simps) (simp add: read_full_def min_def)
qed

lemma shuffle_zeros:
  "8 * i \<le> n \<Longrightarrow> \<exists>ys. shuffle i xs (replicate n 0) = Inr (ys, replicate (n - 8 * i) 0)"
proof (induction i arbitrary: n xs)
  case (Suc i)
  then show ?case using Suc.IH [of "n - 8"] by (simp add: uniform_zeros algebra_simps)
qed simp

lemma draw_salts_zeros:
  "32 * length es \<le> n \<Longrightarrow> \<exists>r. draw_salts es (replicate n 0) = Inr r"
proof (induction es arbitrary: n)
  case (Cons e es)
  then have "32 * length es \<le> n - 32" by simp
  from Cons.IH [OF this] show ?case using Cons.prems by (auto simp: read_full_def min_def)
qed simp

definition demo_leaves :: "leaf list" where
  "demo_leaves = [\<lparr>l_aid = ''a'', l_balance = 5\<rparr>, \<lparr>l_aid = ''b'', l_balance = 7\<rparr>]"

lemma demo_Build: "\<exists>t. Build demo_sha demo_enc demo_leaves 1 (replicate 632 0) = Inr t"
proof -
  let ?acc = "[\<lparr>e_aid = ''a'', e_balance = 5, e_salt = 0\<rparr>, \<lparr>e_aid = ''b'', e_balance = 7, e_salt = 0\<rparr>]"
  let ?xs = "?acc @ replicate 14 pad_entry"
  have g: "grow_size (Suc (Suc 0)) 16 = 16" by (simp add: grow_size.simps)
  obtain ys where sh: "shuffle 15 ?xs (replicate 632 0) = Inr (ys, replicate (632 - 8 * 15) 0)"
    using shuffle_zeros [of 15 632 ?xs] by auto
  have len: "length ys = 16" using shuffle_length [OF sh] by simp
  then obtain es r where ds: "draw_salts ys (replicate (632 - 8 * 15) 0) = Inr (es, r)"
    using draw_salts_zeros [of ys "632 - 8 * 15"] by auto
  have acc: "map account es = map account ys" using draw_salts_accounts [OF ds] .
  have "mset ys = mset ?xs" by (rule shuffle_mset [OF sh]) simp_all
  then have m: "mset (map e_balance ys) = mset (map e_balance ?xs)" by simp
  have "map e_balance es = map e_balance ys"
    using arg_cong [OF acc, of "map l_balance"] by (simp add: account_def comp_def)
  then have "sum_list (map (unat \<circ> e_balance) es) = sum_list (map unat (map e_balance ?xs))"
    using arg_cong [OF m, of "\<lambda>M. sum_mset (image_mset unat M)"]
    by (simp flip: map_map mset_map add: sum_mset_sum_list sum_list_replicate)
  moreover have "length es = 2 ^ Suc 3" using map_eq_imp_length_eq [OF acc] len by simp
  ultimately have "\<exists>t. build demo_sha demo_enc 1 es = Inr t"
    by (simp only: build_total) (simp add: demo_enc_def pad_entry_def sum_list_replicate)
  moreover have "place_leaves [] demo_leaves = Inr ?acc" by (simp add: demo_leaves_def)
  moreover have "grow_size (length demo_leaves) MinLeaves = 16"
    using g by (simp add: demo_leaves_def MinLeaves_def)
  moreover have "length demo_leaves = 2" by (simp add: demo_leaves_def)
  ultimately show ?thesis using sh ds by (simp add: Build_def MaxDepth_def Let_def)
qed

theorem every_account_verifies_witness:
  "\<exists>t p. Proof t ''b'' = Some p \<and> p_balance p = 7
    \<and> Verify demo_sha demo_enc p (Root t) (Outstanding t) (int (Depth t)) = Inr ()"
proof -
  obtain t where t: "Build demo_sha demo_enc demo_leaves 1 (replicate 632 0) = Inr t"
    using demo_Build by blast
  have "\<lparr>l_aid = ''b'', l_balance = 7\<rparr> \<in> set demo_leaves" by (simp add: demo_leaves_def)
  from every_account_verifies [OF t this] show ?thesis by auto
qed

text \<open>A tree \<open>Build\<close> made holds exactly the given accounts beside its padding, its published
  total is the sum of their balances computed without wrap-around and is at most \<open>2^63-1\<close>, and it has
  \<open>2^Depth\<close> leaves with \<open>Depth\<close> from 4 to 32.\<close>

theorem Build_outstanding:
  assumes "Build sha enc leaves toDay rand = Inr t"
  shows "accounts (t_entries t) = mset leaves
    \<and> unat (Outstanding t) = (\<Sum>l \<leftarrow> leaves. unat (l_balance l)) \<and> unat (Outstanding t) \<le> 2 ^ 63 - 1
    \<and> length (t_entries t) = 2 ^ Depth t \<and> 4 \<le> Depth t \<and> Depth t \<le> MaxDepth"
proof -
  obtain d where t: "built sha enc d t" using Build_built [OF assms] by blast
  have acc: "accounts (t_entries t) = mset leaves" by (rule Build_built(2) [OF assms])
  then have "unat (Outstanding t) = (\<Sum>l \<leftarrow> leaves. unat (l_balance l))"
    using built_sum(1) [OF t] by (simp add: sum_mset_sum_list flip: mset_map)
  then show ?thesis using acc built_sum(2,3) [OF t] t by (simp add: built_def)
qed

theorem Build_outstanding_witness:
  "\<exists>t. Build demo_sha demo_enc demo_leaves 1 (replicate 632 0) = Inr t \<and> unat (Outstanding t) = 12"
proof -
  obtain t where t: "Build demo_sha demo_enc demo_leaves 1 (replicate 632 0) = Inr t"
    using demo_Build by blast
  have "unat (Outstanding t) = 12" using Build_outstanding [OF t] by (simp add: demo_leaves_def)
  then show ?thesis using t by blast
qed

text \<open>\<open>Rebuild\<close> on the leaves a hub stored at the close (\<open>Entries\<close>) makes the tree \<open>Build\<close> made.\<close>

theorem Rebuild_entries:
  assumes "Build sha enc leaves toDay rand = Inr t"
  shows "Rebuild sha enc (t_to_day t) (t_entries t) = Inr t"
proof -
  obtain d where t: "built sha enc d t" using Build_built [OF assms] by blast
  then have "length (t_entries t) < 2 ^ 64" using size_32 by (simp add: built_def)
  then show ?thesis using t by (auto simp: Rebuild_iff built_def)
qed

theorem Rebuild_entries_witness:
  "\<exists>t. Build demo_sha demo_enc demo_leaves 1 (replicate 632 0) = Inr t
     \<and> Rebuild demo_sha demo_enc (t_to_day t) (t_entries t) = Inr t"
  using demo_Build Rebuild_entries by blast

section \<open>Soundness against a built tree\<close>

lemma path_up_sides:
  "length ss = length ls - 1 \<Longrightarrow> set ss \<subseteq> {SideLeft, SideRight} \<Longrightarrow>
     \<exists>i < 2 ^ length ss. map s_side (path_up ls i) = ss"
proof (induction ss arbitrary: ls)
  case Nil
  then have "length (path_up ls 0) = 0" by (simp only: length_path_up) simp
  then show ?case by simp
next
  case (Cons z ss)
  then obtain l u rest where ls: "ls = l # u # rest"
    by (cases ls; cases "tl ls") auto
  obtain i where i: "i < 2 ^ length ss" "map s_side (path_up (u # rest) i) = ss"
    using Cons.IH [of "u # rest"] Cons.prems ls by auto
  let ?j = "2 * i + (if z = SideLeft then 1 else 0)"
  have "?j < 2 ^ length (z # ss)" using i(1) by auto
  moreover have "map s_side (path_up ls ?j) = z # ss"
  proof (cases "z = SideLeft")
    case True
    have "(2 * i + 1) mod 2 = 1" "(2 * i + 1) div 2 = i" by simp_all
    then show ?thesis using i(2) True by (simp only: ls path_up.simps Let_def if_True split refl list.map path_step.simps)
  next
    case False
    then have "z = SideRight" using Cons.prems(2) by simp
    moreover have "(2 * i + 0) mod 2 = 0" "(2 * i + 0) div 2 = i" "(0::nat) \<noteq> 1" by simp_all
    ultimately show ?thesis using i(2) False
      by (simp only: ls path_up.simps Let_def if_False split refl list.map path_step.simps)
  qed
  ultimately have "?j < 2 ^ length (z # ss) \<and> map s_side (path_up ls ?j) = z # ss" by (rule conjI)
  then show ?case by (rule exI)
qed

lemma fold_path_sides: "fold_path sha c ss = Inr n \<Longrightarrow> set (map s_side ss) \<subseteq> {SideLeft, SideRight}"
  by (induction ss arbitrary: c) (auto simp: fold_path_Cons)

text \<open>C11: against the root, total and depth of a tree \<open>Rebuild\<close> made, only the tree's own proofs are
  accepted: the leaf, its salt and every step are those of \<open>proofAt\<close> at some position, unless the
  inputs hashed hold a collision of SHA-256 or the encoder writes two contents alike.\<close>

theorem Verify_sound:
  assumes "Rebuild sha enc toDay es = Inr t" and "length es < 2 ^ 64"
    and "Verify sha enc p (Root t) (Outstanding t) (int (Depth t)) = Inr ()"
    and "inj_on sha (hashed sha enc p \<union> (\<Union>i < length es. hashed sha enc (proofAt t i)))"
    and "inj_on enc (insert (leaf_content_of p) ((\<lambda>i. leaf_content_of (proofAt t i)) ` {..<length es}))"
  shows "\<exists>i < length es. p = proofAt t i \<and> account (es ! i) = \<lparr>l_aid = p_aid p, l_balance = p_balance p\<rparr>"
proof -
  obtain d where t: "built sha enc d t" and es: "t_entries t = es"
    using Rebuild_built [OF assms(2,1)] by blast
  have p: "fold_proof sha enc p = Inr (last (t_levels t) ! 0)" "length (p_path p) = Depth t"
    using assms(3) by (auto simp: Verify_iff Root_def Outstanding_def)
  have sides: "set (position p) \<subseteq> {SideLeft, SideRight}"
    using p(1) fold_path_sides unfolding fold_proof_iff position_def by blast
  have len: "length (position p) = length (t_levels t) - 1"
    using p(2) by (simp add: position_def Depth_def)
  obtain i where i: "i < 2 ^ length (position p)" "map s_side (path_up (t_levels t) i) = position p"
    using path_up_sides [OF len sides] by blast
  have il: "i < length es" using i(1) p(2) built_sum(3) [OF t] t es by (simp add: position_def built_def)
  have q: "fold_proof sha enc (proofAt t i) = Inr (last (t_levels t) ! 0)"
    using t il es by (auto simp: built_def intro: fold_proofAt)
  have "p = proofAt t i"
  proof (rule fold_proof_unique [OF p(1) q])
    show "position p = position (proofAt t i)" using i(2) by (simp add: position_def proofAt_def Let_def)
    show "inj_on sha (hashed sha enc p \<union> hashed sha enc (proofAt t i))"
      using assms(4) by (rule inj_on_subset) (use il in auto)
    show "inj_on enc {leaf_content_of p, leaf_content_of (proofAt t i)}"
      using assms(5) by (rule inj_on_subset) (use il in auto)
  qed
  then show ?thesis using il es by (auto simp: proofAt_def Let_def account_def)
qed

text \<open>The witness: a tree of two accounts under a hash without collisions on it.\<close>

definition wit_sha :: hash_fn where
  "wit_sha bs = (if length bs = 98
     then ucast (bs ! 49) + 1 + 256 * (ucast (bs ! 57) + 1) + 65536 * (ucast (bs ! 97) + 1)
     else 64 * ucast (bs ! 49))"

lemma wit_node: "wit_sha (node_input l r) = ucast (ucast (n_hash l) :: byte) + 1
    + 256 * (ucast (ucast (n_sum l) :: byte) + 1) + 65536 * (ucast (ucast (n_sum r) :: byte) + 1)"
  by (simp add: wit_sha_def node_input_def nodeLabel_def nth_append nth_be_bytes)

lemma wit_leaf: "length c \<noteq> 48 \<Longrightarrow> wit_sha (leaf_input salt c) = 64 * ucast (ucast salt :: byte)"
  by (simp add: wit_sha_def leaf_input_def leafLabel_def nth_append nth_be_bytes)

lemma demo_leaf_nodes:
  "leaf_nodes wit_sha demo_enc 1 demo_entries =
     Inr (\<lparr>n_hash = 64, n_sum = 5\<rparr> # \<lparr>n_hash = 128, n_sum = 7\<rparr> # replicate 14 \<lparr>n_hash = 0, n_sum = 0\<rparr>)"
proof -
  have "leaf_nodes wit_sha demo_enc 1 (replicate n pad_entry) = Inr (replicate n \<lparr>n_hash = 0, n_sum = 0\<rparr>)" for n
    by (induction n) (simp_all add: pad_entry_def LeafHash_def demo_enc_def wit_leaf)
  then show ?thesis by (simp add: demo_entries_def LeafHash_def demo_enc_def wit_leaf)
qed

lemma next_level_replicate:
  assumes "next_level sha [n, n] = Inr [m]"
  shows "next_level sha (replicate (2 * k) n) = Inr (replicate k m)"
  using assms by (induction k) (auto split: option.splits)

definition wit_levels :: "node list list" where
  "wit_levels = [
     \<lparr>n_hash = 64, n_sum = 5\<rparr> # \<lparr>n_hash = 128, n_sum = 7\<rparr> # replicate 14 \<lparr>n_hash = 0, n_sum = 0\<rparr>,
     \<lparr>n_hash = 525889, n_sum = 12\<rparr> # replicate 7 \<lparr>n_hash = 65793, n_sum = 0\<rparr>,
     \<lparr>n_hash = 68930, n_sum = 12\<rparr> # replicate 3 \<lparr>n_hash = 65794, n_sum = 0\<rparr>,
     [\<lparr>n_hash = 68931, n_sum = 12\<rparr>, \<lparr>n_hash = 65795, n_sum = 0\<rparr>],
     [\<lparr>n_hash = 68932, n_sum = 12\<rparr>]]"

lemma next_level_Cons:
  "next_level sha [a, b] = Inr [m] \<Longrightarrow> next_level sha (a # b # ns) = ebind (next_level sha ns) (\<lambda>ms. Inr (m # ms))"
  by (auto split: option.splits)

lemma wit_pairs:
  "next_level wit_sha [\<lparr>n_hash = 0, n_sum = 0\<rparr>, \<lparr>n_hash = 0, n_sum = 0\<rparr>] = Inr [\<lparr>n_hash = 65793, n_sum = 0\<rparr>]"
  "next_level wit_sha [\<lparr>n_hash = 65793, n_sum = 0\<rparr>, \<lparr>n_hash = 65793, n_sum = 0\<rparr>] = Inr [\<lparr>n_hash = 65794, n_sum = 0\<rparr>]"
  "next_level wit_sha [\<lparr>n_hash = 65794, n_sum = 0\<rparr>, \<lparr>n_hash = 65794, n_sum = 0\<rparr>] = Inr [\<lparr>n_hash = 65795, n_sum = 0\<rparr>]"
  "next_level wit_sha [\<lparr>n_hash = 64, n_sum = 5\<rparr>, \<lparr>n_hash = 128, n_sum = 7\<rparr>] = Inr [\<lparr>n_hash = 525889, n_sum = 12\<rparr>]"
  "next_level wit_sha [\<lparr>n_hash = 525889, n_sum = 12\<rparr>, \<lparr>n_hash = 65793, n_sum = 0\<rparr>] = Inr [\<lparr>n_hash = 68930, n_sum = 12\<rparr>]"
  "next_level wit_sha [\<lparr>n_hash = 68930, n_sum = 12\<rparr>, \<lparr>n_hash = 65794, n_sum = 0\<rparr>] = Inr [\<lparr>n_hash = 68931, n_sum = 12\<rparr>]"
  "next_level wit_sha [\<lparr>n_hash = 68931, n_sum = 12\<rparr>, \<lparr>n_hash = 65795, n_sum = 0\<rparr>] = Inr [\<lparr>n_hash = 68932, n_sum = 12\<rparr>]"
  by (simp_all add: NodeHash_def wit_node addSum_def MaxSum_def)

lemma wit_build_levels: "build_levels wit_sha (hd wit_levels) = Inr wit_levels"
proof -
  have eq: "wit_levels ! 0 = \<lparr>n_hash = 64, n_sum = 5\<rparr> # \<lparr>n_hash = 128, n_sum = 7\<rparr> # replicate (2 * 7) \<lparr>n_hash = 0, n_sum = 0\<rparr>"
    "wit_levels ! 1 = \<lparr>n_hash = 525889, n_sum = 12\<rparr> # \<lparr>n_hash = 65793, n_sum = 0\<rparr> # replicate (2 * 3) \<lparr>n_hash = 65793, n_sum = 0\<rparr>"
    "wit_levels ! 2 = \<lparr>n_hash = 68930, n_sum = 12\<rparr> # \<lparr>n_hash = 65794, n_sum = 0\<rparr> # replicate (2 * 1) \<lparr>n_hash = 65794, n_sum = 0\<rparr>"
    by (simp_all add: wit_levels_def numeral_eq_Suc)
  have "next_level wit_sha (wit_levels ! 0) = Inr (wit_levels ! 1)"
    "next_level wit_sha (wit_levels ! 1) = Inr (wit_levels ! 2)"
    "next_level wit_sha (wit_levels ! 2) = Inr (wit_levels ! 3)"
    unfolding eq next_level_Cons [OF wit_pairs(4)] next_level_Cons [OF wit_pairs(5)]
      next_level_Cons [OF wit_pairs(6)] next_level_replicate [OF wit_pairs(1)]
      next_level_replicate [OF wit_pairs(2)] next_level_replicate [OF wit_pairs(3)] ebind_simps
    by (simp_all add: wit_levels_def numeral_eq_Suc)
  then show ?thesis using wit_pairs(7)
    by (simp add: wit_levels_def build_levels.simps del: next_level.simps)
qed

definition wit_tree :: liab_tree where
  "wit_tree = \<lparr>t_to_day = 1, t_entries = demo_entries, t_levels = wit_levels,
     t_pos = leaf_pos 0 demo_entries Map.empty\<rparr>"

lemma wit_Rebuild: "Rebuild wit_sha demo_enc 1 demo_entries = Inr wit_tree"
proof -
  have l: "length demo_entries = 16" by (simp add: demo_entries_def)
  have "check_entries s (replicate n pad_entry) = Inr ()" for s n
    by (induction n) (simp_all add: pad_entry_def padding_def)
  then have "check_entries [] demo_entries = Inr ()"
    by (simp add: demo_entries_def padding_def)
  moreover have "build wit_sha demo_enc 1 demo_entries = Inr wit_tree"
    using demo_leaf_nodes wit_build_levels by (simp add: build_def wit_tree_def wit_levels_def)
  ultimately show ?thesis by (simp add: Rebuild_def l Let_def MinLeaves_def MaxDepth_def)
qed

definition wit_inputs :: "bytes list" where
  "wit_inputs = 
    (let l = (\<lambda>a b (s::b32). leaf_input s (the (demo_enc \<lparr>lc_aid = a, lc_to_day = 1, lc_balance = b\<rparr>)));
       n = (\<lambda>a i b j. node_input \<lparr>n_hash = a, n_sum = i\<rparr> \<lparr>n_hash = b, n_sum = j\<rparr>) in
     [l [] 0 0, l ''a'' 5 1, l ''b'' 7 2,
      n 0 0 0 0, n 65793 0 65793 0, n 65794 0 65794 0, n 64 5 128 7, n 525889 12 65793 0, n 68930 12 65794 0,
      n 68931 12 65795 0])"

lemma wit_distinct: "distinct (map wit_sha wit_inputs)"
  by (simp add: wit_inputs_def Let_def wit_node wit_leaf demo_enc_def)

lemma wit_hashed: "\<forall>i \<in> set [0..<16]. hashed wit_sha demo_enc (proofAt wit_tree i) \<subseteq> set wit_inputs"
  by (simp add: upt_rec hashed_def proofAt_def Let_def wit_tree_def wit_levels_def climb_input_def climb_def
      sibling_def demo_entries_def pad_entry_def leaf_node_def leaf_bytes_def leaf_content_of_def SideLeft_def
      SideRight_def wit_node wit_leaf wit_inputs_def demo_enc_def)

theorem Verify_sound_witness:
  "\<exists>i < 16. proofAt wit_tree 1 = proofAt wit_tree i \<and> account (demo_entries ! i) = \<lparr>l_aid = ''b'', l_balance = 7\<rparr>"
proof -
  have len: "length demo_entries = 16" by (simp add: demo_entries_def)
  obtain d where t: "built wit_sha demo_enc d wit_tree"
    using Rebuild_built [OF _ wit_Rebuild] len by auto
  have v: "Verify wit_sha demo_enc (proofAt wit_tree 1) (Root wit_tree) (Outstanding wit_tree) (int (Depth wit_tree)) = Inr ()"
    by (rule built_verify [OF t]) (simp_all add: wit_tree_def demo_entries_def)
  have h: "hashed wit_sha demo_enc (proofAt wit_tree 1) \<union> (\<Union>i < length demo_entries. hashed wit_sha demo_enc (proofAt wit_tree i))
      \<subseteq> set wit_inputs"
    using wit_hashed by (simp add: len Ball_def lessThan_def) blast
  have e: "inj_on demo_enc A" for A using demo_enc_inj by (rule inj_on_subset) simp
  have l: "length demo_entries < 2 ^ 64" by (simp add: len)
  from Verify_sound [OF wit_Rebuild l v inj_on_distinct [OF wit_distinct h] e]
  show ?thesis by (simp only: len) (simp add: proofAt_def Let_def wit_tree_def demo_entries_def)
qed

section \<open>The shuffle is unbiased\<close>

text \<open>The rejection rule of \<open>uniform\<close> keeps exactly the same number of 64-bit values for every
  result below \<open>m\<close>, the largest possible number \<open>2^64 div m\<close>, and never returns \<open>m\<close> or more.\<close>

theorem uniform_unbiased:
  assumes "m \<noteq> 0"
  shows "(\<forall>r < unat m. card {x. x \<le> uniform_limit m \<and> unat (x mod m) = r} = 2 ^ 64 div unat m)
    \<and> (\<forall>rand j rest. uniform rand m = Inr (j, rest) \<longrightarrow> j < m)"
proof (intro conjI allI impI)
  fix r assume r: "r < unat m"
  let ?u = "unat m" let ?q = "2 ^ 64 div ?u"
  have lim: "unat (uniform_limit m) + 1 = ?u * ?q"
    using uniform_limit_nat [OF assms] by (simp add: minus_mod_eq_mult_div)
  have "bij_betw unat {x. x \<le> uniform_limit m \<and> unat (x mod m) = r} ((\<lambda>i. ?u * i + r) ` {..<?q})"
    unfolding bij_betw_def
  proof (intro conjI)
    show "inj_on unat {x. x \<le> uniform_limit m \<and> unat (x mod m) = r}"
      by (rule inj_onI) (simp add: word_unat_eq_iff)
    show "unat ` {x. x \<le> uniform_limit m \<and> unat (x mod m) = r} = (\<lambda>i. ?u * i + r) ` {..<?q}" (is "?A = ?B")
    proof (intro subset_antisym subsetI)
      fix k assume "k \<in> ?A"
      then obtain x where x: "k = unat x" "x \<le> uniform_limit m" "unat (x mod m) = r" by blast
      then have "k < ?u * ?q" "k mod ?u = r" using lim by (auto simp: word_le_nat_alt unat_mod)
      then have "k div ?u < ?q" "k = ?u * (k div ?u) + r"
        using mult_div_mod_eq [of ?u k] by (simp_all only: less_mult_imp_div_less mult.commute)
      then show "k \<in> ?B" by blast
    next
      fix k assume "k \<in> ?B"
      then obtain i where i: "i < ?q" "k = ?u * i + r" by blast
      have "?u * i + r < ?u * Suc i" using r by simp
      also have "\<dots> \<le> ?u * ?q" using i(1) by (intro mult_le_mono2) simp
      finally have k: "k < ?u * ?q" using i(2) by simp
      also have "\<dots> \<le> 2 ^ 64" by simp
      finally have "unat (of_nat k :: u64) = k" by (simp add: unat_of_nat)
      then have "of_nat k \<in> {x. x \<le> uniform_limit m \<and> unat (x mod m) = r}"
        using k lim i(2) r by (simp add: word_le_nat_alt unat_mod)
      then show "k \<in> ?A" by (rule image_eqI [rotated]) (simp only: \<open>unat (of_nat k :: u64) = k\<close>)
    qed
  qed
  then have "card {x. x \<le> uniform_limit m \<and> unat (x mod m) = r} = card ((\<lambda>i. ?u * i + r) ` {..<?q})"
    by (rule bij_betw_same_card)
  also have "\<dots> = ?q"
    using r by (subst card_image) (simp_all add: inj_on_def)
  finally show "card {x. x \<le> uniform_limit m \<and> unat (x mod m) = r} = ?q" .
next
  fix rand j rest assume "uniform rand m = Inr (j, rest)"
  then show "j < m" using assms by (rule uniform_Inr)
qed

theorem uniform_unbiased_witness:
  "card {x :: u64. x \<le> uniform_limit 3 \<and> unat (x mod 3) = 2} = 6148914691236517205"
proof -
  have "(3 :: u64) \<noteq> 0" by simp
  from uniform_unbiased [OF this] show ?thesis by simp
qed

end
