(* ===== verification/Liab_Wire.thy ===== *)
theory Liab_Wire
  imports Liab_Props
begin

text \<open>
  The response form of a liability proof (\<open>liabtree/wire.go\<close>): hashes and salts as 64 lowercase hex
  digits, sides as \<open>"L"\<close> and \<open>"R"\<close>. Both directions are codecs, and parsing accepts one spelling only.
\<close>

section \<open>Hex\<close>

definition hexDigits :: string where
  "hexDigits = ''0123456789abcdef''"

definition Hex :: "b32 \<Rightarrow> string" where
  "Hex b = concat (map (\<lambda>c. [hexDigits ! unat (drop_bit 4 c), hexDigits ! unat (c AND 0x0f)]) (be_bytes 32 b))"

definition hex_nibble :: "char \<Rightarrow> byte option" where
  "hex_nibble ch =
     (let c = of_char ch :: nat in
      if 48 \<le> c \<and> c \<le> 57 then Some (of_nat (c - 48))
      else if 97 \<le> c \<and> c \<le> 102 then Some (of_nat (c - 97 + 10))
      else None)"

text \<open>The loop reads the digits in order and shifts each into its byte, which starts as 0.\<close>

fun parse_digits :: "string \<Rightarrow> liab_err + byte list" where
  "parse_digits (c # d # rest) =
     (case hex_nibble c of
        None \<Rightarrow> Inl ErrMalformed
      | Some v \<Rightarrow>
          (case hex_nibble d of
             None \<Rightarrow> Inl ErrMalformed
           | Some w \<Rightarrow>
               ebind (parse_digits rest) (\<lambda>bs. Inr ((push_bit 4 (push_bit 4 0 OR v) OR w) # bs))))"
| "parse_digits cs = Inr []"

definition ParseHex :: "string \<Rightarrow> liab_err + b32" where
  "ParseHex s = (if length s \<noteq> 64 then Inl ErrMalformed
     else ebind (parse_digits s) (\<lambda>bs. Inr (be_word bs)))"

lemma hex_digit_nibble: "n < 16 \<Longrightarrow> hex_nibble (hexDigits ! n) = Some (of_nat n)"
proof -
  have "\<forall>n \<in> set [0..<16]. hex_nibble (hexDigits ! n) = Some (of_nat n)" by code_simp
  then show "n < 16 \<Longrightarrow> ?thesis" by simp
qed

lemma hex_nibble_digit:
  assumes "hex_nibble ch = Some v"
  shows "unat v < 16 \<and> hexDigits ! unat v = ch"
proof -
  let ?c = "of_char ch :: nat"
  have d: "\<forall>n \<in> set [0..<10]. hexDigits ! n = char_of (48 + n)"
    "\<forall>n \<in> set [0..<6]. hexDigits ! (10 + n) = char_of (97 + n)" by code_simp+
  consider "48 \<le> ?c" "?c \<le> 57" "v = of_nat (?c - 48)"
    | "97 \<le> ?c" "?c \<le> 102" "v = of_nat (?c - 97 + 10)"
    using assms by (auto simp: hex_nibble_def Let_def split: if_splits)
  then show ?thesis
  proof cases
    case 1
    have "?c - 48 < 2 ^ LENGTH(8)" using 1 by simp
    then have v: "unat v = ?c - 48" unfolding 1(3) by (rule unat_of_nat_less)
    then have "hexDigits ! unat v = char_of (48 + (?c - 48))" using d(1) 1 by simp
    then show ?thesis using v 1 by simp
  next
    case 2
    have "?c - 97 + 10 < 2 ^ LENGTH(8)" using 2 by simp
    then have "unat v = ?c - 97 + 10" unfolding 2(3) by (rule unat_of_nat_less)
    then have v: "unat v = 10 + (?c - 97)" by simp
    moreover have "?c - 97 \<in> set [0..<6]" using 2 by simp
    ultimately have "hexDigits ! unat v = char_of (97 + (?c - 97))" using d(2) by metis
    then show ?thesis using v 2 by simp
  qed
qed

lemma unat_less_take_bit: "unat (v :: byte) < 16 \<Longrightarrow> take_bit 4 v = v"
  by (simp only: word_unat_eq_iff unat_take_bit_mod) simp

lemma nibble_bits:
  assumes "unat (v :: byte) < 16" and "bit v n"
  shows "n < 4"
  using assms bit_take_bit_iff [of 4 v n] by (simp add: unat_less_take_bit)

lemma nibbles:
  fixes c v w :: byte
  shows "unat (drop_bit 4 c) < 16" "unat (c AND 0x0f) < 16"
    and "push_bit 4 (drop_bit 4 c) OR (c AND 0x0f) = c"
    and "unat v < 16 \<Longrightarrow> unat w < 16 \<Longrightarrow> drop_bit 4 (push_bit 4 v OR w) = v"
    and "unat v < 16 \<Longrightarrow> unat w < 16 \<Longrightarrow> (push_bit 4 v OR w) AND 0x0f = w"
proof -
  have "unat c < 2 ^ LENGTH(8)" by (rule unsigned_less)
  then have "unat c div 2 ^ 4 < 16" by simp
  then show "unat (drop_bit 4 c) < 16" by (simp only: unat_drop_bit_div)
  have m: "(0x0f :: byte) = mask 4" by (simp add: mask_eq_exp_minus_1)
  have "unat (take_bit 4 c) = unat c mod 2 ^ 4" by (rule unat_take_bit_mod)
  then show "unat (c AND 0x0f) < 16" by (simp add: m flip: take_bit_eq_mask)
  show "push_bit 4 (drop_bit 4 c) OR (c AND 0x0f) = c"
    unfolding m by (rule bit_word_eqI) (auto simp only: bit_simps o_apply possible_bit_word le_add_diff_inverse)
next
  assume vw: "unat v < 16" "unat w < 16"
  have m: "(0x0f :: byte) = mask 4" by (simp add: mask_eq_exp_minus_1)
  have *: "n < 4" if "bit v n \<or> bit w n" for n using that vw nibble_bits by blast
  show "drop_bit 4 (push_bit 4 v OR w) = v"
  proof (rule bit_word_eqI)
    fix n assume "n < LENGTH(8)"
    then show "bit (drop_bit 4 (push_bit 4 v OR w)) n \<longleftrightarrow> bit v n"
      using * [of n] * [of "4 + n"]
      by (auto simp only: bit_drop_bit_eq o_apply bit_or_iff bit_push_bit_iff possible_bit_word) auto
  qed
  show "(push_bit 4 v OR w) AND 0x0f = w"
  proof (rule bit_word_eqI)
    fix n assume "n < LENGTH(8)"
    then show "bit ((push_bit 4 v OR w) AND 0x0f) n \<longleftrightarrow> bit w n"
      unfolding m using * [of n] by (auto simp only: bit_simps) auto
  qed
qed

definition hex_pairs :: "bytes \<Rightarrow> string" where
  "hex_pairs bs = concat (map (\<lambda>c. [hexDigits ! unat (drop_bit 4 c), hexDigits ! unat (c AND 0x0f)]) bs)"

lemma parse_digits_pairs: "parse_digits (hex_pairs bs) = Inr bs"
  by (induction bs) (simp_all add: hex_pairs_def hex_digit_nibble nibbles)

lemma hex_pairs_simps:
  "hex_pairs [] = []"
  "hex_pairs (c # bs) = hexDigits ! unat (drop_bit 4 c) # hexDigits ! unat (c AND 0x0f) # hex_pairs bs"
  by (simp_all add: hex_pairs_def)

lemma length_hex_pairs [simp]: "length (hex_pairs bs) = 2 * length bs"
  by (induction bs) (simp_all add: hex_pairs_def)

lemma parse_digits_canonical:
  "parse_digits s = Inr bs \<Longrightarrow> even (length s) \<Longrightarrow> s = hex_pairs bs \<and> length s = 2 * length bs"
proof (induction s arbitrary: bs rule: parse_digits.induct)
  case (1 c d rest)
  obtain v w bs' where vw: "hex_nibble c = Some v" "hex_nibble d = Some w"
    "parse_digits rest = Inr bs'" "bs = (push_bit 4 (push_bit 4 0 OR v) OR w) # bs'"
    using 1(2) by (auto simp: ebind_Inr_iff split: option.splits)
  have "even (length rest)" using 1(3) by simp
  from 1(1) [OF vw(1) vw(2) vw(3) this] have "rest = hex_pairs bs' \<and> length rest = 2 * length bs'" .
  moreover have bs: "bs = (push_bit 4 v OR w) # bs'" using vw(4) by simp
  moreover have v: "unat v < 16" "unat w < 16" "hexDigits ! unat v = c" "hexDigits ! unat w = d"
    using hex_nibble_digit [OF vw(1)] hex_nibble_digit [OF vw(2)] by auto
  ultimately show ?case
    by (simp only: hex_pairs_simps nibbles(4) [OF v(1,2)] nibbles(5) [OF v(1,2)] v) simp
qed (auto simp: hex_pairs_def)

lemma Hex_pairs: "Hex b = hex_pairs (be_bytes 32 b)"
  by (simp add: Hex_def hex_pairs_def)

lemma ParseHex_iff: "ParseHex s = Inr b \<longleftrightarrow> s = Hex b"
proof
  assume "ParseHex s = Inr b"
  then obtain bs where bs: "length s = 64" "parse_digits s = Inr bs" "b = be_word bs"
    by (auto simp: ParseHex_def ebind_Inr_iff split: if_splits)
  then have "s = hex_pairs bs" "length bs = 32" using parse_digits_canonical [OF bs(2)] by auto
  then show "s = Hex b" using bs(3) by (simp add: Hex_pairs be_bytes_be_word)
next
  assume "s = Hex b"
  then show "ParseHex s = Inr b"
    by (simp add: ParseHex_def Hex_pairs parse_digits_pairs be_word_be_bytes)
qed

interpretation hex: codec Hex ParseHex "\<lambda>_. True"
  by unfold_locales (simp add: ParseHex_iff)

section \<open>The proof on the wire\<close>

record wire_step =
  w_h :: string
  w_sum :: u64
  w_side :: string

record wire_proof =
  w_to_day :: u64
  w_aid :: string
  w_balance :: u64
  w_salt :: string
  w_path :: "wire_step list"

text \<open>\<open>string(rune(b))\<close> of a byte: one byte below 0x80, the two-byte UTF-8 form above.\<close>

definition rune_string :: "char \<Rightarrow> string" where
  "rune_string ch = (let c = of_char ch :: nat in
     if c < 128 then [ch] else [char_of (192 + c div 64), char_of (128 + c mod 64)])"

definition wire_of_step :: "path_step \<Rightarrow> wire_step" where
  "wire_of_step s = \<lparr>w_h = Hex (s_hash s), w_sum = s_sum s, w_side = rune_string (s_side s)\<rparr>"

definition Wire :: "liab_proof \<Rightarrow> wire_proof" where
  "Wire p = \<lparr>w_to_day = p_to_day p, w_aid = p_aid p, w_balance = p_balance p,
     w_salt = Hex (p_salt p), w_path = map wire_of_step (p_path p)\<rparr>"

fun parse_steps :: "wire_step list \<Rightarrow> liab_err + path_step list" where
  "parse_steps [] = Inr []"
| "parse_steps (s # ss) =
     ebind (ParseHex (w_h s)) (\<lambda>h.
       if w_side s = ''L'' then
         ebind (parse_steps ss) (\<lambda>r. Inr (\<lparr>s_hash = h, s_sum = w_sum s, s_side = SideLeft\<rparr> # r))
       else if w_side s = ''R'' then
         ebind (parse_steps ss) (\<lambda>r. Inr (\<lparr>s_hash = h, s_sum = w_sum s, s_side = SideRight\<rparr> # r))
       else Inl ErrMalformed)"

definition ParseWire :: "wire_proof \<Rightarrow> liab_err + liab_proof" where
  "ParseWire w =
     (if length (w_path w) > MaxDepth then Inl ErrMalformed
      else ebind (ParseHex (w_salt w)) (\<lambda>salt.
        ebind (parse_steps (w_path w)) (\<lambda>path.
          Inr \<lparr>p_aid = w_aid w, p_to_day = w_to_day w, p_balance = w_balance w,
               p_salt = salt, p_path = path\<rparr>)))"

definition wire_ok :: "liab_proof \<Rightarrow> bool" where
  "wire_ok p \<longleftrightarrow> length (p_path p) \<le> MaxDepth \<and> set (position p) \<subseteq> {SideLeft, SideRight}"

lemma rune_string_side:
  "rune_string SideLeft = ''L''" "rune_string SideRight = ''R''"
  by (simp_all add: rune_string_def SideLeft_def SideRight_def)

lemma parse_steps_iff:
  "parse_steps ws = Inr ss \<longleftrightarrow> ws = map wire_of_step ss \<and> s_side ` set ss \<subseteq> {SideLeft, SideRight}"
proof (induction ws arbitrary: ss)
  case Nil
  then show ?case by auto
next
  case (Cons w ws)
  show ?case
  proof
    assume "parse_steps (w # ws) = Inr ss"
    then obtain h d r where *: "w_h w = Hex h" "parse_steps ws = Inr r"
      "d = SideLeft \<and> w_side w = ''L'' \<or> d = SideRight \<and> w_side w = ''R''"
      "ss = \<lparr>s_hash = h, s_sum = w_sum w, s_side = d\<rparr> # r"
      by (auto simp: ebind_Inr_iff ParseHex_iff split: if_splits)
    then have "w = wire_of_step \<lparr>s_hash = h, s_sum = w_sum w, s_side = d\<rparr>"
      by (auto simp: wire_of_step_def rune_string_side)
    moreover have "ws = map wire_of_step r \<and> s_side ` set r \<subseteq> {SideLeft, SideRight}"
      using Cons [of r] *(2) by simp
    ultimately show "w # ws = map wire_of_step ss \<and> s_side ` set ss \<subseteq> {SideLeft, SideRight}"
      using *(3,4) by auto
  next
    assume r: "w # ws = map wire_of_step ss \<and> s_side ` set ss \<subseteq> {SideLeft, SideRight}"
    then obtain s ss' where ss: "ss = s # ss'" "w = wire_of_step s" "ws = map wire_of_step ss'" by auto
    have "parse_steps ws = Inr ss'" using Cons r ss by auto
    moreover have "s_side s = SideLeft \<or> s_side s = SideRight" using r ss by auto
    moreover have "ParseHex (w_h w) = Inr (s_hash s)" using ss by (simp add: ParseHex_iff wire_of_step_def)
    ultimately show "parse_steps (w # ws) = Inr ss"
      using ss by (auto simp: wire_of_step_def rune_string_side)
  qed
qed

text \<open>C13: \<open>Parse\<close> reads exactly the responses \<open>Wire\<close> writes: it accepts \<open>w\<close> as the proof \<open>p\<close> if and only
  if \<open>w\<close> is \<open>p.Wire()\<close>, the sides of \<open>p\<close> are left or right, and the path has at most 32 steps. So one
  proof has one spelling, and no proof is lost on the wire.\<close>

theorem ParseWire_iff: "ParseWire w = Inr p \<longleftrightarrow> wire_ok p \<and> w = Wire p"
proof
  assume "ParseWire w = Inr p"
  then obtain salt path where *: "\<not> length (w_path w) > MaxDepth" "w_salt w = Hex salt"
    "w_path w = map wire_of_step path" "s_side ` set path \<subseteq> {SideLeft, SideRight}"
    "p = \<lparr>p_aid = w_aid w, p_to_day = w_to_day w, p_balance = w_balance w, p_salt = salt, p_path = path\<rparr>"
    unfolding ParseWire_def by (simp only: ebind_Inr_iff ParseHex_iff parse_steps_iff split: if_splits)
      (simp, elim exE conjE, metis sum.inject(2))
  then show "wire_ok p \<and> w = Wire p"
    by (simp add: wire_ok_def position_def Wire_def)
next
  assume r: "wire_ok p \<and> w = Wire p"
  then have "parse_steps (w_path w) = Inr (p_path p)" "ParseHex (w_salt w) = Inr (p_salt p)"
    by (auto simp: parse_steps_iff ParseHex_iff wire_ok_def position_def Wire_def)
  then show "ParseWire w = Inr p" using r by (auto simp: ParseWire_def Wire_def wire_ok_def)
qed

end
