(* ===== verification/Aid.thy ===== *)
theory Aid
  imports Prelude
begin

unbundle bit_operations_syntax

text \<open>
  The syntax of an AID (\<open>identity/aid.go\<close>) and the list of weak public keys
  (\<open>identity/smallorder.go\<close>). Go's unpadded base32 is written out over bits: \<open>b32_encode\<close> is
  \<open>EncodeToString\<close>, \<open>b32_decode\<close> is \<open>DecodeString\<close>, which skips carriage returns and line feeds and
  drops a last group of 1, 3 or 6 characters.
\<close>

section \<open>Base32\<close>

definition b32_alphabet :: string where
  "b32_alphabet = ''abcdefghijklmnopqrstuvwxyz234567''"

definition byte_bits :: "byte \<Rightarrow> bool list" where
  "byte_bits b = map (\<lambda>i. bit b (7 - i)) [0..<8]"

definition bits_nat :: "bool list \<Rightarrow> nat" where
  "bits_nat bs = foldl (\<lambda>acc x. 2 * acc + of_bool x) 0 bs"

function enc_bits :: "bool list \<Rightarrow> string" where
  "enc_bits bs =
     (if bs = [] then []
      else b32_alphabet ! bits_nat (take 5 (bs @ replicate 4 False)) # enc_bits (drop 5 bs))"
  by pat_completeness auto
termination by (relation "measure length") auto

declare enc_bits.simps [simp del]

definition b32_encode :: "bytes \<Rightarrow> string" where
  "b32_encode bs = enc_bits (concat (map byte_bits bs))"

definition char_bits :: "char \<Rightarrow> bool list option" where
  "char_bits ch =
     (let c = of_char ch :: nat;
          v = (if 97 \<le> c \<and> c \<le> 122 then Some (c - 97)
               else if 50 \<le> c \<and> c \<le> 55 then Some (c - 50 + 26) else None)
      in map_option (\<lambda>n. map (\<lambda>i. bit n (4 - i)) [0..<5]) v)"

fun dec_bytes :: "nat \<Rightarrow> bool list \<Rightarrow> bytes" where
  "dec_bytes 0 bs = []"
| "dec_bytes (Suc n) bs = of_nat (bits_nat (take 8 bs)) # dec_bytes n (drop 8 bs)"

definition newline :: "char \<Rightarrow> bool" where
  "newline c \<longleftrightarrow> c = CHR 0x0A \<or> c = CHR 0x0D"

definition b32_decode :: "string \<Rightarrow> bytes option" where
  "b32_decode s =
     (let t = filter (\<lambda>c. \<not> newline c) s; vs = map char_bits t; l = length t in
      if None \<in> set vs then None
      else Some (dec_bytes (5 * (l div 8) + [0, 0, 1, 0, 2, 3, 0, 4] ! (l mod 8)) (concat (map the vs))))"

section \<open>AIDs\<close>

definition aidLen :: nat where "aidLen = 59"

definition aidPrefix :: bytes where "aidPrefix = [0x01, 0x71, 0x12, 0x20]"

definition ValidAID :: "string \<Rightarrow> bool" where
  "ValidAID s =
     (if length s \<noteq> aidLen \<or> s ! 0 \<noteq> CHR ''b'' then False
      else case b32_decode (drop 1 s) of
        None \<Rightarrow> False
      | Some raw \<Rightarrow>
          if length raw \<noteq> length aidPrefix + 32 \<or> take 4 raw \<noteq> aidPrefix then False
          else b32_encode raw = drop 1 s)"

lemma length_byte_bits [simp]: "length (byte_bits b) = 8"
  by (simp add: byte_bits_def)

lemma char_bits_digit: "length g = 5 \<Longrightarrow> char_bits (b32_alphabet ! bits_nat g) = Some g"
proof -
  have "\<forall>g \<in> set (List.n_lists 5 [False, True]). char_bits (b32_alphabet ! bits_nat g) = Some g"
    by code_simp
  moreover assume "length g = 5"
  then have "g \<in> set (List.n_lists 5 [False, True])" by (auto simp: set_n_lists)
  ultimately show ?thesis by blast
qed

lemma digit_not_newline: "length g = 5 \<Longrightarrow> \<not> newline (b32_alphabet ! bits_nat g)"
proof
  assume "length g = 5" and n: "newline (b32_alphabet ! bits_nat g)"
  then have "char_bits (b32_alphabet ! bits_nat g) = Some g" by (simp add: char_bits_digit)
  moreover have "char_bits (CHR 0x0A) = None" "char_bits (CHR 0x0D) = None" by code_simp+
  ultimately show False using n by (auto simp: newline_def)
qed

text \<open>The characters of an encoding carry its bits, padded with zeros to a multiple of five.\<close>

lemma enc_bits_decode:
  "\<exists>k. k \<le> 4 \<and> length bs + k = 5 * length (enc_bits bs)
     \<and> filter (\<lambda>c. \<not> newline c) (enc_bits bs) = enc_bits bs
     \<and> None \<notin> set (map char_bits (enc_bits bs))
     \<and> concat (map the (map char_bits (enc_bits bs))) = bs @ replicate k False"
proof (induction bs rule: enc_bits.induct)
  case (1 bs)
  show ?case
  proof (cases "bs = []")
    case True
    then show ?thesis by (intro exI [of _ 0]) (simp add: enc_bits.simps)
  next
    case False
    define g where "g = take 5 (bs @ replicate 4 False)"
    have g: "length g = 5" using False by (cases bs) (auto simp: g_def)
    have e: "enc_bits bs = b32_alphabet ! bits_nat g # enc_bits (drop 5 bs)"
      using False by (subst enc_bits.simps) (simp add: g_def)
    obtain k where k: "k \<le> 4" "length (drop 5 bs) + k = 5 * length (enc_bits (drop 5 bs))"
      "filter (\<lambda>c. \<not> newline c) (enc_bits (drop 5 bs)) = enc_bits (drop 5 bs)"
      "None \<notin> set (map char_bits (enc_bits (drop 5 bs)))"
      "concat (map the (map char_bits (enc_bits (drop 5 bs)))) = drop 5 bs @ replicate k False"
      using 1 [OF False] by blast
    show ?thesis
    proof (cases "length bs \<le> 5")
      case True
      then have d: "drop 5 bs = []" by simp
      then have "g = bs @ replicate (5 - length bs) False"
        using False True by (cases bs) (auto simp: g_def min_def)
      moreover have "enc_bits (drop 5 bs) = []" unfolding d by (subst enc_bits.simps) simp
      ultimately show ?thesis
        using False True g e char_bits_digit [OF g] digit_not_newline [OF g]
        by (intro exI [of _ "5 - length bs"]) (cases bs, auto)
    next
      case False
      then have "g @ drop 5 bs = bs" by (simp add: g_def)
      then show ?thesis
        using False g e k char_bits_digit [OF g] digit_not_newline [OF g]
        by (intro exI [of _ k]) auto
    qed
  qed
qed

lemma bits_nat_take_bit: "bits_nat (map (\<lambda>i. bit n (k - 1 - i)) [0..<k]) = take_bit k n"
proof (induction k arbitrary: n)
  case 0
  then show ?case by (simp add: bits_nat_def)
next
  case (Suc k)
  have "map (\<lambda>i. bit n (Suc k - 1 - i)) [0..<Suc k] = map (\<lambda>i. bit (n div 2) (k - 1 - i)) [0..<k] @ [odd n]"
    by (auto simp: Suc_diff_Suc simp flip: bit_Suc bit_0)
  then have "bits_nat (map (\<lambda>i. bit n (Suc k - 1 - i)) [0..<Suc k])
      = 2 * bits_nat (map (\<lambda>i. bit (n div 2) (k - 1 - i)) [0..<k]) + of_bool (odd n)"
    by (simp only: bits_nat_def foldl_append foldl_Cons foldl_Nil)
  then show ?case by (simp only: Suc.IH take_bit_Suc) (simp add: mod_2_eq_odd)
qed

lemma bits_byte: "(of_nat (bits_nat (byte_bits b)) :: byte) = b"
proof -
  have "byte_bits b = map (\<lambda>i. bit (unat b) (8 - 1 - i)) [0..<8]"
    by (simp add: byte_bits_def bit_unsigned_iff)
  then have "bits_nat (byte_bits b) = take_bit 8 (unat b)" by (simp only: bits_nat_take_bit)
  also have "\<dots> = unat b mod 2 ^ 8" by (rule take_bit_eq_mod)
  also have "\<dots> = unat b"
  proof -
    have "unat b < 2 ^ LENGTH(8)" by (rule unsigned_less)
    then show ?thesis by simp
  qed
  finally show ?thesis by simp
qed

lemma dec_bytes_bits: "n = length bs \<Longrightarrow> dec_bytes n (concat (map byte_bits bs) @ r) = bs"
  by (induction bs arbitrary: n) (simp_all add: bits_byte)

lemma length_concat_bits: "length (concat (map byte_bits bs)) = 8 * length bs"
  by (induction bs) simp_all

lemma decode_encode_36:
  assumes "length bs = 36"
  shows "b32_decode (b32_encode bs) = Some bs" "length (b32_encode bs) = 58"
proof -
  obtain k where k: "k \<le> 4" "length (concat (map byte_bits bs)) + k = 5 * length (b32_encode bs)"
    "filter (\<lambda>c. \<not> newline c) (b32_encode bs) = b32_encode bs"
    "None \<notin> set (map char_bits (b32_encode bs))"
    "concat (map the (map char_bits (b32_encode bs))) = concat (map byte_bits bs) @ replicate k False"
    using enc_bits_decode [of "concat (map byte_bits bs)"] unfolding b32_encode_def by blast
  then show l: "length (b32_encode bs) = 58" using assms by (simp add: length_concat_bits)
  show "b32_decode (b32_encode bs) = Some bs"
    using k(3-5) assms by (simp add: b32_decode_def Let_def l dec_bytes_bits del: map_map)
qed

lemma ValidAID_accepts:
  "ValidAID s \<longleftrightarrow> (\<exists>d. length d = 32 \<and> s = CHR ''b'' # b32_encode (aidPrefix @ d))"
proof
  assume v: "ValidAID s"
  then obtain raw where raw: "length s = 59" "s ! 0 = CHR ''b''" "length raw = 36" "take 4 raw = aidPrefix"
    "b32_encode raw = drop 1 s"
    by (auto simp: ValidAID_def aidLen_def aidPrefix_def split: if_splits option.splits)
  then have "s = CHR ''b'' # b32_encode (aidPrefix @ drop 4 raw)"
    using append_take_drop_id [of 4 raw] by (cases s) auto
  moreover have "length (drop 4 raw) = 32" using raw by simp
  ultimately show "\<exists>d. length d = 32 \<and> s = CHR ''b'' # b32_encode (aidPrefix @ d)" by blast
next
  assume "\<exists>d. length d = 32 \<and> s = CHR ''b'' # b32_encode (aidPrefix @ d)"
  then obtain d where d: "length d = 32" "s = CHR ''b'' # b32_encode (aidPrefix @ d)" by blast
  then have "length (aidPrefix @ d) = 36" by (simp add: aidPrefix_def)
  note decode_encode_36 [OF this]
  moreover have "take 4 (aidPrefix @ d) = aidPrefix" by (simp add: aidPrefix_def)
  ultimately show "ValidAID s" using d by (simp add: ValidAID_def aidLen_def aidPrefix_def)
qed

text \<open>\<open>ValidAID\<close> accepts exactly the strings \<open>anetcid.Sum\<close> can write: \<open>"b"\<close> and the base32 of the
  prefix followed by a 32-byte digest. Each digest has one accepted spelling.\<close>

theorem ValidAID_iff:
  "ValidAID s \<longleftrightarrow> (\<exists>d. length d = 32 \<and> s = CHR ''b'' # b32_encode (aidPrefix @ d))"
  by (rule ValidAID_accepts)

section \<open>Public keys of small order\<close>

definition smallOrderY :: "bytes list" where
  "smallOrderY =
     [0x01 # replicate 31 0x00,
      0xec # replicate 30 0xff @ [0x7f],
      replicate 32 0x00,
      [0x26, 0xe8, 0x95, 0x8f, 0xc2, 0xb2, 0x27, 0xb0, 0x45, 0xc3, 0xf4, 0x89, 0xf2, 0xef, 0x98, 0xf0,
       0xd5, 0xdf, 0xac, 0x05, 0xd3, 0xc6, 0x33, 0x39, 0xb1, 0x38, 0x02, 0x88, 0x6d, 0x53, 0xfc, 0x05],
      [0xc7, 0x17, 0x6a, 0x70, 0x3d, 0x4d, 0xd8, 0x4f, 0xba, 0x3c, 0x0b, 0x76, 0x0d, 0x10, 0x67, 0x0f,
       0x2a, 0x20, 0x53, 0xfa, 0x2c, 0x39, 0xcc, 0xc6, 0x4e, 0xc7, 0xfd, 0x77, 0x92, 0xac, 0x03, 0x7a],
      0xed # replicate 30 0xff @ [0x7f],
      0xee # replicate 30 0xff @ [0x7f]]"

definition key_diff :: "bytes \<Rightarrow> bytes \<Rightarrow> byte" where
  "key_diff pub y = foldl (\<lambda>diff j. diff OR ((pub ! j) XOR (y ! j))) (((pub ! 31) AND 0x7f) XOR (y ! 31)) [0..<31]"

definition SmallOrderKey :: "bytes \<Rightarrow> bool" where
  "SmallOrderKey pub = (length pub = 32 \<and> list_ex (\<lambda>y. key_diff pub y = 0) smallOrderY)"

lemma foldl_or_zero:
  "foldl (\<lambda>diff j. diff OR f j) (a :: byte) js = 0 \<longleftrightarrow> a = 0 \<and> (\<forall>j \<in> set js. f j = 0)"
  by (induction js arbitrary: a) (auto simp: or_eq_0_iff)

lemma xor_zero_iff: "a XOR b = (0 :: byte) \<longleftrightarrow> a = b"
proof
  assume "a XOR b = 0"
  then have "(a XOR b) XOR b = b" by simp
  then show "a = b" by (simp only: xor.assoc xor_self_eq xor.right_neutral)
qed simp

lemma key_diff_zero:
  assumes "length pub = 32" "length y = 32"
  shows "key_diff pub y = 0 \<longleftrightarrow> butlast pub @ [last pub AND 0x7f] = y"
proof -
  have ne: "pub \<noteq> []" "y \<noteq> []" using assms by auto
  have l: "last pub = pub ! 31" "last y = y ! 31"
    using last_conv_nth [OF ne(1)] last_conv_nth [OF ne(2)] assms by simp_all
  have "key_diff pub y = 0 \<longleftrightarrow> (pub ! 31) AND 0x7f = y ! 31 \<and> (\<forall>j < 31. pub ! j = y ! j)"
    by (auto simp: key_diff_def foldl_or_zero xor_zero_iff)
  also have "(\<forall>j < 31. pub ! j = y ! j) \<longleftrightarrow> butlast pub = butlast y"
    using assms by (auto simp: list_eq_iff_nth_eq nth_butlast)
  also have "(pub ! 31) AND 0x7f = y ! 31 \<and> butlast pub = butlast y
      \<longleftrightarrow> butlast pub @ [last pub AND 0x7f] = butlast y @ [last y]"
    using l by auto
  also have "butlast y @ [last y] = y" using assms using ne by simp
  finally show ?thesis .
qed

lemma smallOrderY_length: "y \<in> set smallOrderY \<Longrightarrow> length y = 32"
  by (auto simp: smallOrderY_def)

lemma SmallOrderKey_list:
  "SmallOrderKey pub \<longleftrightarrow> length pub = 32 \<and> butlast pub @ [last pub AND 0x7f] \<in> set smallOrderY"
  using key_diff_zero smallOrderY_length by (auto simp: SmallOrderKey_def list_ex_iff)

text \<open>The number a key encodes (little endian, sign bit cleared), and the field and curve of Ed25519.\<close>

definition le_int :: "bytes \<Rightarrow> int" where
  "le_int bs = foldr (\<lambda>b acc. uint b + 256 * acc) bs 0"

definition key_y :: "bytes \<Rightarrow> int" where
  "key_y pub = le_int (butlast pub @ [last pub AND 0x7f])"

definition ed_p :: int where "ed_p = 2 ^ 255 - 19"

definition small_order_y :: "int \<Rightarrow> bool" where
  "small_order_y y \<longleftrightarrow> y mod ed_p = 1 \<or> y mod ed_p = ed_p - 1 \<or> y mod ed_p = 0
     \<or> ed_p dvd - 121665 * y ^ 4 + 121666 * (2 * y ^ 2 - 1)"

lemma replicate_numeral: "replicate (numeral k) x = x # replicate (pred_numeral k) x"
  by (simp add: numeral_eq_Suc)

lemma smallOrderY_values:
  "map le_int smallOrderY =
     [1, 2 ^ 255 - 20, 0, 2707385501144840649318225287225658788936804267575313519463743609750303402022, 55188659117513257062467267217118295137698188065244968500265048394206261417927, 2 ^ 255 - 19, 2 ^ 255 - 18]"
  by (simp add: smallOrderY_def le_int_def replicate_numeral)

lemma order_8:
  assumes "y * y = r + ed_p * q" and "- 121665 * (r * r) + 121666 * (2 * r - 1) = ed_p * k"
  shows "small_order_y y"
proof -
  have "- 121665 * y ^ 4 + 121666 * (2 * y ^ 2 - 1) = - 121665 * ((y * y) * (y * y)) + 121666 * (2 * (y * y) - 1)"
    by (simp add: power2_eq_square power4_eq_xxxx mult.assoc)
  also have "\<dots> = (- 121665 * (r * r) + 121666 * (2 * r - 1))
      + ed_p * (q * (- 121665 * (2 * r + ed_p * q) + 2 * 121666))"
    unfolding assms(1) by (simp add: algebra_simps)
  also have "\<dots> = ed_p * (k + q * (- 121665 * (2 * r + ed_p * q) + 2 * 121666))"
    unfolding assms(2) by (simp only: distrib_left)
  finally show ?thesis unfolding small_order_y_def by simp
qed

lemma order_8_0: "small_order_y 2707385501144840649318225287225658788936804267575313519463743609750303402022"
proof (rule order_8)
  show "2707385501144840649318225287225658788936804267575313519463743609750303402022 * 2707385501144840649318225287225658788936804267575313519463743609750303402022 = 53699909539325142115343624207863611371097067213659596252119297355370707899025 + ed_p * 126605129937444622316634316459935399931596535544872276249844836469001780991"
    by (simp add: ed_p_def)
  show "- 121665 * (53699909539325142115343624207863611371097067213659596252119297355370707899025 * 53699909539325142115343624207863611371097067213659596252119297355370707899025) + 121666 * (2 * 53699909539325142115343624207863611371097067213659596252119297355370707899025 - 1) = ed_p * (-6059877909249847089373963023617113433157742121177280550940986700979381897286216059)"
    by (simp add: ed_p_def)
qed

lemma order_8_1: "small_order_y 55188659117513257062467267217118295137698188065244968500265048394206261417927"
proof (rule order_8)
  show "55188659117513257062467267217118295137698188065244968500265048394206261417927 * 55188659117513257062467267217118295137698188065244968500265048394206261417927 = 53699909539325142115343624207863611371097067213659596252119297355370707899025 + ed_p * 52607878746305861035465676246352571748692980333214527257051149620924959796896"
    by (simp add: ed_p_def)
  show "- 121665 * (53699909539325142115343624207863611371097067213659596252119297355370707899025 * 53699909539325142115343624207863611371097067213659596252119297355370707899025) + 121666 * (2 * 53699909539325142115343624207863611371097067213659596252119297355370707899025 - 1) = ed_p * (-6059877909249847089373963023617113433157742121177280550940986700979381897286216059)"
    by (simp add: ed_p_def)
qed

lemma small_order_yI:
  "y mod ed_p = 1 \<or> y mod ed_p = ed_p - 1 \<or> y mod ed_p = 0 \<Longrightarrow> small_order_y y"
  by (auto simp: small_order_y_def)

lemma smallOrderY_points:
  "\<forall>y \<in> set smallOrderY. small_order_y (le_int y)"
proof -
  have "small_order_y 1" "small_order_y (2 ^ 255 - 20)" "small_order_y 0" "small_order_y (2 ^ 255 - 19)"
    "small_order_y (2 ^ 255 - 18)"
    by (rule small_order_yI, simp add: ed_p_def)+
  then have "\<forall>n \<in> set (map le_int smallOrderY). small_order_y n"
    unfolding smallOrderY_values using order_8_0 order_8_1 by (simp only: list.set ball_simps simp_thms)
  then show ?thesis by simp
qed

text \<open>A key \<open>SmallOrderKey\<close> refuses, with either sign, does encode the \<open>y\<close> coordinate of a point
  of small order on the curve \<open>-x^2 + y^2 = 1 + d x^2 y^2\<close> with \<open>d = -121665/121666\<close>: the identity (\<open>y = 1\<close>), the point
  of order 2 (\<open>y = -1\<close>), the points of order 4 (\<open>y = 0\<close>), or a point of order 8, whose double has
  \<open>y = 0\<close>, which on this curve means \<open>d y^4 + 2 y^2 - 1 = 0\<close>. And the answer does not depend on the sign bit.\<close>

theorem SmallOrderKey_sound:
  assumes "SmallOrderKey pub"
  shows "small_order_y (key_y pub) \<and> SmallOrderKey (butlast pub @ [last pub XOR 0x80])"
proof -
  let ?y = "butlast pub @ [last pub AND 0x7f]"
  have y: "length pub = 32" "?y \<in> set smallOrderY" using assms by (auto simp: SmallOrderKey_list)
  have "(x XOR 0x80) AND 0x7f = x AND (0x7f :: byte)" for x
  proof -
    have "(0x80 :: byte) AND 0x7f = 0" by simp
    then show ?thesis by (simp only: bit.conj_xor_distrib2 xor.right_neutral)
  qed
  moreover have "small_order_y (key_y pub)" using smallOrderY_points y(2) unfolding key_y_def by blast
  ultimately show ?thesis using y by (simp add: SmallOrderKey_list)
qed

theorem SmallOrderKey_sound_witness: "small_order_y (key_y (replicate 31 0 @ [0x80]))"
proof -
  have "replicate 31 0 @ [0] = (replicate (Suc 31) 0 :: bytes)" by (simp only: replicate_append_same replicate.simps)
  then have "butlast (replicate 31 0 @ [0x80]) @ [last (replicate 31 0 @ [0x80]) AND 0x7f] = (replicate 32 0 :: bytes)"
    by simp
  then have "SmallOrderKey (replicate 31 0 @ [0x80])"
    by (simp only: SmallOrderKey_list smallOrderY_def list.set insert_iff) simp
  from SmallOrderKey_sound [OF this] show ?thesis by blast
qed

end
