(* ===== verification/Kel.thy ===== *)
theory Kel
  imports Aid
begin

text \<open>
  Key event logs (\<open>identity/identity.go\<close>): the events, the state a verifier derives after each one,
  and \<open>replay\<close>, which is the loop \<open>replay_step\<close> run over the log. What the code calls outside the
  repository is a \<open>crypto\<close> record, a parameter of every definition that uses it: SHA-256, the CoreDet
  encoder of an event, the content identifier of the encoded bytes and Ed25519 verification.
\<close>

section \<open>Events and states\<close>

definition KELType :: string where "KELType = ''anet.kel/2''"

definition Inception :: string where "Inception = ''icp''"
definition Rotation :: string where "Rotation = ''rot''"
definition Deactivation :: string where "Deactivation = ''dip''"

definition ToadHub :: u64 where "ToadHub = 0"
definition ToadAgent :: u64 where "ToadAgent = 1"

definition RotationGrace :: u64 where "RotationGrace = 60 * 60 * 1000"
definition EventClockWindow :: u64 where "EventClockWindow = 5 * 60 * 1000"

definition StatusActive :: string where "StatusActive = ''active''"
definition StatusRotated :: string where "StatusRotated = ''rotated''"
definition StatusDeactivated :: string where "StatusDeactivated = ''deactivated''"

text \<open>A \<open>[]byte\<close> or \<open>[]string\<close> field that is absent is the empty list: the checks read lengths only, and
  absent and empty encode alike. \<open>Toad\<close> is a pointer, so absent differs from 0.\<close>

record key_event =
  ke_kel_type :: string
  ke_aid :: string
  ke_seq :: u64
  ke_prev :: string
  ke_type :: string
  ke_keys :: "bytes list"
  ke_next :: bytes
  ke_threshold :: "32 word"
  ke_ts :: u64
  ke_witnesses :: "string list"
  ke_toad :: "u64 option"
  ke_emergency :: bool

record signed_event =
  se_event :: key_event
  se_sig :: bytes
  se_id :: string

record key_state =
  ks_aid :: string
  ks_keys :: "bytes list"
  ks_seq :: u64
  ks_status :: string
  ks_last_id :: string
  ks_toad :: u64
  ks_witness :: string
  ks_superseded_at :: u64
  ks_retired_urgently :: bool

text \<open>The zero value \<open>var prior KeyState\<close>.\<close>

definition zero_state :: key_state where
  "zero_state = \<lparr>ks_aid = [], ks_keys = [], ks_seq = 0, ks_status = [], ks_last_id = [], ks_toad = 0,
     ks_witness = [], ks_superseded_at = 0, ks_retired_urgently = False\<rparr>"

record crypto =
  sha256 :: "bytes \<Rightarrow> bytes"
  enc_event :: "key_event \<Rightarrow> bytes option"
  cid_sum :: "bytes \<Rightarrow> string option"
  ed_verify :: "bytes \<Rightarrow> bytes \<Rightarrow> bytes \<Rightarrow> bool"

datatype kel_err =
    EmptyKEL | ErrKELv1 | AIDMismatch | NonMonotonicSeq | BrokenPrev | AfterDeactivation
  | UnsupportedType | KeyDigestMismatch | EncodeFailed | CidFailed | BadEventID | BadSigLength
  | NotSelfSigned | NotSignedByRevealed
  | BadThreshold | NeedsOneKey | SmallOrder | ZeroTS | TSNotIncreasing
  | FirstNotIcp | IcpSeq | IcpCarriesAidOrPrev | IcpNext | IcpNoToad | BadToad | IcpWitnesses | IcpEmergency
  | RotNext | RotNoToad | RotChangesToad | HubWitnesses | RotNoWitness | RotManyWitnesses | WitnessNotAID
  | WitnessIsSelf
  | DipNext | DipWitnesses | DipToad | DipEmergency

section \<open>The checks of one event\<close>

definition checkShape :: "key_event \<Rightarrow> kel_err + unit" where [guards]:
  "checkShape e =
     (if ke_threshold e \<noteq> 1 then Inl BadThreshold
      else if length (ke_keys e) \<noteq> 1 \<or> length (ke_keys e ! 0) \<noteq> 32 then Inl NeedsOneKey
      else if SmallOrderKey (ke_keys e ! 0) then Inl SmallOrder
      else if ke_ts e = 0 then Inl ZeroTS
      else Inr ())"

definition checkInception :: "key_event \<Rightarrow> kel_err + unit" where [guards]:
  "checkInception e =
     (if ke_type e \<noteq> Inception then Inl FirstNotIcp
      else if ke_seq e \<noteq> 0 then Inl IcpSeq
      else if ke_aid e \<noteq> [] \<or> ke_prev e \<noteq> [] then Inl IcpCarriesAidOrPrev
      else ebind (checkShape e) (\<lambda>_.
        if length (ke_next e) \<noteq> 32 then Inl IcpNext
        else case ke_toad e of
          None \<Rightarrow> Inl IcpNoToad
        | Some t \<Rightarrow>
            if t \<noteq> ToadHub \<and> t \<noteq> ToadAgent then Inl BadToad
            else if length (ke_witnesses e) \<noteq> 0 then Inl IcpWitnesses
            else if ke_emergency e then Inl IcpEmergency
            else Inr ()))"

definition checkRotation :: "key_event \<Rightarrow> key_state \<Rightarrow> kel_err + unit" where [guards]:
  "checkRotation e prior =
     (if length (ke_next e) \<noteq> 32 then Inl RotNext
      else case ke_toad e of
        None \<Rightarrow> Inl RotNoToad
      | Some t \<Rightarrow>
          if t \<noteq> ks_toad prior then Inl RotChangesToad
          else if ks_toad prior = ToadHub then
            (if length (ke_witnesses e) \<noteq> 0 then Inl HubWitnesses else Inr ())
          else if length (ke_witnesses e) = 0 then Inl RotNoWitness
          else if length (ke_witnesses e) > 1 then Inl RotManyWitnesses
          else if \<not> ValidAID (ke_witnesses e ! 0) then Inl WitnessNotAID
          else if ke_witnesses e ! 0 = ks_aid prior then Inl WitnessIsSelf
          else Inr ())"

definition checkDeactivation :: "key_event \<Rightarrow> kel_err + unit" where [guards]:
  "checkDeactivation e =
     (if length (ke_next e) \<noteq> 0 then Inl DipNext
      else if length (ke_witnesses e) \<noteq> 0 then Inl DipWitnesses
      else if ke_toad e \<noteq> None then Inl DipToad
      else if ke_emergency e then Inl DipEmergency
      else Inr ())"

section \<open>Replay\<close>

text \<open>The variables of the loop: its index, \<open>prior\<close>, \<open>committed\<close>, \<open>lastTS\<close> and the states so far.\<close>

record replay_st =
  rs_i :: nat
  rs_prior :: key_state
  rs_committed :: bytes
  rs_last_ts :: u64
  rs_states :: "key_state list"

definition replay_init :: replay_st where
  "replay_init = \<lparr>rs_i = 0, rs_prior = zero_state, rs_committed = [], rs_last_ts = 0, rs_states = []\<rparr>"

definition check_event :: "crypto \<Rightarrow> replay_st \<Rightarrow> key_event \<Rightarrow> kel_err + unit" where [guards]:
  "check_event C s e =
     (if ke_kel_type e \<noteq> KELType then Inl ErrKELv1
      else if rs_i s = 0 then checkInception e
      else if ke_aid e \<noteq> ks_aid (rs_prior s) then Inl AIDMismatch
      else if ke_seq e \<noteq> ks_seq (rs_prior s) + 1 then Inl NonMonotonicSeq
      else if ke_prev e \<noteq> ks_last_id (rs_prior s) then Inl BrokenPrev
      else if ks_status (rs_prior s) = StatusDeactivated then Inl AfterDeactivation
      else if ke_type e \<noteq> Rotation \<and> ke_type e \<noteq> Deactivation then Inl UnsupportedType
      else ebind (checkShape e) (\<lambda>_.
        if ke_ts e \<le> rs_last_ts s then Inl TSNotIncreasing
        else ebind (if ke_type e = Rotation then checkRotation e (rs_prior s) else checkDeactivation e) (\<lambda>_.
          if sha256 C (ke_keys e ! 0) \<noteq> rs_committed s then Inl KeyDigestMismatch
          else Inr ())))"

definition check_signature :: "crypto \<Rightarrow> signed_event \<Rightarrow> kel_err + string" where [guards]:
  "check_signature C se =
     (let e = se_event se in
      case enc_event C e of
        None \<Rightarrow> Inl EncodeFailed
      | Some pre \<Rightarrow>
          (case cid_sum C pre of
             None \<Rightarrow> Inl CidFailed
           | Some eid \<Rightarrow>
               if se_id se \<noteq> eid then Inl BadEventID
               else if length (se_sig se) \<noteq> 64 then Inl BadSigLength
               else if \<not> ed_verify C (ke_keys e ! 0) pre (se_sig se) then
                 (if ke_type e = Inception then Inl NotSelfSigned else Inl NotSignedByRevealed)
               else Inr eid))"

definition next_state :: "key_state \<Rightarrow> key_event \<Rightarrow> string \<Rightarrow> key_state" where
  "next_state prior e eid =
     (if ke_type e = Inception then
        zero_state \<lparr>ks_aid := eid, ks_keys := ke_keys e, ks_seq := 0, ks_status := StatusActive,
          ks_last_id := eid, ks_toad := the (ke_toad e)\<rparr>
      else if ke_type e = Rotation then
        zero_state \<lparr>ks_aid := ks_aid prior, ks_keys := ke_keys e, ks_seq := ke_seq e,
          ks_status := StatusActive, ks_last_id := eid, ks_toad := ks_toad prior,
          ks_witness := (if length (ke_witnesses e) = 1 then ke_witnesses e ! 0 else [])\<rparr>
      else if ke_type e = Deactivation then
        zero_state \<lparr>ks_aid := ks_aid prior, ks_seq := ke_seq e, ks_status := StatusDeactivated,
          ks_last_id := eid, ks_toad := ks_toad prior, ks_witness := ks_witness prior\<rparr>
      else zero_state)"

definition next_committed :: "bytes \<Rightarrow> key_event \<Rightarrow> bytes" where
  "next_committed committed e =
     (if ke_type e = Inception \<or> ke_type e = Rotation then ke_next e
      else if ke_type e = Deactivation then []
      else committed)"

definition replay_step :: "crypto \<Rightarrow> replay_st \<Rightarrow> signed_event \<Rightarrow> kel_err + replay_st" where
  "replay_step C s se =
     (let e = se_event se in
      ebind (check_event C s e) (\<lambda>_.
      ebind (check_signature C se) (\<lambda>eid.
        let next = next_state (rs_prior s) e eid in
        Inr \<lparr>rs_i = rs_i s + 1, rs_prior = next, rs_committed = next_committed (rs_committed s) e,
             rs_last_ts = ke_ts e, rs_states = rs_states s @ [next]\<rparr>)))"

definition supersede :: "key_event \<Rightarrow> key_state \<Rightarrow> key_state" where
  "supersede e s =
     s \<lparr>ks_status := (if ks_status s = StatusActive then StatusRotated else ks_status s),
        ks_superseded_at := ke_ts e,
        ks_retired_urgently := (ke_type e = Deactivation \<or> ke_emergency e)\<rparr>"

text \<open>\<open>markSuperseded kel states\<close> takes the two slices from the same index on.\<close>

fun markSuperseded :: "signed_event list \<Rightarrow> key_state list \<Rightarrow> key_state list" where
  "markSuperseded (_ # k # kel) (s # t # states) =
     supersede (se_event k) s # markSuperseded (k # kel) (t # states)"
| "markSuperseded kel states = states"

definition replay :: "crypto \<Rightarrow> signed_event list \<Rightarrow> kel_err + key_state list" where
  "replay C kel =
     (if length kel = 0 then Inl EmptyKEL
      else ebind (run (replay_step C) replay_init kel) (\<lambda>s. Inr (markSuperseded kel (rs_states s))))"

fun committed_from_end :: "signed_event list \<Rightarrow> bytes" where
  "committed_from_end [] = []"
| "committed_from_end (se # rest) =
     (if ke_type (se_event se) = Inception \<or> ke_type (se_event se) = Rotation
      then ke_next (se_event se) else committed_from_end rest)"

definition committedNextDigest :: "signed_event list \<Rightarrow> bytes" where
  "committedNextDigest kel = committed_from_end (rev kel)"

section \<open>Judging objects\<close>

datatype verr = UNKNOWN_AID | KEY_STATE_DOWNGRADE | REVOKED_KEY | INVALID_SIGNATURE

definition VerifyObject ::
  "crypto \<Rightarrow> signed_event list \<Rightarrow> string \<Rightarrow> u64 \<Rightarrow> u64 \<Rightarrow> bytes \<Rightarrow> bytes \<Rightarrow> verr + unit" where
  "VerifyObject C kel signerAID keyStateSeq msgTime objPreimage sig =
     (case replay C kel of
        Inl _ \<Rightarrow> Inl UNKNOWN_AID
      | Inr states \<Rightarrow>
          if ks_aid (last states) \<noteq> signerAID then Inl UNKNOWN_AID
          else if unat keyStateSeq \<ge> length states then Inl KEY_STATE_DOWNGRADE
          else let ks = states ! unat keyStateSeq in
            if ks_status ks = StatusDeactivated then Inl REVOKED_KEY
            else if length (ks_keys ks) \<noteq> 1 \<or> length (ks_keys ks ! 0) \<noteq> 32 then Inl UNKNOWN_AID
            else if \<not> ed_verify C (ks_keys ks ! 0) objPreimage sig then Inl INVALID_SIGNATURE
            else if ks_status ks = StatusActive then Inr ()
            else if msgTime = 0 then Inl REVOKED_KEY
            else if msgTime \<ge> ks_superseded_at ks then Inl REVOKED_KEY
            else Inr ())"

definition RetiredUsableAt :: "key_state \<Rightarrow> u64 \<Rightarrow> bool" where
  "RetiredUsableAt ks arrival =
     (if ks_status ks = StatusActive then True
      else if ks_status ks = StatusRotated then
        (let grace = (if ks_retired_urgently ks then 0 else RotationGrace) in
         arrival \<le> ks_superseded_at ks \<or> arrival - ks_superseded_at ks \<le> grace)
      else False)"

definition SenderKeyUsable :: "key_state \<Rightarrow> u64 \<Rightarrow> bool" where
  "SenderKeyUsable ks arrival = (if ks_retired_urgently ks then False else RetiredUsableAt ks arrival)"

end
