(* ===== verification/Kel_Valid.thy ===== *)
theory Kel_Valid
  imports Kel
begin

text \<open>
  What \<open>replay\<close> decides, stated without the loop: \<open>kel_valid\<close> gives the rules R-0 to R-6 for each
  event in terms of the one before it and of the inception, and \<open>state_of\<close> the key state at each
  sequence number. \<open>replay_iff\<close> shows that the loop computes exactly this; the other lemmas of this
  theory are consequences the components above use.
\<close>

section \<open>The rules of a valid KEL\<close>

definition shape_ok :: "key_event \<Rightarrow> bool" where
  "shape_ok e \<longleftrightarrow> ke_threshold e = 1 \<and> length (ke_keys e) = 1 \<and> length (ke_keys e ! 0) = 32
     \<and> \<not> SmallOrderKey (ke_keys e ! 0) \<and> ke_ts e \<noteq> 0"

definition icp_ok :: "key_event \<Rightarrow> bool" where
  "icp_ok e \<longleftrightarrow> ke_type e = Inception \<and> ke_seq e = 0 \<and> ke_aid e = [] \<and> ke_prev e = []
     \<and> length (ke_next e) = 32 \<and> (ke_toad e = Some ToadHub \<or> ke_toad e = Some ToadAgent)
     \<and> ke_witnesses e = [] \<and> \<not> ke_emergency e"

definition rot_ok :: "u64 \<Rightarrow> string \<Rightarrow> key_event \<Rightarrow> bool" where
  "rot_ok toad aid e \<longleftrightarrow> length (ke_next e) = 32 \<and> ke_toad e = Some toad
     \<and> (if toad = ToadHub then ke_witnesses e = []
        else \<exists>w. ke_witnesses e = [w] \<and> ValidAID w \<and> w \<noteq> aid)"

definition dip_ok :: "key_event \<Rightarrow> bool" where
  "dip_ok e \<longleftrightarrow> ke_next e = [] \<and> ke_witnesses e = [] \<and> ke_toad e = None \<and> \<not> ke_emergency e"

definition signed_ok :: "crypto \<Rightarrow> signed_event \<Rightarrow> bool" where
  "signed_ok C se \<longleftrightarrow> (\<exists>pre. enc_event C (se_event se) = Some pre \<and> cid_sum C pre = Some (se_id se)
     \<and> length (se_sig se) = 64 \<and> ed_verify C (ke_keys (se_event se) ! 0) pre (se_sig se))"

abbreviation evt :: "signed_event list \<Rightarrow> nat \<Rightarrow> key_event" where
  "evt kel i \<equiv> se_event (kel ! i)"

definition kel_aid :: "signed_event list \<Rightarrow> string" where
  "kel_aid kel = se_id (kel ! 0)"

definition kel_toad :: "signed_event list \<Rightarrow> u64" where
  "kel_toad kel = the (ke_toad (evt kel 0))"

definition linked :: "crypto \<Rightarrow> signed_event list \<Rightarrow> nat \<Rightarrow> bool" where
  "linked C kel i \<longleftrightarrow> ke_aid (evt kel i) = kel_aid kel \<and> ke_seq (evt kel i) = of_nat i
     \<and> ke_prev (evt kel i) = se_id (kel ! (i - 1)) \<and> ke_type (evt kel (i - 1)) \<noteq> Deactivation
     \<and> ke_ts (evt kel (i - 1)) < ke_ts (evt kel i)
     \<and> sha256 C (ke_keys (evt kel i) ! 0) = ke_next (evt kel (i - 1))
     \<and> (ke_type (evt kel i) = Rotation \<and> rot_ok (kel_toad kel) (kel_aid kel) (evt kel i)
        \<or> ke_type (evt kel i) = Deactivation \<and> dip_ok (evt kel i))"

definition event_ok :: "crypto \<Rightarrow> signed_event list \<Rightarrow> nat \<Rightarrow> bool" where
  "event_ok C kel i \<longleftrightarrow> ke_kel_type (evt kel i) = KELType \<and> shape_ok (evt kel i) \<and> signed_ok C (kel ! i)
     \<and> (if i = 0 then icp_ok (evt kel i) else linked C kel i)"

definition kel_valid :: "crypto \<Rightarrow> signed_event list \<Rightarrow> bool" where
  "kel_valid C kel \<longleftrightarrow> kel \<noteq> [] \<and> (\<forall>i < length kel. event_ok C kel i)"

section \<open>The state at each sequence number\<close>

definition is_dip :: "signed_event list \<Rightarrow> nat \<Rightarrow> bool" where
  "is_dip kel i \<longleftrightarrow> ke_type (evt kel i) = Deactivation"

definition named_witness :: "key_event \<Rightarrow> string" where
  "named_witness e = (case ke_witnesses e of [w] \<Rightarrow> w | _ \<Rightarrow> [])"

definition own_state :: "signed_event list \<Rightarrow> nat \<Rightarrow> key_state" where
  "own_state kel i = \<lparr>ks_aid = kel_aid kel, ks_keys = (if is_dip kel i then [] else ke_keys (evt kel i)),
     ks_seq = of_nat i, ks_status = (if is_dip kel i then StatusDeactivated else StatusActive),
     ks_last_id = se_id (kel ! i), ks_toad = kel_toad kel,
     ks_witness = named_witness (evt kel (if is_dip kel i then i - 1 else i)),
     ks_superseded_at = 0, ks_retired_urgently = False\<rparr>"

definition state_of :: "signed_event list \<Rightarrow> nat \<Rightarrow> key_state" where
  "state_of kel i =
     (if Suc i < length kel then
        (own_state kel i)
          \<lparr>ks_status := (if is_dip kel i then StatusDeactivated else StatusRotated),
           ks_superseded_at := ke_ts (evt kel (Suc i)),
           ks_retired_urgently := (is_dip kel (Suc i) \<or> ke_emergency (evt kel (Suc i)))\<rparr>
      else own_state kel i)"

lemma status_distinct [simp]:
  "StatusActive \<noteq> StatusRotated" "StatusActive \<noteq> StatusDeactivated" "StatusRotated \<noteq> StatusDeactivated"
  "StatusRotated \<noteq> StatusActive" "StatusDeactivated \<noteq> StatusActive" "StatusDeactivated \<noteq> StatusRotated"
  by (simp_all add: StatusActive_def StatusRotated_def StatusDeactivated_def)

lemma state_of_supersede:
  "state_of kel i = (if Suc i < length kel then supersede (evt kel (Suc i)) (own_state kel i) else own_state kel i)"
  by (simp add: state_of_def supersede_def is_dip_def own_state_def)

section \<open>Replay decides validity\<close>

lemma type_distinct [simp]:
  "Inception \<noteq> Rotation" "Inception \<noteq> Deactivation" "Rotation \<noteq> Deactivation"
  "Rotation \<noteq> Inception" "Deactivation \<noteq> Inception" "Deactivation \<noteq> Rotation"
  by (simp_all add: Inception_def Rotation_def Deactivation_def)

lemma toad_distinct [simp]: "ToadHub \<noteq> ToadAgent" "ToadAgent \<noteq> ToadHub"
  by (simp_all add: ToadHub_def ToadAgent_def)

lemma checkShape_ok [simp]: "checkShape e = Inr u \<longleftrightarrow> shape_ok e"
  by (auto simp: checkShape_def shape_ok_def)

lemma checkInception_ok: "checkInception e = Inr u \<longleftrightarrow> icp_ok e \<and> shape_ok e"
  by (auto simp: checkInception_def icp_ok_def ebind_Inr_iff split: option.splits if_splits)

lemma length_1_iff: "length xs = Suc 0 \<longleftrightarrow> (\<exists>x. xs = [x])"
  by (auto simp: length_Suc_conv)

lemma checkRotation_ok:
  "checkRotation e prior = Inr u \<longleftrightarrow> rot_ok (ks_toad prior) (ks_aid prior) e"
proof (cases "ke_witnesses e")
  case (Cons w ws)
  then show ?thesis
    by (cases ws) (auto simp: checkRotation_def rot_ok_def split: option.splits if_splits)
qed (auto simp: checkRotation_def rot_ok_def split: option.splits if_splits)

lemma checkDeactivation_ok: "checkDeactivation e = Inr u \<longleftrightarrow> dip_ok e"
  by (auto simp: checkDeactivation_def dip_ok_def)

lemma check_signature_ok:
  "check_signature C se = Inr eid \<longleftrightarrow> signed_ok C se \<and> eid = se_id se"
  by (auto simp: check_signature_def signed_ok_def Let_def split: option.splits)

definition loop_state :: "signed_event list \<Rightarrow> replay_st" where
  "loop_state kel =
     (if kel = [] then replay_init
      else \<lparr>rs_i = length kel, rs_prior = own_state kel (length kel - 1),
        rs_committed = ke_next (evt kel (length kel - 1)), rs_last_ts = ke_ts (evt kel (length kel - 1)),
        rs_states = map (own_state kel) [0..<length kel]\<rparr>)"

lemma own_state_append:
  "i < length kel \<Longrightarrow> own_state (kel @ r) i = own_state kel i"
  by (auto simp: own_state_def nth_append kel_aid_def kel_toad_def is_dip_def)

lemma event_ok_append:
  "i < length kel \<Longrightarrow> event_ok C (kel @ r) i \<longleftrightarrow> event_ok C kel i"
  by (auto simp: event_ok_def linked_def nth_append kel_aid_def kel_toad_def)

lemma map_own_state_snoc:
  "map (own_state (kel @ [se])) [0..<length (kel @ [se])]
     = map (own_state kel) [0..<length kel] @ [own_state (kel @ [se]) (length kel)]"
  by (simp add: own_state_append)

lemma first_step:
  "replay_step C replay_init se = Inr s \<longleftrightarrow> event_ok C [se] 0 \<and> s = loop_state [se]"
proof -
  have "own_state [se] 0 = next_state zero_state (se_event se) (se_id se)" if "icp_ok (se_event se)"
    using that by (auto simp: own_state_def next_state_def zero_state_def icp_ok_def kel_aid_def kel_toad_def
        is_dip_def named_witness_def)
  moreover have "next_committed [] (se_event se) = ke_next (se_event se)" if "icp_ok (se_event se)"
    using that by (simp add: next_committed_def icp_ok_def)
  ultimately show ?thesis
    by (auto simp: replay_step_def Let_def ebind_Inr_iff check_event_def replay_init_def checkInception_ok
        check_signature_ok event_ok_def loop_state_def)
qed

lemma check_event_later:
  assumes "rs_i s \<noteq> 0"
  shows "check_event C s e = Inr u \<longleftrightarrow>
    ke_kel_type e = KELType \<and> ke_aid e = ks_aid (rs_prior s) \<and> ke_seq e = ks_seq (rs_prior s) + 1
    \<and> ke_prev e = ks_last_id (rs_prior s) \<and> ks_status (rs_prior s) \<noteq> StatusDeactivated \<and> shape_ok e
    \<and> rs_last_ts s < ke_ts e \<and> sha256 C (ke_keys e ! 0) = rs_committed s
    \<and> (ke_type e = Rotation \<and> rot_ok (ks_toad (rs_prior s)) (ks_aid (rs_prior s)) e
       \<or> ke_type e = Deactivation \<and> dip_ok e)"
  unfolding check_event_def if_not_P [OF assms] chain_iff linorder_not_le checkShape_ok
  by (cases "ke_type e = Rotation"; cases "ke_type e = Deactivation")
    (simp_all add: checkRotation_ok checkDeactivation_ok, auto simp: not_le)

lemma later_step:
  assumes "kel \<noteq> []" and "\<forall>i < length kel. event_ok C kel i"
  shows "replay_step C (loop_state kel) se = Inr s
    \<longleftrightarrow> event_ok C (kel @ [se]) (length kel) \<and> s = loop_state (kel @ [se])"
proof -
  let ?n = "length kel" let ?e = "se_event se" let ?p = "evt kel (?n - 1)" let ?s = "loop_state kel"
  have n: "?n > 0" using assms(1) by simp
  have last: "event_ok C kel (?n - 1)" using assms n by simp
  have seq: "of_nat (?n - 1) + 1 = (of_nat ?n :: u64)" using n by (cases ?n) simp_all
  have e: "evt (kel @ [se]) ?n = ?e" "(kel @ [se]) ! ?n = se" "(kel @ [se]) ! (?n - 1) = kel ! (?n - 1)"
    "(kel @ [se]) ! 0 = kel ! 0"
    using n by (simp_all add: nth_append)
  have "check_event C ?s ?e = Inr () \<and> signed_ok C se \<longleftrightarrow> event_ok C (kel @ [se]) ?n"
  proof -
    have i: "rs_i ?s \<noteq> 0" "?n \<noteq> 0" using assms(1) by (simp_all add: loop_state_def)
    have st: "ks_status (own_state kel (?n - 1)) = StatusDeactivated \<longleftrightarrow> ke_type ?p = Deactivation"
      by (simp add: own_state_def is_dip_def)
    have fields: "rs_prior ?s = own_state kel (?n - 1)" "rs_committed ?s = ke_next ?p" "rs_last_ts ?s = ke_ts ?p"
      "ks_aid (own_state kel (?n - 1)) = kel_aid kel" "ks_seq (own_state kel (?n - 1)) + 1 = of_nat ?n"
      "ks_last_id (own_state kel (?n - 1)) = se_id (kel ! (?n - 1))" "ks_toad (own_state kel (?n - 1)) = kel_toad kel"
      using assms(1) seq by (simp_all add: loop_state_def own_state_def)
    have k: "kel_aid (kel @ [se]) = kel_aid kel" "kel_toad (kel @ [se]) = kel_toad kel"
      by (simp_all add: kel_aid_def kel_toad_def e)
    show ?thesis
      unfolding check_event_later [OF i(1)] fields st event_ok_def linked_def e k if_not_P [OF i(2)] by blast
  qed
  moreover have "\<lparr>rs_i = rs_i ?s + 1, rs_prior = next_state (rs_prior ?s) ?e (se_id se),
      rs_committed = next_committed (rs_committed ?s) ?e, rs_last_ts = ke_ts ?e,
      rs_states = rs_states ?s @ [next_state (rs_prior ?s) ?e (se_id se)]\<rparr> = loop_state (kel @ [se])"
    if ok: "event_ok C (kel @ [se]) ?n"
  proof -
    have l: "linked C (kel @ [se]) ?n" using ok n by (simp add: event_ok_def)
    have nd: "\<not> is_dip kel (?n - 1)" using l unfolding linked_def e is_dip_def by blast
    have own: "own_state (kel @ [se]) ?n = next_state (own_state kel (?n - 1)) ?e (se_id se)"
      using l nd by (auto simp: own_state_def next_state_def zero_state_def linked_def e kel_aid_def kel_toad_def
          is_dip_def named_witness_def rot_ok_def simp del: One_nat_def split: list.splits if_splits)
    have com: "next_committed (ke_next ?p) ?e = ke_next ?e"
      using l by (auto simp: linked_def e next_committed_def dip_ok_def simp del: One_nat_def)
    show ?thesis
      using assms(1) own com by (simp add: loop_state_def e map_own_state_snoc del: map_append upt_Suc length_append)
        (simp add: own_state_append)
  qed
  ultimately show ?thesis
    by (auto simp: replay_step_def Let_def ebind_Inr_iff check_signature_ok)
qed

lemma run_replay:
  "run (replay_step C) replay_init kel = Inr s \<longleftrightarrow> (\<forall>i < length kel. event_ok C kel i) \<and> s = loop_state kel"
proof (induction kel arbitrary: s rule: rev_induct)
  case Nil
  then show ?case by (auto simp: loop_state_def)
next
  case (snoc se kel)
  have all: "(\<forall>i < length (kel @ [se]). event_ok C (kel @ [se]) i)
      \<longleftrightarrow> (\<forall>i < length kel. event_ok C kel i) \<and> event_ok C (kel @ [se]) (length kel)"
    by (auto simp: event_ok_append less_Suc_eq)
  have step: "run (replay_step C) replay_init (kel @ [se]) = Inr s \<longleftrightarrow>
      (\<exists>t. run (replay_step C) replay_init kel = Inr t \<and> replay_step C t se = Inr s)"
    by (auto simp: run_append split: sum.splits)
  show ?case
  proof (cases "kel = []")
    case True
    then show ?thesis unfolding step all using first_step [of C se s] by simp
  next
    case False
    then show ?thesis unfolding step all snoc.IH using later_step [OF False, of C se s] by blast
  qed
qed

lemma markSuperseded_nth:
  "length kel = length states \<Longrightarrow> markSuperseded kel states =
     map (\<lambda>i. if Suc i < length kel then supersede (evt kel (Suc i)) (states ! i) else states ! i) [0..<length kel]"
proof (induction kel states rule: markSuperseded.induct)
  case (1 k0 k kel s t states)
  then show ?case by (simp add: upt_conv_Cons map_Suc_upt [symmetric] comp_def del: upt_Suc)
qed (auto simp: map_nth)

lemma replay_iff:
  "replay C kel = Inr states \<longleftrightarrow> kel_valid C kel \<and> states = map (state_of kel) [0..<length kel]"
proof (cases "kel = []")
  case True
  then show ?thesis by (simp add: replay_def kel_valid_def)
next
  case False
  have "markSuperseded kel (map (own_state kel) [0..<length kel]) = map (state_of kel) [0..<length kel]"
    by (subst markSuperseded_nth) (auto simp: state_of_supersede)
  then show ?thesis
    using False by (auto simp: replay_def ebind_Inr_iff run_replay kel_valid_def loop_state_def)
qed

lemma replay_Inl_iff: "(\<exists>e. replay C kel = Inl e) \<longleftrightarrow> \<not> kel_valid C kel"
proof (cases "replay C kel")
  case (Inl e)
  then show ?thesis using replay_iff [of C kel "map (state_of kel) [0..<length kel]"] by auto
next
  case (Inr s)
  moreover have "kel_valid C kel" using Inr by (simp add: replay_iff)
  ultimately show ?thesis by simp
qed

lemma valid_event: "kel_valid C kel \<Longrightarrow> i < length kel \<Longrightarrow> event_ok C kel i"
  by (simp add: kel_valid_def)

lemma valid_encodes:
  assumes "kel_valid C kel" and "se \<in> set kel"
  shows "\<exists>pre. enc_event C (se_event se) = Some pre"
proof -
  obtain i where "i < length kel" "kel ! i = se" using assms(2) by (auto simp: in_set_conv_nth)
  then show ?thesis using valid_event [OF assms(1)] by (auto simp: event_ok_def signed_ok_def)
qed

end
