(* ===== verification/Kel_Props.thy ===== *)
theory Kel_Props
  imports Kel_Valid
begin

text \<open>
  The properties of \<open>identity/identity.go\<close>: what \<open>Replay\<close> accepts, pre-rotation, one history per head,
  and how \<open>VerifyObject\<close> and \<open>RetiredUsableAt\<close> judge an object under a log that grows. The witnesses
  use \<open>demo_crypto\<close>, a toy primitive set, and the hub log \<open>demo_kel\<close> made under it.
\<close>

section \<open>A log to evaluate\<close>

definition demo_cid :: "bytes \<Rightarrow> string" where
  "demo_cid b = CHR ''b'' # b32_encode (aidPrefix @ take 32 (b @ replicate 32 0))"

definition demo_crypto :: crypto where
  "demo_crypto = \<lparr>sha256 = (\<lambda>b. b), enc_event = (\<lambda>e. Some (be_bytes 8 (ke_seq e) @ be_bytes 8 (ke_ts e))),
     cid_sum = (\<lambda>b. Some (demo_cid b)), ed_verify = (\<lambda>pub msg sig. sig = pub @ pub)\<rparr>"

definition demo_sign :: "key_event \<Rightarrow> signed_event" where
  "demo_sign e = \<lparr>se_event = e, se_sig = (ke_keys e ! 0) @ (ke_keys e ! 0),
     se_id = demo_cid (be_bytes 8 (ke_seq e) @ be_bytes 8 (ke_ts e))\<rparr>"

definition demo_key :: "byte \<Rightarrow> bytes" where
  "demo_key b = replicate 32 b"

definition demo_icp :: signed_event where
  "demo_icp = demo_sign \<lparr>ke_kel_type = KELType, ke_aid = [], ke_seq = 0, ke_prev = [], ke_type = Inception,
     ke_keys = [demo_key 9], ke_next = demo_key 10, ke_threshold = 1, ke_ts = 10, ke_witnesses = [],
     ke_toad = Some ToadHub, ke_emergency = False\<rparr>"

definition demo_rot :: signed_event where
  "demo_rot = demo_sign \<lparr>ke_kel_type = KELType, ke_aid = se_id demo_icp, ke_seq = 1, ke_prev = se_id demo_icp,
     ke_type = Rotation, ke_keys = [demo_key 10], ke_next = demo_key 11, ke_threshold = 1, ke_ts = 20,
     ke_witnesses = [], ke_toad = Some ToadHub, ke_emergency = False\<rparr>"

definition demo_dip :: signed_event where
  "demo_dip = demo_sign \<lparr>ke_kel_type = KELType, ke_aid = se_id demo_icp, ke_seq = 2, ke_prev = se_id demo_rot,
     ke_type = Deactivation, ke_keys = [demo_key 11], ke_next = [], ke_threshold = 1, ke_ts = 30,
     ke_witnesses = [], ke_toad = None, ke_emergency = False\<rparr>"

definition demo_kel :: "signed_event list" where
  "demo_kel = [demo_icp, demo_rot, demo_dip]"

lemma demo_sign_simps [simp]:
  "se_event (demo_sign e) = e"
  "se_sig (demo_sign e) = (ke_keys e ! 0) @ (ke_keys e ! 0)"
  by (simp_all add: demo_sign_def)

lemma demo_signed_ok: "length (ke_keys e ! 0) = 32 \<Longrightarrow> signed_ok demo_crypto (demo_sign e)"
  by (simp add: signed_ok_def demo_crypto_def demo_sign_def)

lemma length_demo_key [simp]: "length (demo_key b) = 32"
  by (simp add: demo_key_def)

lemma demo_key_order:
  assumes "b \<in> {9, 10, 11}"
  shows "\<not> SmallOrderKey (demo_key b)"
proof -
  have "hd (butlast (demo_key b) @ [last (demo_key b) AND 0x7f]) = b"
    by (simp add: demo_key_def numeral_eq_Suc)
  moreover have "hd y \<in> {0x01, 0xec, 0x00, 0x26, 0xc7, 0xed, 0xee}" if "y \<in> set smallOrderY" for y
    using that by (auto simp: smallOrderY_def)
  moreover have "b \<notin> {0x01, 0xec, 0x00, 0x26, 0xc7, 0xed, 0xee}" using assms by auto
  ultimately show ?thesis by (metis SmallOrderKey_list)
qed

lemmas demo_defs = demo_icp_def demo_rot_def demo_dip_def

lemma demo_valid: "kel_valid demo_crypto demo_kel"
proof -
  have s: "sha256 demo_crypto b = b" for b by (simp add: demo_crypto_def)
  have "event_ok demo_crypto demo_kel 0"
    by (simp add: event_ok_def demo_kel_def demo_icp_def demo_signed_ok shape_ok_def icp_ok_def demo_key_order)
  moreover have "event_ok demo_crypto demo_kel 1"
    by (simp add: event_ok_def linked_def kel_aid_def kel_toad_def demo_kel_def shape_ok_def rot_ok_def demo_key_order
        demo_rot_def demo_signed_ok s) (simp add: demo_icp_def)
  moreover have "event_ok demo_crypto demo_kel 2"
    by (simp add: event_ok_def linked_def kel_aid_def kel_toad_def demo_kel_def shape_ok_def dip_ok_def demo_key_order
        demo_dip_def demo_signed_ok s) (simp add: demo_rot_def)
  ultimately have "\<forall>i \<in> {0, 1, 2}. event_ok demo_crypto demo_kel i" by blast
  moreover have "{..<length demo_kel} = {0, 1, 2}" by (auto simp: demo_kel_def)
  ultimately show ?thesis unfolding kel_valid_def by (auto simp: demo_kel_def simp flip: lessThan_iff)
qed

lemma kel_valid_append:
  "kel_valid C (kel @ r) \<Longrightarrow> kel \<noteq> [] \<Longrightarrow> kel_valid C kel"
  by (auto simp: kel_valid_def) (metis event_ok_append trans_less_add1)

lemma replay_demo_prefix: "\<exists>t. replay demo_crypto [demo_icp, demo_rot] = Inr t"
  using kel_valid_append [of demo_crypto "[demo_icp, demo_rot]" "[demo_dip]"] demo_valid
  by (simp add: replay_iff demo_kel_def)

section \<open>Replay\<close>

text \<open>C1: \<open>Replay\<close> accepts a log exactly when it is not empty and each of its events obeys the rules R-0
  to R-6 relative to the event before it, and then returns for each sequence number the state those
  rules define: its own key (none for the \<open>dip\<close>), and the time and urgency of the event that replaced it.\<close>

theorem replay_spec:
  "replay C kel = Inr states \<longleftrightarrow> kel_valid C kel \<and> states = map (state_of kel) [0..<length kel]"
  by (rule replay_iff)

text \<open>Every non-empty prefix of a log that replays also replays, to the same states but for the
  last one, which is not yet replaced.\<close>

theorem replay_prefix:
  assumes "replay C (kel @ new) = Inr states" and "kel \<noteq> []"
  shows "\<exists>old. replay C kel = Inr old \<and> butlast old = butlast (take (length kel) states)"
proof -
  have s: "states = map (state_of (kel @ new)) [0..<length (kel @ new)]" and v: "kel_valid C kel"
    using assms kel_valid_append by (auto simp: replay_iff)
  have "state_of (kel @ new) i = state_of kel i" if "Suc i < length kel" for i
    using that by (simp add: state_of_supersede own_state_append nth_append)
  then have "butlast (map (state_of kel) [0..<length kel]) = butlast (take (length kel) states)"
    unfolding s by (intro nth_equalityI) (auto simp: nth_butlast)
  then show ?thesis using v by (auto simp: replay_iff)
qed

theorem replay_prefix_witness: "\<exists>old. replay demo_crypto [demo_icp, demo_rot] = Inr old"
proof -
  have "replay demo_crypto ([demo_icp, demo_rot] @ [demo_dip]) = Inr (map (state_of demo_kel) [0..<length demo_kel])"
    using demo_valid by (simp add: replay_iff demo_kel_def)
  from replay_prefix [OF this] show ?thesis by auto
qed

text \<open>C2: pre-rotation. Two logs that agree on an event both reveal, at the next sequence number, the
  one key that event committed, and both next events are signed by it, unless the two keys collide
  under SHA-256. So the key being replaced never suffices for a rotation or a deactivation.\<close>

theorem pre_rotation:
  assumes "replay C a = Inr sa" and "replay C b = Inr sb"
    and "Suc i < length a" and "Suc i < length b" and "evt a i = evt b i"
    and "inj_on (sha256 C) {ke_keys (evt a (Suc i)) ! 0, ke_keys (evt b (Suc i)) ! 0}"
  shows "\<exists>k. ke_keys (evt a (Suc i)) = [k] \<and> ke_keys (evt b (Suc i)) = [k] \<and> sha256 C k = ke_next (evt a i)
    \<and> (\<forall>se \<in> {a ! Suc i, b ! Suc i}. \<exists>pre. enc_event C (se_event se) = Some pre \<and> ed_verify C k pre (se_sig se))"
proof -
  have ok: "event_ok C a (Suc i)" "event_ok C b (Suc i)"
    using assms(1-4) by (auto simp: replay_iff kel_valid_def)
  obtain k l where kl: "ke_keys (evt a (Suc i)) = [k]" "ke_keys (evt b (Suc i)) = [l]"
    using ok by (auto simp: event_ok_def shape_ok_def length_1_iff)
  have d: "sha256 C k = ke_next (evt a i)" "sha256 C l = ke_next (evt b i)"
    using ok kl by (auto simp: event_ok_def linked_def)
  then have "sha256 C k = sha256 C l" by (simp only: assms(5))
  then have "k = l" by (rule inj_onD [OF assms(6)]) (simp_all add: kl)
  moreover have "signed_ok C (a ! Suc i)" "signed_ok C (b ! Suc i)" using ok by (simp_all add: event_ok_def)
  ultimately show ?thesis using kl d(1) by (auto simp: signed_ok_def)
qed

theorem pre_rotation_witness:
  "\<exists>k. ke_keys (evt demo_kel 1) = [k] \<and> sha256 demo_crypto k = ke_next (evt demo_kel 0)"
proof -
  have r: "replay demo_crypto demo_kel = Inr (map (state_of demo_kel) [0..<length demo_kel])"
    using demo_valid by (simp add: replay_iff)
  have "Suc 0 < length demo_kel" by (simp add: demo_kel_def)
  from pre_rotation [OF r r this this refl] show ?thesis by auto
qed

section \<open>One history per head\<close>

definition event_id :: "crypto \<Rightarrow> key_event \<Rightarrow> string option" where
  "event_id C e = Option.bind (enc_event C e) (cid_sum C)"

lemma signed_event_id: "signed_ok C se \<Longrightarrow> event_id C (se_event se) = Some (se_id se)"
  by (auto simp: signed_ok_def event_id_def)

lemma valid_first: "kel_valid C kel \<Longrightarrow> i < length kel \<Longrightarrow> ke_type (evt kel i) = Inception \<longleftrightarrow> i = 0"
  by (cases "i = 0") (auto simp: kel_valid_def event_ok_def icp_ok_def linked_def)

lemma history_back:
  assumes "kel_valid C a" and "kel_valid C b"
    and "inj_on (event_id C) (se_event ` (set a \<union> set b))"
  shows "i < length a \<Longrightarrow> j < length b \<Longrightarrow> se_id (a ! i) = se_id (b ! j)
    \<Longrightarrow> i = j \<and> map se_event (take (Suc i) a) = map se_event (take (Suc j) b)"
proof (induction i arbitrary: j)
  case (0 j)
  have ok: "event_ok C a 0" "event_ok C b j" using assms(1,2) 0 by (auto simp: kel_valid_def)
  then have "event_id C (evt a 0) = event_id C (evt b j)"
    using 0 by (simp add: event_ok_def signed_event_id)
  then have e: "evt a 0 = evt b j" by (rule inj_onD [OF assms(3)]) (use 0 in auto)
  moreover have "ke_type (evt a 0) = Inception" using valid_first [OF assms(1)] 0(1) by simp
  ultimately have "j = 0" using valid_first [OF assms(2) 0(2)] by simp
  then show ?case using e 0 by (cases a; cases b) auto
next
  case (Suc i j)
  have ok: "event_ok C a (Suc i)" "event_ok C b j" using assms(1,2) Suc by (auto simp: kel_valid_def)
  then have "event_id C (evt a (Suc i)) = event_id C (evt b j)"
    using Suc by (simp add: event_ok_def signed_event_id)
  then have e: "evt a (Suc i) = evt b j" by (rule inj_onD [OF assms(3)]) (use Suc in auto)
  have "j \<noteq> 0" using valid_first [OF assms(1) Suc(2)] valid_first [OF assms(2) Suc(3)] e by simp
  then obtain k where j: "j = Suc k" by (cases j) auto
  have "se_id (a ! i) = se_id (b ! k)" using ok e j by (simp add: event_ok_def linked_def)
  then have ik: "i = k" and m: "map se_event (take (Suc i) a) = map se_event (take (Suc k) b)"
    using Suc.IH [of k] Suc.prems j by auto
  have "map se_event (take (Suc (Suc i)) a) = map se_event (take (Suc i) a) @ [evt a (Suc i)]"
    "map se_event (take (Suc j) b) = map se_event (take (Suc k) b) @ [evt b j]"
    using Suc.prems j by (simp_all add: take_Suc_conv_app_nth [of "Suc _"])
  then have "map se_event (take (Suc (Suc i)) a) = map se_event (take (Suc j) b)" unfolding m e by simp
  then show ?case using ik j by simp
qed

text \<open>C3: the identifier of an event determines the whole history up to it, and its sequence number:
  two logs with one event identifier in common have the same events up to there. In particular the
  logs of one AID share their inception. Only a collision among the identifiers of the events of
  these two logs could break this.\<close>

theorem one_history:
  assumes "replay C a = Inr sa" and "replay C b = Inr sb"
    and "inj_on (event_id C) (se_event ` (set a \<union> set b))"
    and "i < length sa" and "j < length sb" and "ks_last_id (sa ! i) = ks_last_id (sb ! j)"
  shows "i = j \<and> map se_event (take (Suc i) a) = map se_event (take (Suc i) b)"
proof -
  have v: "kel_valid C a" "kel_valid C b" and s: "sa = map (state_of a) [0..<length a]" "sb = map (state_of b) [0..<length b]"
    using assms(1,2) by (auto simp: replay_iff)
  have "ks_last_id (state_of kel k) = se_id (kel ! k)" for kel k
    by (simp add: state_of_supersede own_state_def supersede_def)
  then have "se_id (a ! i) = se_id (b ! j)" using assms(4-6) s by simp
  from history_back [OF v assms(3) _ _ this] show ?thesis using assms(4,5) s by auto
qed

lemma demo_cid_inj: "length a = 16 \<Longrightarrow> length b = 16 \<Longrightarrow> demo_cid a = demo_cid b \<Longrightarrow> a = b"
proof -
  assume l: "length a = 16" "length b = 16" and "demo_cid a = demo_cid b"
  then have "b32_decode (b32_encode (aidPrefix @ take 32 (a @ replicate 32 0)))
      = b32_decode (b32_encode (aidPrefix @ take 32 (b @ replicate 32 0)))" by (simp add: demo_cid_def)
  moreover have "length (aidPrefix @ take 32 (c @ replicate 32 0)) = 36" if "length c = 16" for c :: bytes
    using that by (simp add: aidPrefix_def)
  ultimately have "take 32 (a @ replicate 32 0) = take 32 (b @ replicate 32 0)"
    using l decode_encode_36 by simp
  then show "a = b" using l by simp
qed

lemma demo_cid_valid: "ValidAID (demo_cid b)"
  unfolding ValidAID_accepts demo_cid_def by (rule exI [of _ "take 32 (b @ replicate 32 0)"]) simp

lemma demo_event_ids: "inj_on (event_id demo_crypto) (se_event ` set demo_kel)"
proof -
  have "event_id demo_crypto e = event_id demo_crypto e' \<Longrightarrow> ke_seq e = ke_seq e'" for e e'
  proof -
    assume "event_id demo_crypto e = event_id demo_crypto e'"
    then have "demo_cid (be_bytes 8 (ke_seq e) @ be_bytes 8 (ke_ts e))
        = demo_cid (be_bytes 8 (ke_seq e') @ be_bytes 8 (ke_ts e'))"
      by (simp add: event_id_def demo_crypto_def)
    then have "be_bytes 8 (ke_seq e) @ be_bytes 8 (ke_ts e) = be_bytes 8 (ke_seq e') @ be_bytes 8 (ke_ts e')"
      by (intro demo_cid_inj) simp_all
    then show ?thesis by simp
  qed
  moreover have "e = e'" if "e \<in> se_event ` set demo_kel" "e' \<in> se_event ` set demo_kel" "ke_seq e = ke_seq e'" for e e'
  proof -
    have seqs: "ke_seq (se_event demo_icp) = 0" "ke_seq (se_event demo_rot) = 1" "ke_seq (se_event demo_dip) = 2"
      by (simp_all add: demo_defs)
    show ?thesis using that by (auto simp: demo_kel_def seqs)
  qed
  ultimately show ?thesis by (blast intro: inj_onI)
qed

theorem one_history_witness:
  "(1 :: nat) = 1 \<and> map se_event (take (Suc 1) [demo_icp, demo_rot]) = map se_event (take (Suc 1) demo_kel)"
proof -
  have r: "replay demo_crypto demo_kel = Inr (map (state_of demo_kel) [0..<length demo_kel])" (is "_ = Inr ?s")
    using demo_valid by (simp add: replay_iff)
  obtain t where t: "replay demo_crypto [demo_icp, demo_rot] = Inr t" using replay_demo_prefix by blast
  have t': "t = map (state_of [demo_icp, demo_rot]) [0..<2]" using t by (simp add: replay_iff numeral_2_eq_2)
  have inj: "inj_on (event_id demo_crypto) (se_event ` (set [demo_icp, demo_rot] \<union> set demo_kel))"
    using demo_event_ids by (rule inj_on_subset) (auto simp: demo_kel_def)
  have l: "1 < length t" "1 < length ?s" by (simp_all add: t' demo_kel_def)
  have "ks_last_id (state_of kel k) = se_id (kel ! k)" for kel k
    by (simp add: state_of_supersede own_state_def supersede_def)
  then have "ks_last_id (t ! 1) = ks_last_id (?s ! 1)" by (simp add: t' demo_kel_def)
  from one_history [OF t r inj l this] show ?thesis .
qed

section \<open>Objects under a growing log\<close>

lemma state_of_simps:
  "ks_aid (state_of kel i) = kel_aid kel"
  "ks_keys (state_of kel i) = (if is_dip kel i then [] else ke_keys (evt kel i))"
  "ks_status (state_of kel i) = (if is_dip kel i then StatusDeactivated
     else if Suc i < length kel then StatusRotated else StatusActive)"
  "Suc i < length kel \<Longrightarrow> ks_superseded_at (state_of kel i) = ke_ts (evt kel (Suc i))"
  "ks_toad (state_of kel i) = kel_toad kel"
  "ks_seq (state_of kel i) = of_nat i"
  "ks_last_id (state_of kel i) = se_id (kel ! i)"
  by (simp_all add: state_of_supersede own_state_def supersede_def)

lemma VerifyObject_ok:
  "VerifyObject C kel aid seq t pre sig = Inr () \<longleftrightarrow>
     kel_valid C kel \<and> kel_aid kel = aid \<and> unat seq < length kel \<and> \<not> is_dip kel (unat seq)
     \<and> ed_verify C (ke_keys (evt kel (unat seq)) ! 0) pre sig
     \<and> (Suc (unat seq) < length kel \<longrightarrow> t \<noteq> 0 \<and> t < ke_ts (evt kel (Suc (unat seq))))"
proof (cases "kel_valid C kel")
  case True
  have shape: "length (ke_keys (evt kel i)) = 1 \<and> length (ke_keys (evt kel i) ! 0) = 32" if "i < length kel" for i
    using True that by (auto simp: kel_valid_def event_ok_def shape_ok_def)
  have r: "replay C kel = Inr (map (state_of kel) [0..<length kel])" using True by (simp add: replay_iff)
  have ne: "[0..<length kel] \<noteq> []" using True by (simp add: kel_valid_def)
  show ?thesis
  proof (cases "unat seq < length kel")
    case s: True
    show ?thesis
      unfolding VerifyObject_def r sum.case Let_def last_map [OF ne] state_of_simps
      using True s shape [OF s] by (auto simp: state_of_simps)
  next
    case False
    then show ?thesis
      unfolding VerifyObject_def r sum.case Let_def last_map [OF ne] state_of_simps by simp
  qed
next
  case False
  then have "\<exists>e. replay C kel = Inl e" using replay_iff by (cases "replay C kel") blast+
  then show ?thesis using False by (auto simp: VerifyObject_def)
qed

text \<open>C9: \<open>VerifyObject\<close> accepts exactly the objects signed by the key of the declared key state of the
  signer's log, where that state is not the \<open>dip\<close>'s and, when a later event replaced it, the object
  carries a time before that event.\<close>

theorem VerifyObject_iff:
  "VerifyObject C kel aid seq t pre sig = Inr () \<longleftrightarrow>
     kel_valid C kel \<and> kel_aid kel = aid \<and> unat seq < length kel \<and> \<not> is_dip kel (unat seq)
     \<and> ed_verify C (ke_keys (evt kel (unat seq)) ! 0) pre sig
     \<and> (Suc (unat seq) < length kel \<longrightarrow> t \<noteq> 0 \<and> t < ke_ts (evt kel (Suc (unat seq))))"
  by (rule VerifyObject_ok)

theorem VerifyObject_iff_witness:
  "VerifyObject demo_crypto ([demo_icp] @ [demo_rot]) (se_id demo_icp) 0 19 [] (demo_key 9 @ demo_key 9) = Inr ()"
proof -
  have v: "kel_valid demo_crypto ([demo_icp] @ [demo_rot])"
    using kel_valid_append [of demo_crypto "[demo_icp, demo_rot]" "[demo_dip]"] demo_valid by (simp add: demo_kel_def)
  show ?thesis unfolding VerifyObject_iff
    using v by (simp add: kel_aid_def is_dip_def) (simp add: demo_icp_def demo_rot_def demo_crypto_def)
qed

text \<open>Growing the log can only withdraw an acceptance, never grant one, and withdraws exactly the
  objects of the former head that carry no time or a time not before the first new event.\<close>

theorem VerifyObject_extension:
  assumes "replay C (kel @ new) = Inr states" and "unat seq < length kel"
  shows "VerifyObject C (kel @ new) aid seq t pre sig = Inr () \<longleftrightarrow>
    VerifyObject C kel aid seq t pre sig = Inr ()
    \<and> (Suc (unat seq) = length kel \<and> new \<noteq> [] \<longrightarrow> t \<noteq> 0 \<and> t < ke_ts (se_event (hd new)))"
proof -
  have ne: "kel \<noteq> []" using assms(2) by auto
  have v: "kel_valid C (kel @ new)" "kel_valid C kel"
    using assms(1) ne kel_valid_append by (auto simp: replay_iff)
  have "Suc (unat seq) < length kel \<or> Suc (unat seq) = length kel" using assms(2) by linarith
  moreover have "hd new = new ! 0" if "new \<noteq> []" using that by (simp add: hd_conv_nth)
  ultimately show ?thesis
    using assms(2) v by (auto simp: VerifyObject_ok kel_aid_def is_dip_def nth_append)
qed

theorem VerifyObject_extension_witness:
  "VerifyObject demo_crypto ([demo_icp] @ [demo_rot]) (se_id demo_icp) 0 19 [] (demo_key 9 @ demo_key 9) = Inr ()
   \<and> VerifyObject demo_crypto ([demo_icp] @ [demo_rot]) (se_id demo_icp) 0 20 [] (demo_key 9 @ demo_key 9) \<noteq> Inr ()"
proof -
  have v: "kel_valid demo_crypto ([demo_icp] @ [demo_rot])"
    using kel_valid_append [of demo_crypto "[demo_icp, demo_rot]" "[demo_dip]"] demo_valid by (simp add: demo_kel_def)
  then obtain s where s: "replay demo_crypto ([demo_icp] @ [demo_rot]) = Inr s" by (auto simp: replay_iff)
  have "kel_valid demo_crypto [demo_icp]" using kel_valid_append [OF v] by simp
  then have "VerifyObject demo_crypto [demo_icp] (se_id demo_icp) 0 t [] (demo_key 9 @ demo_key 9) = Inr ()" for t
    by (simp add: VerifyObject_ok kel_aid_def is_dip_def) (simp add: demo_icp_def demo_crypto_def)
  moreover have "unat (0 :: u64) < length [demo_icp]" by simp
  note VerifyObject_extension [OF s this]
  ultimately show ?thesis by (simp only: list.sel demo_rot_def demo_sign_simps) simp
qed

lemma retired_usable:
  "RetiredUsableAt ks arrival \<longleftrightarrow> ks_status ks = StatusActive \<or> ks_status ks = StatusRotated
      \<and> unat arrival \<le> unat (ks_superseded_at ks) + (if ks_retired_urgently ks then 0 else 3600000)"
proof -
  let ?s = "ks_superseded_at ks"
  have "arrival \<le> ?s \<or> arrival - ?s \<le> g \<longleftrightarrow> unat arrival \<le> unat ?s + unat g" for g
  proof (cases "?s \<le> arrival")
    case True
    then show ?thesis by (auto simp: word_le_nat_alt unat_sub_le)
  next
    case False
    then show ?thesis by (simp add: word_le_nat_alt)
  qed
  then show ?thesis by (auto simp: RetiredUsableAt_def Let_def RotationGrace_def)
qed

text \<open>The arithmetic of \<open>RetiredUsableAt\<close> does not wrap: a retired state is usable up to and including one
  hour after it was replaced, or not after it at all when it was retired urgently; \<open>SenderKeyUsable\<close> then
  never takes it.\<close>

theorem RetiredUsableAt_iff:
  "(RetiredUsableAt ks arrival \<longleftrightarrow> ks_status ks = StatusActive \<or> ks_status ks = StatusRotated
      \<and> unat arrival \<le> unat (ks_superseded_at ks) + (if ks_retired_urgently ks then 0 else 3600000))
   \<and> (SenderKeyUsable ks arrival \<longleftrightarrow> \<not> ks_retired_urgently ks \<and> (ks_status ks = StatusActive
      \<or> ks_status ks = StatusRotated \<and> unat arrival \<le> unat (ks_superseded_at ks) + 3600000))"
  by (auto simp: SenderKeyUsable_def retired_usable)

end
