(* ===== verification/Replay_Cache.thy ===== *)
theory Replay_Cache
  imports Kel_Props "HOL-Library.Multiset"
begin

text \<open>
  The replay cache (\<open>identity/replaycache.go\<close>): replays are remembered under the SHA-256 of the encoded
  log, least recently used entries are forgotten first, and an estimate of the bytes held stays within a bound.
  A cached replay takes the lock twice, for the lookup and for the insertion, and other uses may run in between,
  so the cache is a step relation of these two halves.
\<close>

section \<open>State\<close>

record replay_entry =
  re_key :: bytes
  re_result :: "kel_err + key_state list"
  re_cost :: int

record replay_cache =
  rc_by_kel :: "bytes \<rightharpoonup> replay_entry"
  rc_lru :: "replay_entry list"
  rc_bytes :: int
  rc_max :: int
  rc_hits :: u64
  rc_misses :: u64

definition NewReplayCache :: "int \<Rightarrow> replay_cache" where
  "NewReplayCache maxBytes = \<lparr>rc_by_kel = Map.empty, rc_lru = [], rc_bytes = 0, rc_max = maxBytes,
     rc_hits = 0, rc_misses = 0\<rparr>"

text \<open>\<open>unsafe.Sizeof\<close> of a slice header and of a \<open>KeyState\<close> on a 64-bit machine.\<close>

definition sizeof_slice :: int where "sizeof_slice = 24"
definition sizeof_key_state :: int where "sizeof_key_state = 120"

section \<open>Copying the states\<close>

text \<open>\<open>aliased i\<close> says whether the key slice of state \<open>i\<close> is, in memory, the slice of state \<open>i - 1\<close>.\<close>

definition sameKeys :: "bool \<Rightarrow> bytes list \<Rightarrow> bytes list \<Rightarrow> bool" where
  "sameKeys same a b = (length a = length b \<and> (length a = 0 \<or> same))"

definition keys_cost :: "bytes list \<Rightarrow> int" where
  "keys_cost keys = (\<Sum>k \<leftarrow> keys. int (length k) + sizeof_slice)"

fun compact_from :: "(nat \<Rightarrow> bool) \<Rightarrow> nat \<Rightarrow> key_state option \<Rightarrow> key_state option \<Rightarrow> key_state list \<Rightarrow> key_state list \<times> int" where
  "compact_from aliased i prev prev_out [] = ([], 0)"
| "compact_from aliased i prev prev_out (s # ss) =
     (let shared = (case prev of None \<Rightarrow> False | Some p \<Rightarrow> sameKeys (aliased i) (ks_keys s) (ks_keys p));
          out = (if shared then s \<lparr>ks_keys := ks_keys (the prev_out)\<rparr> else s);
          kc = (if shared then 0 else keys_cost (ks_keys s));
          (rest, cost) = compact_from aliased (Suc i) (Some s) (Some out) ss
      in (out # rest, kc + int (length (ks_last_id s)) + int (length (ks_witness s)) + cost))"

definition compactStates :: "(nat \<Rightarrow> bool) \<Rightarrow> key_state list \<Rightarrow> (key_state list \<times> int) option" where
  "compactStates aliased states =
     (if length states = 0 then None
      else let (out, cost) = compact_from aliased 0 None None states in
        Some (out, cost + int (length states) * sizeof_key_state + int (length (ks_aid (states ! 0)))))"

section \<open>The two halves of a cached replay\<close>

definition cache_lookup :: "bytes \<Rightarrow> replay_cache \<Rightarrow> replay_cache \<times> (kel_err + key_state list) option" where
  "cache_lookup key c =
     (case rc_by_kel c key of
        Some e \<Rightarrow> (c \<lparr>rc_lru := e # remove1 e (rc_lru c), rc_hits := rc_hits c + 1\<rparr>, Some (re_result e))
      | None \<Rightarrow> (c \<lparr>rc_misses := rc_misses c + 1\<rparr>, None))"

text \<open>The eviction loop; \<open>None\<close> is the panic of removing the back of an empty list.\<close>

fun evict :: "int \<Rightarrow> replay_entry list \<Rightarrow> (bytes \<rightharpoonup> replay_entry) \<Rightarrow> int
    \<Rightarrow> (replay_entry list \<times> (bytes \<rightharpoonup> replay_entry) \<times> int) option" where
  "evict bound [] m b = (if b > bound then None else Some ([], m, b))"
| "evict bound (e # es) m b =
     (if b > bound then
        (let old = last (e # es) in evict bound (butlast (e # es)) (m(re_key old := None)) (b - re_cost old))
      else Some (e # es, m, b))"

definition cache_insert :: "replay_entry \<Rightarrow> replay_cache \<Rightarrow> replay_cache option" where
  "cache_insert e c =
     (if rc_by_kel c (re_key e) \<noteq> None \<or> re_cost e > rc_max c then Some c
      else case evict (rc_max c - re_cost e) (rc_lru c) (rc_by_kel c) (rc_bytes c) of
        None \<Rightarrow> None
      | Some (lru, m, b) \<Rightarrow>
          Some (c \<lparr>rc_by_kel := m(re_key e \<mapsto> e), rc_lru := e # lru, rc_bytes := b + re_cost e\<rparr>))"

text \<open>What a miss computes: the result, and the entry to insert when there is one to cache.\<close>

definition miss_entry :: "(nat \<Rightarrow> bool) \<Rightarrow> bytes \<Rightarrow> kel_err + key_state list \<Rightarrow> replay_entry option" where
  "miss_entry aliased key r =
     (case r of
        Inl err \<Rightarrow> Some \<lparr>re_key = key, re_result = Inl err, re_cost = 256\<rparr>
      | Inr states \<Rightarrow>
          (case compactStates aliased states of
             None \<Rightarrow> None
           | Some (out, cost) \<Rightarrow> Some \<lparr>re_key = key, re_result = Inr out, re_cost = cost + 256\<rparr>))"

text \<open>\<open>marshal\<close> is \<open>MarshalKEL\<close>. With nothing running in between, \<open>replay\<close> of the cache is:\<close>

definition cached_replay ::
  "crypto \<Rightarrow> (signed_event list \<Rightarrow> bytes option) \<Rightarrow> (nat \<Rightarrow> bool) \<Rightarrow> signed_event list \<Rightarrow> replay_cache
     \<Rightarrow> (replay_cache \<times> (kel_err + key_state list)) option" where
  "cached_replay C marshal aliased kel c =
     (case marshal kel of
        None \<Rightarrow> Some (c, replay C kel)
      | Some enc \<Rightarrow>
          (let key = sha256 C enc in
           case cache_lookup key c of
             (c', Some r) \<Rightarrow> Some (c', r)
           | (c', None) \<Rightarrow>
               (let r = replay C kel in
                case miss_entry aliased key r of
                  None \<Rightarrow> Some (c', r)
                | Some e \<Rightarrow> map_option (\<lambda>c''. (c'', r)) (cache_insert e c'))))"

section \<open>The step relation\<close>

text \<open>\<open>kels\<close> are the logs this process replays; \<open>honest\<close> says the aliasing of their states is real.\<close>

definition honest :: "(nat \<Rightarrow> bool) \<Rightarrow> key_state list \<Rightarrow> bool" where
  "honest aliased states \<longleftrightarrow> (\<forall>i. Suc i < length states \<and> aliased (Suc i) \<longrightarrow> ks_keys (states ! Suc i) = ks_keys (states ! i))"

inductive cache_step ::
  "crypto \<Rightarrow> (signed_event list \<Rightarrow> bytes option) \<Rightarrow> signed_event list set \<Rightarrow> replay_cache \<Rightarrow> replay_cache \<Rightarrow> bool"
  for C marshal kels where
  lookup: "kel \<in> kels \<Longrightarrow> marshal kel = Some enc \<Longrightarrow> cache_lookup (sha256 C enc) c = (c', r)
    \<Longrightarrow> cache_step C marshal kels c c'"
| insert: "kel \<in> kels \<Longrightarrow> marshal kel = Some enc \<Longrightarrow> (\<And>states. replay C kel = Inr states \<Longrightarrow> honest aliased states)
    \<Longrightarrow> miss_entry aliased (sha256 C enc) (replay C kel) = Some e \<Longrightarrow> cache_insert e c = Some c'
    \<Longrightarrow> cache_step C marshal kels c c'"

inductive cache_reachable ::
  "crypto \<Rightarrow> (signed_event list \<Rightarrow> bytes option) \<Rightarrow> signed_event list set \<Rightarrow> int \<Rightarrow> replay_cache \<Rightarrow> bool"
  for C marshal kels bound where
  start: "cache_reachable C marshal kels bound (NewReplayCache bound)"
| step: "cache_reachable C marshal kels bound c \<Longrightarrow> cache_step C marshal kels c c' \<Longrightarrow> cache_reachable C marshal kels bound c'"

section \<open>The invariant\<close>

definition total_cost :: "replay_entry list \<Rightarrow> int" where
  "total_cost es = (\<Sum>e \<leftarrow> es. re_cost e)"

definition cache_shape :: "replay_cache \<Rightarrow> bool" where
  "cache_shape c \<longleftrightarrow> distinct (map re_key (rc_lru c))
     \<and> rc_by_kel c = map_of (map (\<lambda>e. (re_key e, e)) (rc_lru c))
     \<and> rc_bytes c = total_cost (rc_lru c) \<and> (\<forall>e \<in> set (rc_lru c). 0 < re_cost e)
     \<and> (rc_bytes c \<le> rc_max c \<or> rc_lru c = [])"

definition entry_right ::
  "crypto \<Rightarrow> (signed_event list \<Rightarrow> bytes option) \<Rightarrow> signed_event list set \<Rightarrow> replay_entry \<Rightarrow> bool" where
  "entry_right C marshal kels e \<longleftrightarrow>
     (\<exists>kel enc. kel \<in> kels \<and> marshal kel = Some enc \<and> re_key e = sha256 C enc \<and> re_result e = replay C kel)"

lemma sameKeys_honest:
  "sameKeys a xs ys \<Longrightarrow> (a \<Longrightarrow> xs = ys) \<Longrightarrow> xs = ys"
  by (auto simp: sameKeys_def)

lemma compact_from_states:
  assumes "\<And>p. prev = Some p \<Longrightarrow> prev_out = Some p \<and> (ss \<noteq> [] \<and> aliased i \<longrightarrow> ks_keys (hd ss) = ks_keys p)"
    and "\<forall>j. Suc j < length ss \<and> aliased (i + Suc j) \<longrightarrow> ks_keys (ss ! Suc j) = ks_keys (ss ! j)"
  shows "fst (compact_from aliased i prev prev_out ss) = ss \<and> 0 \<le> snd (compact_from aliased i prev prev_out ss)"
  using assms
proof (induction aliased i prev prev_out ss rule: compact_from.induct)
  case (2 aliased i prev prev_out s ss)
  let ?shared = "case prev of None \<Rightarrow> False | Some p \<Rightarrow> sameKeys (aliased i) (ks_keys s) (ks_keys p)"
  have out: "(if ?shared then s \<lparr>ks_keys := ks_keys (the prev_out)\<rparr> else s) = s"
  proof (cases prev)
    case (Some p)
    then show ?thesis using 2(2) [OF Some] sameKeys_honest [of "aliased i" "ks_keys s" "ks_keys p"] by auto
  qed simp
  have "fst (compact_from aliased (Suc i) (Some s) (Some s) ss) = ss \<and> 0 \<le> snd (compact_from aliased (Suc i) (Some s) (Some s) ss)"
  proof (rule 2(1) [OF refl, unfolded out, OF refl refl])
    fix p assume "Some s = Some p"
    then show "Some s = Some p \<and> (ss \<noteq> [] \<and> aliased (Suc i) \<longrightarrow> ks_keys (hd ss) = ks_keys p)"
      using 2(3) [rule_format, of 0] by (cases ss) auto
  next
    show "\<forall>j. Suc j < length ss \<and> aliased (Suc i + Suc j) \<longrightarrow> ks_keys (ss ! Suc j) = ks_keys (ss ! j)"
      using 2(3) by (auto dest: spec [of _ "Suc _"])
  qed
  moreover have "0 \<le> keys_cost keys" for keys
    unfolding keys_cost_def by (rule sum_list_nonneg) (auto simp: sizeof_slice_def)
  ultimately show ?case using out by (auto simp: Let_def split: prod.splits)
qed simp

lemma miss_entry_right:
  assumes "miss_entry aliased key r = Some e" and "\<And>states. r = Inr states \<Longrightarrow> honest aliased states"
  shows "re_key e = key" "re_result e = r" "0 < re_cost e"
proof -
  have "re_key e = key \<and> re_result e = r \<and> 0 < re_cost e"
  proof (cases r)
    case (Inl err)
    then show ?thesis using assms(1) by (auto simp: miss_entry_def)
  next
    case (Inr states)
    obtain out cost where oc: "compact_from aliased 0 None None states = (out, cost)" by (cases "compact_from aliased 0 None None states")
    have "fst (compact_from aliased 0 None None states) = states \<and> 0 \<le> snd (compact_from aliased 0 None None states)"
      using assms(2) [OF Inr] by (intro compact_from_states) (auto simp: honest_def)
    then show ?thesis using assms(1) Inr oc
      by (auto simp: miss_entry_def compactStates_def sizeof_key_state_def split: if_splits)
  qed
  then show "re_key e = key" "re_result e = r" "0 < re_cost e" by auto
qed

lemma total_cost_remove: "e \<in> set es \<Longrightarrow> total_cost (e # remove1 e es) = total_cost es"
  by (induction es) (auto simp: total_cost_def)

abbreviation index :: "replay_entry list \<Rightarrow> bytes \<rightharpoonup> replay_entry" where
  "index es \<equiv> map_of (map (\<lambda>e. (re_key e, e)) es)"

lemma index_Some: "distinct (map re_key es) \<Longrightarrow> index es k = Some e \<longleftrightarrow> e \<in> set es \<and> re_key e = k"
  by (subst map_of_eq_Some_iff) (auto simp: comp_def)

lemma index_None: "index es k = None \<longleftrightarrow> k \<notin> re_key ` set es"
  by (auto simp: map_of_eq_None_iff image_image)

lemma option_eq_Some: "(\<And>e. x = Some e \<longleftrightarrow> y = Some e) \<Longrightarrow> x = y"
  by (cases x; cases y) auto

lemma index_perm:
  assumes "distinct (map re_key es)" and "distinct (map re_key es')" and "set es = set es'"
  shows "index es = index es'"
proof (rule ext, rule option_eq_Some)
  fix k e show "index es k = Some e \<longleftrightarrow> index es' k = Some e"
    by (simp only: index_Some [OF assms(1)] index_Some [OF assms(2)] assms(3))
qed

lemma index_butlast:
  assumes "distinct (map re_key es)" and "es \<noteq> []"
  shows "(index es)(re_key (last es) := None) = index (butlast es)"
proof -
  obtain xs x where es: "es = xs @ [x]" using assms(2) by (cases es rule: rev_cases) auto
  then have d: "distinct (map re_key xs)" "re_key x \<notin> re_key ` set xs" using assms(1) by auto
  show ?thesis
  proof
    fix k show "((index es)(re_key (last es) := None)) k = index (butlast es) k"
    proof (cases "k = re_key x")
      case True
      then show ?thesis using d(2) index_None [of xs k] by (simp add: es)
    next
      case False
      have "index (xs @ [x]) k = Some e \<longleftrightarrow> index xs k = Some e" for e
        using index_Some [OF assms(1), of k e] index_Some [OF d(1), of k e] False by (auto simp: es)
      then have "index (xs @ [x]) k = index xs k" by (rule option_eq_Some)
      then show ?thesis using False by (simp add: es)
    qed
  qed
qed

lemma evict_ok:
  assumes "distinct (map re_key es)" and "m = index es" and "b = total_cost es" and "0 \<le> bound"
  shows "\<exists>n. evict bound es m b = Some (take n es, index (take n es), total_cost (take n es)) \<and> total_cost (take n es) \<le> bound"
  using assms
proof (induction bound es m b rule: evict.induct)
  case (1 bound m b)
  then show ?case by (simp add: total_cost_def)
next
  case (2 bound e es m b)
  show ?case
  proof (cases "b > bound")
    case False
    have "evict bound (e # es) m b = Some (e # es, m, b)" using False by simp
    then have "evict bound (e # es) m b = Some (e # es, index (e # es), total_cost (e # es))
        \<and> total_cost (e # es) \<le> bound" unfolding 2(3,4) using False 2(4) by (simp del: map_of.simps)
    then show ?thesis by (intro exI [of _ "length (e # es)"]) (simp only: take_all order_refl)
  next
    case True
    let ?old = "last (e # es)" let ?rest = "butlast (e # es)"
    have "total_cost (e # es) = total_cost ?rest + re_cost ?old"
    proof -
      have "e # es = ?rest @ [?old]" by (rule append_butlast_last_id [symmetric]) simp
      then have "total_cost (e # es) = total_cost (?rest @ [?old])" by (rule arg_cong)
      also have "\<dots> = total_cost ?rest + re_cost ?old"
        by (simp only: total_cost_def map_append sum_list.append list.map sum_list.Cons sum_list.Nil add_0_right)
      finally show ?thesis .
    qed
    moreover have "distinct (map re_key ?rest)" using 2(2) distinct_butlast by (simp only: map_butlast)
    moreover have "m(re_key ?old := None) = index ?rest"
      unfolding 2(3) by (rule index_butlast) (use 2(2) in auto)
    ultimately obtain n where n: "evict bound ?rest (m(re_key ?old := None)) (b - re_cost ?old)
        = Some (take n ?rest, index (take n ?rest), total_cost (take n ?rest))" "total_cost (take n ?rest) \<le> bound"
      using 2(1) [OF True refl] 2(4,5) by auto
    have t: "take n ?rest = take (min n (length es)) (e # es)" by (simp only: butlast_conv_take take_take) (simp add: min_def)
    have step: "evict bound (e # es) m b = evict bound ?rest (m(re_key ?old := None)) (b - re_cost ?old)"
      using True by (simp add: Let_def)
    show ?thesis
      by (rule exI [of _ "min n (length es)"]) (simp only: t [symmetric] step n simp_thms)
  qed
qed

lemma lookup_invariants:
  assumes "cache_lookup key c = (c', r)" and "cache_shape c"
  shows "cache_shape c'" "set (rc_lru c') = set (rc_lru c)" "rc_max c' = rc_max c"
    and "r = Some x \<Longrightarrow> \<exists>e \<in> set (rc_lru c). re_key e = key \<and> re_result e = x"
proof -
  have "cache_shape c' \<and> set (rc_lru c') = set (rc_lru c) \<and> rc_max c' = rc_max c
      \<and> (\<forall>x. r = Some x \<longrightarrow> (\<exists>e \<in> set (rc_lru c). re_key e = key \<and> re_result e = x))"
  proof (cases "rc_by_kel c key")
    case None
    then show ?thesis using assms by (auto simp: cache_lookup_def cache_shape_def)
  next
    case (Some e)
    then have e: "e \<in> set (rc_lru c)" "re_key e = key" using assms(2) index_Some by (auto simp: cache_shape_def)
    let ?lru = "e # remove1 e (rc_lru c)"
    have d: "distinct (rc_lru c)" using assms(2) by (simp add: cache_shape_def distinct_map)
    have s: "set ?lru = set (rc_lru c)" using e(1) d by (auto simp: set_remove1_eq)
    have "mset ?lru = mset (rc_lru c)" using e(1) by simp
    then have "mset (map re_key ?lru) = mset (map re_key (rc_lru c))" by (simp only: mset_map)
    then have k: "distinct (map re_key ?lru)" using assms(2) mset_eq_imp_distinct_iff by (auto simp only: cache_shape_def)
    have "index ?lru = index (rc_lru c)" using index_perm [OF k _ s] assms(2) by (simp add: cache_shape_def)
    then show ?thesis
      using assms Some e k s total_cost_remove [OF e(1)] by (auto simp: cache_lookup_def cache_shape_def)
  qed
  then show "cache_shape c'" "set (rc_lru c') = set (rc_lru c)" "rc_max c' = rc_max c"
    "r = Some x \<Longrightarrow> \<exists>e \<in> set (rc_lru c). re_key e = key \<and> re_result e = x" by blast+
qed

lemma insert_invariants:
  assumes "cache_shape c" and "0 < re_cost e"
  obtains c' where "cache_insert e c = Some c'" "cache_shape c'" "set (rc_lru c') \<subseteq> insert e (set (rc_lru c))"
    "rc_max c' = rc_max c"
proof (cases "rc_by_kel c (re_key e) \<noteq> None \<or> re_cost e > rc_max c")
  case True
  then show thesis using that [of c] assms(1) by (auto simp: cache_insert_def)
next
  case False
  let ?lru = "rc_lru c"
  have d: "distinct (map re_key ?lru)" and m: "rc_by_kel c = index ?lru" "rc_bytes c = total_cost ?lru"
    using assms(1) by (simp_all add: cache_shape_def)
  obtain n where n: "evict (rc_max c - re_cost e) ?lru (rc_by_kel c) (rc_bytes c)
      = Some (take n ?lru, index (take n ?lru), total_cost (take n ?lru))"
    "total_cost (take n ?lru) \<le> rc_max c - re_cost e"
    using evict_ok [OF d m, of "rc_max c - re_cost e"] False by auto
  let ?c = "c \<lparr>rc_by_kel := (index (take n ?lru))(re_key e \<mapsto> e), rc_lru := e # take n ?lru,
    rc_bytes := total_cost (take n ?lru) + re_cost e\<rparr>"
  have "distinct (map re_key (take n ?lru))" using d by (simp only: take_map [symmetric] distinct_take)
  moreover have "re_key e \<notin> re_key ` set ?lru" using False m(1) index_None [of ?lru] by auto
  then have "re_key e \<notin> re_key ` set (take n ?lru)" by (auto dest: in_set_takeD)
  moreover have "\<forall>x \<in> set (take n ?lru). 0 < re_cost x" using assms(1) by (auto simp: cache_shape_def dest: in_set_takeD)
  ultimately have "cache_shape ?c" using assms(2) n(2) by (auto simp: cache_shape_def total_cost_def)
  moreover have "cache_insert e c = Some ?c" using False n(1) by (simp add: cache_insert_def)
  moreover have "set (rc_lru ?c) \<subseteq> insert e (set ?lru)" by (auto dest: in_set_takeD)
  ultimately show thesis using that by simp
qed

lemma cache_step_inv:
  assumes "cache_step C marshal kels c c'" and "cache_shape c" and "\<forall>e \<in> set (rc_lru c). entry_right C marshal kels e"
  shows "cache_shape c' \<and> (\<forall>e \<in> set (rc_lru c'). entry_right C marshal kels e) \<and> rc_max c' = rc_max c"
  using assms(1)
proof (cases rule: cache_step.cases)
  case (lookup kel enc r)
  then show ?thesis using lookup_invariants assms(2,3) by metis
next
  case (insert kel enc aliased e)
  have r: "re_key e = sha256 C enc" "re_result e = replay C kel" "0 < re_cost e"
    using miss_entry_right [OF insert(4)] insert(3) by auto
  then have "entry_right C marshal kels e" using insert(1,2) by (auto simp: entry_right_def)
  moreover obtain c2 where "cache_insert e c = Some c2" "cache_shape c2" "set (rc_lru c2) \<subseteq> insert e (set (rc_lru c))"
    "rc_max c2 = rc_max c" using insert_invariants [OF assms(2) r(3)] by metis
  ultimately show ?thesis using insert(5) assms(3) by auto
qed

lemma reachable_inv:
  "cache_reachable C marshal kels bound c \<Longrightarrow>
     cache_shape c \<and> (\<forall>e \<in> set (rc_lru c). entry_right C marshal kels e) \<and> rc_max c = bound"
proof (induction rule: cache_reachable.induct)
  case start
  then show ?case by (simp add: cache_shape_def NewReplayCache_def total_cost_def)
next
  case (step c c')
  then show ?case using cache_step_inv by metis
qed

section \<open>Properties\<close>

text \<open>C15: the cache is transparent. Whatever interleaving of lookups and insertions led to the cache, a
  replay through it returns exactly what \<open>replay\<close> without it returns, and never panics, as long as
  no two of the logs replayed have encodings with one SHA-256 and the encoder writes no two of
  them alike.\<close>

theorem cache_transparent:
  assumes "cache_reachable C marshal kels bound c" and "kel \<in> kels"
    and "\<forall>k1 \<in> kels. \<forall>k2 \<in> kels. \<forall>x y. marshal k1 = Some x \<longrightarrow> marshal k2 = Some y \<longrightarrow> sha256 C x = sha256 C y \<longrightarrow> k1 = k2"
    and "\<And>states. replay C kel = Inr states \<Longrightarrow> honest aliased states"
  shows "\<exists>c'. cached_replay C marshal aliased kel c = Some (c', replay C kel)"
proof (cases "marshal kel")
  case None
  then show ?thesis by (simp add: cached_replay_def)
next
  case (Some enc)
  let ?key = "sha256 C enc"
  have inv: "cache_shape c" "\<forall>e \<in> set (rc_lru c). entry_right C marshal kels e"
    using reachable_inv [OF assms(1)] by blast+
  obtain c1 r where l: "cache_lookup ?key c = (c1, r)" by (cases "cache_lookup ?key c")
  show ?thesis
  proof (cases r)
    case (Some x)
    then obtain e where e: "e \<in> set (rc_lru c)" "re_key e = ?key" "re_result e = x"
      using lookup_invariants(4) [OF l inv(1)] by blast
    then obtain k enc' where k: "k \<in> kels" "marshal k = Some enc'" "sha256 C enc' = ?key" "x = replay C k"
      using inv(2) unfolding entry_right_def by metis
    then have "k = kel" using assms(2,3) \<open>marshal kel = Some enc\<close> by blast
    then show ?thesis using \<open>marshal kel = Some enc\<close> l Some k(4) by (simp add: cached_replay_def Let_def)
  next
    case None
    show ?thesis
    proof (cases "miss_entry aliased ?key (replay C kel)")
      case (Some e)
      have "0 < re_cost e" using miss_entry_right(3) [OF Some] assms(4) by blast
      then obtain c2 where "cache_insert e c1 = Some c2"
        using insert_invariants lookup_invariants(1) [OF l inv(1)] by metis
      then show ?thesis using \<open>marshal kel = Some enc\<close> l None Some by (simp add: cached_replay_def Let_def)
    next
      case no: None
      then show ?thesis using \<open>marshal kel = Some enc\<close> l None by (simp add: cached_replay_def Let_def)
    qed
  qed
qed

text \<open>C16: the cache stays within its bound, holds one entry per key and counts what it holds exactly; forgetting
  never finds the list empty, so an insertion never panics.\<close>

theorem cache_bounded:
  assumes "cache_reachable C marshal kels bound c"
  shows "(rc_lru c \<noteq> [] \<longrightarrow> rc_bytes c \<le> bound) \<and> rc_bytes c = total_cost (rc_lru c)
    \<and> distinct (map re_key (rc_lru c)) \<and> dom (rc_by_kel c) = re_key ` set (rc_lru c)
    \<and> (0 < re_cost e \<longrightarrow> (\<exists>c'. cache_insert e c = Some c'))"
proof -
  have s: "cache_shape c" "rc_max c = bound" using reachable_inv [OF assms] by blast+
  then have i: "rc_by_kel c = index (rc_lru c)" by (simp add: cache_shape_def)
  have "dom (rc_by_kel c) = re_key ` set (rc_lru c)"
  proof (rule set_eqI)
    fix k show "k \<in> dom (rc_by_kel c) \<longleftrightarrow> k \<in> re_key ` set (rc_lru c)"
      by (simp only: i domIff index_None not_not)
  qed
  moreover have "\<exists>c'. cache_insert e c = Some c'" if "0 < re_cost e"
    using insert_invariants [OF s(1) that] by metis
  moreover have "rc_lru c \<noteq> [] \<longrightarrow> rc_bytes c \<le> bound" "rc_bytes c = total_cost (rc_lru c)"
    "distinct (map re_key (rc_lru c))" using s unfolding cache_shape_def by auto
  ultimately show ?thesis by blast
qed

text \<open>The witnesses: a cache that replayed the log of \<open>demo_kel\<close> once.\<close>

definition demo_marshal :: "signed_event list \<Rightarrow> bytes option" where
  "demo_marshal kel = Some [of_nat (length kel)]"

lemma demo_cache: "\<exists>c. cache_step demo_crypto demo_marshal {demo_kel} (NewReplayCache 5000) c
    \<and> cache_reachable demo_crypto demo_marshal {demo_kel} 5000 c"
proof -
  let ?st = "map (state_of demo_kel) [0..<length demo_kel]"
  have r: "replay demo_crypto demo_kel = Inr ?st" using demo_valid by (simp add: replay_iff)
  have "compactStates (\<lambda>_. False) ?st \<noteq> None" by (simp add: compactStates_def demo_kel_def split: prod.splits)
  then obtain e where e: "miss_entry (\<lambda>_. False) (sha256 demo_crypto [3]) (Inr ?st) = Some e"
    by (auto simp: miss_entry_def)
  have m: "demo_marshal demo_kel = Some [3]" by (simp add: demo_marshal_def demo_kel_def)
  have cost: "0 < re_cost e" using miss_entry_right(3) [OF e] by (simp add: honest_def)
  have start: "cache_reachable demo_crypto demo_marshal {demo_kel} 5000 (NewReplayCache 5000)" by (rule cache_reachable.start)
  then have "cache_shape (NewReplayCache 5000)" using reachable_inv by blast
  then obtain c where c: "cache_insert e (NewReplayCache 5000) = Some c"
    using insert_invariants [OF _ cost] by metis
  have "cache_step demo_crypto demo_marshal {demo_kel} (NewReplayCache 5000) c"
  proof (rule cache_step.insert)
    show "miss_entry (\<lambda>_. False) (sha256 demo_crypto [3]) (replay demo_crypto demo_kel) = Some e" unfolding r by (rule e)
    show "demo_marshal demo_kel = Some [3]" by (rule m)
    show "honest (\<lambda>_. False) states" for states by (simp add: honest_def)
    show "cache_insert e (NewReplayCache 5000) = Some c" by (rule c)
  qed simp
  then show ?thesis using cache_reachable.step [OF start] by blast
qed

theorem cache_transparent_witness:
  "\<exists>c c'. cache_step demo_crypto demo_marshal {demo_kel} (NewReplayCache 5000) c
     \<and> cached_replay demo_crypto demo_marshal (\<lambda>_. False) demo_kel c = Some (c', replay demo_crypto demo_kel)"
proof -
  obtain c where c: "cache_step demo_crypto demo_marshal {demo_kel} (NewReplayCache 5000) c"
    "cache_reachable demo_crypto demo_marshal {demo_kel} 5000 c" using demo_cache by blast
  have "demo_kel \<in> {demo_kel}" by simp
  from cache_transparent [OF c(2) this, of "\<lambda>_. False"] c(1) show ?thesis by (auto simp: honest_def)
qed

theorem cache_bounded_witness:
  "\<exists>c. cache_step demo_crypto demo_marshal {demo_kel} (NewReplayCache 5000) c \<and> rc_bytes c = total_cost (rc_lru c)"
proof -
  obtain c where c: "cache_step demo_crypto demo_marshal {demo_kel} (NewReplayCache 5000) c"
    "cache_reachable demo_crypto demo_marshal {demo_kel} 5000 c" using demo_cache by blast
  show ?thesis using c(1) cache_bounded [OF c(2)] by blast
qed

end
