(* ===== verification/Tsir.thy ===== *)
theory Tsir
  imports Prelude
begin

text \<open>
  The predicate calculus of task documents (\<open>tsir/predicate.go\<close>): the closed grammar, its well-formedness
  check, its evaluation over an effect record and the glob matcher. A nil pointer is \<open>None\<close>; where the code
  would dereference nil, \<open>Evaluate\<close> gives \<open>None\<close>. A \<open>float64\<close> is its 64 bits.
\<close>

section \<open>Codes\<close>

definition MaxClausesPerPredicate :: nat where "MaxClausesPerPredicate = 64"
definition MaxPredicateDepth :: nat where "MaxPredicateDepth = 16"

definition OpAND :: int where "OpAND = 1"
definition OpOR :: int where "OpOR = 2"
definition OpNOT :: int where "OpNOT = 3"
definition OpArtifact :: int where "OpArtifact = 10"
definition OpTest :: int where "OpTest = 11"
definition OpThreshold :: int where "OpThreshold = 12"
definition OpScope :: int where "OpScope = 13"

definition VerbCreate :: int where "VerbCreate = 1"
definition VerbGet :: int where "VerbGet = 5"

definition CmpLT :: int where "CmpLT = 1"
definition CmpLE :: int where "CmpLE = 2"
definition CmpEQ :: int where "CmpEQ = 3"
definition CmpGE :: int where "CmpGE = 4"
definition CmpGT :: int where "CmpGT = 5"

definition StatusPass :: int where "StatusPass = 1"
definition StatusFail :: int where "StatusFail = 2"

definition MatchGlob :: int where "MatchGlob = 1"
definition MatchSet :: int where "MatchSet = 2"
definition MatchPrefix :: int where "MatchPrefix = 3"

lemmas op_codes = OpAND_def OpOR_def OpNOT_def OpArtifact_def OpTest_def OpThreshold_def OpScope_def
lemmas match_codes = MatchGlob_def MatchSet_def MatchPrefix_def
lemmas cmp_codes = CmpLT_def CmpLE_def CmpEQ_def CmpGE_def CmpGT_def

section \<open>Data\<close>

type_synonym f64 = "64 word"

record artifact_clause =
  ac_path_glob :: string
  ac_exists :: "bool option"
  ac_min_size :: "u64 option"
  ac_schema_ref :: string
  ac_contains :: "string list"

record test_clause =
  tc_test_id :: string
  tc_expect :: int

record threshold_clause =
  th_metric :: string
  th_op :: int
  th_value :: f64

record resource_match =
  rm_kind :: int
  rm_val :: string

record scope_clause =
  sc_verb :: int
  sc_kind :: int
  sc_match :: resource_match
  sc_merge_class :: "int option"

datatype predicate =
  Predicate (p_op: int) (p_children: "predicate option list") (p_artifact: "artifact_clause option")
    (p_test: "test_clause option") (p_thresh: "threshold_clause option") (p_scope: "scope_clause option")

record artifact =
  af_path :: string
  af_size :: u64
  af_content_cid :: string
  af_media_type :: string

record test_result =
  tr_id :: string
  tr_status :: int

record resource_ref =
  rr_kind :: int
  rr_id :: string
  rr_merge_class :: int

record effect_ref =
  ef_verb :: int
  ef_resource :: resource_ref

record effect_record =
  er_artifacts :: "artifact list"
  er_tests :: "test_result list"
  er_metrics :: "string \<rightharpoonup> f64"
  er_resources :: "resource_ref list"
  er_effects :: "effect_ref list"

datatype tsir_err = ErrMalformed

section \<open>Well-formedness\<close>

text \<open>The early return of a \<open>range\<close> loop whose body may fail.\<close>

fun each :: "('a \<Rightarrow> 'e + unit) \<Rightarrow> 'a list \<Rightarrow> 'e + unit" where
  "each f [] = Inr ()"
| "each f (x # xs) = ebind (f x) (\<lambda>_. each f xs)"

lemma each_cong [fundef_cong]:
  "xs = ys \<Longrightarrow> (\<And>x. x \<in> set ys \<Longrightarrow> f x = g x) \<Longrightarrow> each f xs = each g ys"
  by (induction xs arbitrary: ys) auto

lemma each_ok: "each f xs = Inr u \<longleftrightarrow> (\<forall>x \<in> set xs. f x = Inr ())"
  by (induction xs) (auto simp: ebind_Inr_iff)

definition validate_leaf :: "predicate \<Rightarrow> tsir_err + unit" where
  "validate_leaf p =
     (if p_op p = OpArtifact then
        (case p_artifact p of
           None \<Rightarrow> Inl ErrMalformed
         | Some a \<Rightarrow> if ac_schema_ref a \<noteq> [] \<or> length (ac_contains a) > 0 then Inl ErrMalformed else Inr ())
      else if p_op p = OpTest then
        (case p_test p of
           None \<Rightarrow> Inl ErrMalformed
         | Some t \<Rightarrow> if tc_expect t \<noteq> StatusPass \<and> tc_expect t \<noteq> StatusFail then Inl ErrMalformed else Inr ())
      else if p_op p = OpThreshold then
        (case p_thresh p of
           None \<Rightarrow> Inl ErrMalformed
         | Some t \<Rightarrow> if th_op t < CmpLT \<or> th_op t > CmpGT then Inl ErrMalformed else Inr ())
      else if p_op p = OpScope then
        (case p_scope p of
           None \<Rightarrow> Inl ErrMalformed
         | Some s \<Rightarrow>
             if sc_verb s < VerbCreate \<or> sc_verb s > VerbGet then Inl ErrMalformed
             else if rm_kind (sc_match s) < MatchGlob \<or> rm_kind (sc_match s) > MatchPrefix then Inl ErrMalformed
             else Inr ())
      else Inl ErrMalformed)"

lemma child_size: "Some c \<in> set (p_children p) \<Longrightarrow> size c < size p"
  by (cases p) (auto dest: size_list_estimation' [where f = "size_option size" and y = "size c"])

lemma first_child_size: "length (p_children p) = Suc 0 \<Longrightarrow> p_children p ! 0 = Some c \<Longrightarrow> size c < size p"
  by (rule child_size) (metis lessI nth_mem zero_less_Suc)

function validate :: "nat \<Rightarrow> predicate option \<Rightarrow> tsir_err + unit" where
  "validate depth None = Inl ErrMalformed"
| "validate depth (Some p) =
     (if depth > MaxPredicateDepth then Inl ErrMalformed
      else if p_op p = OpAND \<or> p_op p = OpOR then
        (if length (p_children p) < 2 \<or> length (p_children p) > MaxClausesPerPredicate then Inl ErrMalformed
         else each (validate (depth + 1)) (p_children p))
      else if p_op p = OpNOT then
        (if length (p_children p) \<noteq> 1 then Inl ErrMalformed else validate (depth + 1) (p_children p ! 0))
      else validate_leaf p)"
  by pat_completeness auto
termination
  by (relation "measure (\<lambda>(d, q). case q of None \<Rightarrow> 0 | Some p \<Rightarrow> Suc (size p))")
    (auto split: option.splits intro: child_size first_child_size)

definition Validate :: "predicate option \<Rightarrow> tsir_err + unit" where
  "Validate p = validate 0 p"

section \<open>Glob patterns\<close>

text \<open>A row holds, for each position of the text, whether it is reachable. The three functions are the three loops
  over the positions: for \<open>**\<close>, for \<open>*\<close> (whose run ends at each slash) and for a single byte.\<close>

fun cross_row :: "bool \<Rightarrow> bool list \<Rightarrow> bool list" where
  "cross_row seen [] = []"
| "cross_row seen (c # cur) = (seen \<or> c) # cross_row (seen \<or> c) cur"

fun segment_from :: "bool \<Rightarrow> string \<Rightarrow> bool list \<Rightarrow> bool list" where
  "segment_from live (ch # s) (c # cur) =
     (let live' = (if ch = CHR ''/'' then False else live) \<or> c in live' # segment_from live' s cur)"
| "segment_from live s cur = []"

fun segment_row :: "string \<Rightarrow> bool list \<Rightarrow> bool list" where
  "segment_row s [] = []"
| "segment_row s (c # cur) = c # segment_from c s cur"

definition byte_row :: "char \<Rightarrow> string \<Rightarrow> bool list \<Rightarrow> bool list" where
  "byte_row c s cur = False # map2 (\<lambda>reach ch. reach \<and> ch = c) cur s"

function glob_loop :: "string \<Rightarrow> string \<Rightarrow> bool list \<Rightarrow> bool list" where
  "glob_loop [] s cur = cur"
| "glob_loop (c # pat) s cur =
     (if c = CHR ''*'' then
        (if take 1 pat = ''*'' then glob_loop (dropWhile (\<lambda>c. c = CHR ''/'') (drop 1 pat)) s (cross_row False cur)
         else glob_loop pat s (segment_row s cur))
      else glob_loop pat s (byte_row c s cur))"
  by pat_completeness auto
termination
proof (relation "measure (\<lambda>(pat, s, cur). length pat)")
  fix c :: char and pat s :: string and cur
  have "length (dropWhile (\<lambda>c. c = CHR ''/'') (drop 1 pat)) \<le> length (drop 1 pat)" by (rule length_dropWhile_le)
  then show "((dropWhile (\<lambda>c. c = CHR ''/'') (drop 1 pat), s, cross_row False cur), (c # pat, s, cur))
      \<in> measure (\<lambda>(pat, s, cur). length pat)" by auto
qed auto

definition globMatch :: "string \<Rightarrow> string \<Rightarrow> bool" where
  "globMatch pat s = last (glob_loop pat s (True # replicate (length s) False))"

section \<open>Evaluation\<close>

text \<open>\<open>a < b\<close> on two \<open>float64\<close>: false when either is a NaN; otherwise the order of the sign-magnitude integers their
  bits are, which puts the two zeros together and the infinities at the ends.\<close>

definition f64_nan :: "f64 \<Rightarrow> bool" where
  "f64_nan w \<longleftrightarrow> take_bit 63 w > 0x7FF0000000000000"

definition f64_key :: "f64 \<Rightarrow> int" where
  "f64_key w = (if bit w 63 then - uint (take_bit 63 w) else uint (take_bit 63 w))"

definition f64_less :: "f64 \<Rightarrow> f64 \<Rightarrow> bool" where
  "f64_less a b \<longleftrightarrow> \<not> f64_nan a \<and> \<not> f64_nan b \<and> f64_key a < f64_key b"

definition f64_eq :: "f64 \<Rightarrow> f64 \<Rightarrow> bool" where
  "f64_eq a b \<longleftrightarrow> \<not> f64_nan a \<and> \<not> f64_nan b \<and> f64_key a = f64_key b"

definition cmp :: "f64 \<Rightarrow> int \<Rightarrow> f64 \<Rightarrow> bool" where
  "cmp a op b =
     (if op = CmpLT then f64_less a b
      else if op = CmpLE then f64_less a b \<or> f64_eq a b
      else if op = CmpEQ then f64_eq a b
      else if op = CmpGE then f64_less b a \<or> f64_eq a b
      else if op = CmpGT then f64_less b a
      else False)"

text \<open>\<open>strings.Split\<close> on one character.\<close>

fun splitOn :: "char \<Rightarrow> string \<Rightarrow> string list" where
  "splitOn d [] = [[]]"
| "splitOn d (c # s) = (if c = d then [] # splitOn d s else (c # hd (splitOn d s)) # tl (splitOn d s))"

definition trimSuffix :: "string \<Rightarrow> string \<Rightarrow> string" where
  "trimSuffix s suf = (if length suf \<le> length s \<and> drop (length s - length suf) s = suf then take (length s - length suf) s else s)"

definition hasPrefix :: "string \<Rightarrow> string \<Rightarrow> bool" where
  "hasPrefix s q \<longleftrightarrow> take (length q) s = q"

definition matchResource :: "resource_match \<Rightarrow> string \<Rightarrow> bool" where
  "matchResource m i =
     (if rm_kind m = MatchGlob then globMatch (rm_val m) i
      else if rm_kind m = MatchPrefix then hasPrefix i (trimSuffix (rm_val m) ''/'')
      else if rm_kind m = MatchSet then list_ex (\<lambda>tok. tok = i) (splitOn (CHR '','') (rm_val m))
      else False)"

definition artifact_fits :: "artifact_clause \<Rightarrow> artifact \<Rightarrow> bool" where
  "artifact_fits a art =
     (if \<not> globMatch (ac_path_glob a) (af_path art) then False
      else if (case ac_exists a of None \<Rightarrow> False | Some b \<Rightarrow> \<not> b) then False
      else if (case ac_min_size a of None \<Rightarrow> False | Some m \<Rightarrow> af_size art < m) then False
      else True)"

definition evalArtifact :: "artifact_clause \<Rightarrow> effect_record \<Rightarrow> bool" where
  "evalArtifact a e = list_ex (artifact_fits a) (er_artifacts e)"

text \<open>A leaf; a nil clause panics as soon as the code reads a field of it.\<close>

definition evaluate_leaf :: "effect_record \<Rightarrow> predicate \<Rightarrow> bool option" where
  "evaluate_leaf e p =
     (if p_op p = OpArtifact then
        (case p_artifact p of
           None \<Rightarrow> if er_artifacts e = [] then Some False else None
         | Some a \<Rightarrow> Some (evalArtifact a e))
      else if p_op p = OpTest then
        (case p_test p of
           None \<Rightarrow> if er_tests e = [] then Some False else None
         | Some t \<Rightarrow> Some (case find (\<lambda>r. tr_id r = tc_test_id t) (er_tests e) of
                              None \<Rightarrow> False | Some r \<Rightarrow> tr_status r = tc_expect t))
      else if p_op p = OpThreshold then
        (case p_thresh p of
           None \<Rightarrow> None
         | Some t \<Rightarrow> Some (case er_metrics e (th_metric t) of
                              None \<Rightarrow> False | Some v \<Rightarrow> cmp v (th_op t) (th_value t)))
      else if p_op p = OpScope then
        (case p_scope p of
           None \<Rightarrow> if er_effects e = [] then Some False else None
         | Some s \<Rightarrow> Some (list_ex (\<lambda>f. ef_verb f = sc_verb s \<and> rr_kind (ef_resource f) = sc_kind s
                              \<and> matchResource (sc_match s) (rr_id (ef_resource f))) (er_effects e)))
      else Some False)"

text \<open>The loops of \<open>AND\<close> and \<open>OR\<close>, which stop at the first child that decides.\<close>

fun until :: "bool \<Rightarrow> ('a \<Rightarrow> bool option) \<Rightarrow> 'a list \<Rightarrow> bool option" where
  "until stop f [] = Some (\<not> stop)"
| "until stop f (x # xs) =
     (case f x of None \<Rightarrow> None | Some b \<Rightarrow> if b = stop then Some stop else until stop f xs)"

lemma until_cong [fundef_cong]:
  "stop = stop' \<Longrightarrow> xs = ys \<Longrightarrow> (\<And>x. x \<in> set ys \<Longrightarrow> f x = g x) \<Longrightarrow> until stop f xs = until stop' g ys"
  by (induction xs arbitrary: ys) (auto split: option.splits)

function Evaluate :: "effect_record \<Rightarrow> predicate option \<Rightarrow> bool option" where
  "Evaluate e None = None"
| "Evaluate e (Some p) =
     (if p_op p = OpAND then until False (Evaluate e) (p_children p)
      else if p_op p = OpOR then until True (Evaluate e) (p_children p)
      else if p_op p = OpNOT then
        (case p_children p of [] \<Rightarrow> None | c # _ \<Rightarrow> map_option Not (Evaluate e c))
      else evaluate_leaf e p)"
  by pat_completeness auto
termination
  by (relation "measure (\<lambda>(e, q). case q of None \<Rightarrow> 0 | Some p \<Rightarrow> Suc (size p))")
    (auto split: option.splits intro: child_size)

datatype scope_verdict = ScopeOK | ScopeViolation

definition EvaluateScope :: "predicate option \<Rightarrow> effect_record \<Rightarrow> scope_verdict option" where
  "EvaluateScope negative committed =
     (case negative of
        None \<Rightarrow> Some ScopeOK
      | Some p \<Rightarrow> map_option (\<lambda>b. if b then ScopeViolation else ScopeOK) (Evaluate committed (Some p)))"

end
