(* ===== verification/Tsir_Props.thy ===== *)
theory Tsir_Props
  imports Tsir
begin

text \<open>
  What the predicate calculus guarantees: the glob matcher is the declarative matching relation, and a
  predicate that passed the check evaluates, without a panic, to its meaning.
\<close>

section \<open>The glob dialect\<close>

text \<open>The dialect as the comment on \<open>globMatch\<close> states it: a pattern is a list of tokens, and a text matches when it
  splits into pieces the tokens accept.\<close>

datatype glob_token = Cross | Segment | Byte char

function tokenize :: "string \<Rightarrow> glob_token list" where
  "tokenize [] = []"
| "tokenize (c # pat) =
     (if c = CHR ''*'' then
        (if take 1 pat = ''*'' then Cross # tokenize (dropWhile (\<lambda>c. c = CHR ''/'') (drop 1 pat))
         else Segment # tokenize pat)
      else Byte c # tokenize pat)"
  by pat_completeness auto
termination
proof (relation "measure length")
  fix c :: char and pat :: string
  have "length (dropWhile (\<lambda>c. c = CHR ''/'') (drop 1 pat)) \<le> length (drop 1 pat)" by (rule length_dropWhile_le)
  then show "(dropWhile (\<lambda>c. c = CHR ''/'') (drop 1 pat), c # pat) \<in> measure length" by auto
qed auto

fun token_accepts :: "glob_token \<Rightarrow> string \<Rightarrow> bool" where
  "token_accepts Cross w = True"
| "token_accepts Segment w = (CHR ''/'' \<notin> set w)"
| "token_accepts (Byte c) w = (w = [c])"

fun glob_matches :: "glob_token list \<Rightarrow> string \<Rightarrow> bool" where
  "glob_matches [] s = (s = [])"
| "glob_matches (t # ts) s = (\<exists>i \<le> length s. token_accepts t (take i s) \<and> glob_matches ts (drop i s))"

fun token_row :: "glob_token \<Rightarrow> string \<Rightarrow> bool list \<Rightarrow> bool list" where
  "token_row Cross s cur = cross_row False cur"
| "token_row Segment s cur = segment_row s cur"
| "token_row (Byte c) s cur = byte_row c s cur"

lemma ex_le_Suc: "(\<exists>j \<le> Suc k. P j) \<longleftrightarrow> P 0 \<or> (\<exists>j \<le> k. P (Suc j))"
proof
  assume "\<exists>j \<le> Suc k. P j"
  then obtain j where "j \<le> Suc k" "P j" by blast
  then show "P 0 \<or> (\<exists>j \<le> k. P (Suc j))" by (cases j) auto
qed (auto intro: exI [of _ 0] exI [of _ "Suc _"])

lemma length_cross_row [simp]: "length (cross_row seen cur) = length cur"
  by (induction seen cur rule: cross_row.induct) auto

lemma length_segment_from: "length s = length cur \<Longrightarrow> length (segment_from live s cur) = length cur"
  by (induction live s cur rule: segment_from.induct) (auto simp: Let_def)

lemma length_token_row: "length cur = Suc (length s) \<Longrightarrow> length (token_row t s cur) = Suc (length s)"
  by (cases t; cases cur) (auto simp: length_segment_from byte_row_def)

lemma nth_cross_row: "k < length cur \<Longrightarrow> cross_row seen cur ! k \<longleftrightarrow> seen \<or> (\<exists>j \<le> k. cur ! j)"
proof (induction cur arbitrary: seen k)
  case (Cons c cur)
  show ?case
  proof (cases k)
    case (Suc k')
    have "(\<exists>j \<le> Suc k'. (c # cur) ! j) \<longleftrightarrow> c \<or> (\<exists>j \<le> k'. cur ! j)"
      by (simp add: ex_le_Suc)
    then show ?thesis using Cons Suc by auto
  qed simp
qed simp

lemma nth_segment_from:
  assumes "length s = length cur" and "k < length cur"
  shows "segment_from live s cur ! k \<longleftrightarrow> live \<and> CHR ''/'' \<notin> set (take (Suc k) s)
    \<or> (\<exists>j \<le> k. cur ! j \<and> CHR ''/'' \<notin> set (take (k - j) (drop (Suc j) s)))"
  using assms
proof (induction live s cur arbitrary: k rule: segment_from.induct)
  case (1 live ch s c cur)
  let ?live = "(if ch = CHR ''/'' then False else live) \<or> c"
  show ?case
  proof (cases k)
    case (Suc k')
    have "segment_from live (ch # s) (c # cur) ! k \<longleftrightarrow> ?live \<and> CHR ''/'' \<notin> set (take k s)
        \<or> (\<exists>j \<le> k'. cur ! j \<and> CHR ''/'' \<notin> set (take (k' - j) (drop (Suc j) s)))"
      using 1 Suc by (auto simp: Let_def)
    moreover have "(\<exists>j \<le> k. (c # cur) ! j \<and> CHR ''/'' \<notin> set (take (k - j) (drop (Suc j) (ch # s))))
        \<longleftrightarrow> c \<and> CHR ''/'' \<notin> set (take k s) \<or> (\<exists>j \<le> k'. cur ! j \<and> CHR ''/'' \<notin> set (take (k' - j) (drop (Suc j) s)))"
      unfolding Suc by (simp add: ex_le_Suc)
    ultimately show ?thesis using Suc by auto
  qed (auto simp: Let_def)
qed auto

lemma nth_token_row:
  assumes "length cur = Suc (length s)" and "k \<le> length s"
  shows "token_row t s cur ! k \<longleftrightarrow> (\<exists>j \<le> k. cur ! j \<and> token_accepts t (take (k - j) (drop j s)))"
proof (cases t)
  case Cross
  then show ?thesis using assms by (simp add: nth_cross_row)
next
  case Segment
  obtain c cur' where c: "cur = c # cur'" using assms(1) by (cases cur) auto
  show ?thesis
  proof (cases k)
    case (Suc k')
    have "(\<exists>j \<le> k. cur ! j \<and> CHR ''/'' \<notin> set (take (k - j) (drop j s)))
       \<longleftrightarrow> c \<and> CHR ''/'' \<notin> set (take k s) \<or> (\<exists>j \<le> k'. cur' ! j \<and> CHR ''/'' \<notin> set (take (k' - j) (drop (Suc j) s)))"
      unfolding Suc c by (simp add: ex_le_Suc)
    then show ?thesis using assms c Suc Segment by (simp add: nth_segment_from)
  qed (use c Segment in simp)
next
  case (Byte c)
  show ?thesis
  proof (cases k)
    case 0
    then show ?thesis using Byte by (simp add: byte_row_def)
  next
    case (Suc k')
    have "take (k - j) (drop j s) = [c] \<longleftrightarrow> j = k' \<and> s ! k' = c" if "j \<le> k" for j
    proof -
      have len: "length (take (k - j) (drop j s)) = k - j" using assms(2) that by simp
      show ?thesis
      proof (cases "j = k'")
        case True
        then have "take (k - j) (drop j s) = [s ! k']" using assms(2) Suc by (simp add: take_Suc_conv_app_nth take_Suc hd_drop_conv_nth)
        then show ?thesis using True by simp
      next
        case False
        then have "k - j \<noteq> 1" using that Suc by linarith
        then have "length (take (k - j) (drop j s)) \<noteq> length [c]" unfolding len by simp
        then have "take (k - j) (drop j s) \<noteq> [c]" by metis
        then show ?thesis using False by blast
      qed
    qed
    then have "(\<exists>j \<le> k. cur ! j \<and> take (k - j) (drop j s) = [c]) \<longleftrightarrow> (\<exists>j \<le> k. cur ! j \<and> j = k' \<and> s ! k' = c)"
      by blast
    also have "\<dots> \<longleftrightarrow> cur ! k' \<and> s ! k' = c" using Suc by auto
    finally have "(\<exists>j \<le> k. cur ! j \<and> take (k - j) (drop j s) = [c]) \<longleftrightarrow> cur ! k' \<and> s ! k' = c" .
    moreover have "byte_row c s cur ! k \<longleftrightarrow> cur ! k' \<and> s ! k' = c" using assms Suc by (simp add: byte_row_def)
    ultimately show ?thesis using Byte by simp
  qed
qed

lemma token_step:
  assumes "length cur = Suc (length s)"
  shows "(\<exists>k \<le> length s. token_row t s cur ! k \<and> glob_matches ts (drop k s))
    \<longleftrightarrow> (\<exists>j \<le> length s. cur ! j \<and> glob_matches (t # ts) (drop j s))"
proof
  assume "\<exists>k \<le> length s. token_row t s cur ! k \<and> glob_matches ts (drop k s)"
  then obtain k j where "k \<le> length s" "glob_matches ts (drop k s)" "j \<le> k" "cur ! j" "token_accepts t (take (k - j) (drop j s))"
    using nth_token_row [OF assms] by metis
  then have "j \<le> length s \<and> cur ! j \<and> (k - j \<le> length (drop j s) \<and> token_accepts t (take (k - j) (drop j s))
      \<and> glob_matches ts (drop (k - j) (drop j s)))" by simp
  then show "\<exists>j \<le> length s. cur ! j \<and> glob_matches (t # ts) (drop j s)" unfolding glob_matches.simps by blast
next
  assume "\<exists>j \<le> length s. cur ! j \<and> glob_matches (t # ts) (drop j s)"
  then obtain j i where ji: "j \<le> length s" "cur ! j" "i \<le> length (drop j s)" "token_accepts t (take i (drop j s))"
    "glob_matches ts (drop i (drop j s))" by auto
  then have "j + i \<le> length s" "j \<le> j + i" "token_accepts t (take (j + i - j) (drop j s))" by auto
  then have "token_row t s cur ! (j + i)" using nth_token_row [OF assms] ji(2) by blast
  moreover have "glob_matches ts (drop (j + i) s)" using ji(5) by (simp add: add.commute)
  ultimately show "\<exists>k \<le> length s. token_row t s cur ! k \<and> glob_matches ts (drop k s)" using \<open>j + i \<le> length s\<close> by blast
qed

lemma glob_loop_matches:
  assumes "length cur = Suc (length s)"
  shows "last (glob_loop pat s cur) \<longleftrightarrow> (\<exists>j \<le> length s. cur ! j \<and> glob_matches (tokenize pat) (drop j s))"
  using assms
proof (induction pat s cur rule: glob_loop.induct)
  case (1 s cur)
  then have "last cur = cur ! length s" by (cases cur rule: rev_cases) (auto simp: nth_append)
  moreover have "drop j s = [] \<longleftrightarrow> j = length s" if "j \<le> length s" for j using that by auto
  ultimately show ?case by (auto simp del: drop_eq_Nil)
next
  case (2 c pat s cur)
  have step: "last (glob_loop p s (token_row t s cur)) \<longleftrightarrow> (\<exists>j \<le> length s. cur ! j \<and> glob_matches (t # tokenize p) (drop j s))"
    if "length (token_row t s cur) = Suc (length s) \<Longrightarrow> last (glob_loop p s (token_row t s cur))
      \<longleftrightarrow> (\<exists>j \<le> length s. token_row t s cur ! j \<and> glob_matches (tokenize p) (drop j s))" for t p
    using that [OF length_token_row [OF 2(4)]] token_step [OF 2(4)] by simp
  show ?case
  proof (cases "c = CHR ''*''")
    case False
    have "last (glob_loop (c # pat) s cur) = last (glob_loop pat s (token_row (Byte c) s cur))" using False by simp
    moreover have "tokenize (c # pat) = Byte c # tokenize pat" using False by simp
    ultimately show ?thesis using step [of "Byte c" pat] 2(3) False by simp
  next
    case star: True
    show ?thesis
    proof (cases "take 1 pat = ''*''")
      case True
      let ?p = "dropWhile (\<lambda>c. c = CHR ''/'') (drop 1 pat)"
      have "glob_loop (c # pat) s cur = glob_loop ?p s (token_row Cross s cur)"
        and "tokenize (c # pat) = Cross # tokenize ?p" by (simp_all only: glob_loop.simps tokenize.simps star True refl if_True token_row.simps)
      then show ?thesis using step [of Cross ?p] 2(1) [OF star True] by simp
    next
      case False
      have "glob_loop (c # pat) s cur = glob_loop pat s (token_row Segment s cur)"
        and "tokenize (c # pat) = Segment # tokenize pat" by (simp_all only: glob_loop.simps tokenize.simps star False refl if_True if_False token_row.simps)
      then show ?thesis using step [of Segment pat] 2(2) [OF star False] by simp
    qed
  qed
qed

text \<open>C17: the glob matcher, which carries the set of reachable positions along the pattern, accepts a text exactly
  when the text splits into one piece per token of the pattern: anything for \<open>**\<close> (which swallows the slashes
  after it in the pattern), anything without a slash for \<open>*\<close>, and the byte itself for any other byte.\<close>

theorem globMatch_matches: "globMatch pat s \<longleftrightarrow> glob_matches (tokenize pat) s"
proof -
  have "(True # replicate (length s) False) ! j \<longleftrightarrow> j = 0" if "j \<le> length s" for j using that by (cases j) auto
  then have "(\<exists>j \<le> length s. (True # replicate (length s) False) ! j \<and> glob_matches (tokenize pat) (drop j s))
      \<longleftrightarrow> glob_matches (tokenize pat) s" by auto
  then show ?thesis by (simp add: globMatch_def glob_loop_matches)
qed

section \<open>Validated predicates\<close>

text \<open>What a predicate means: a set-theoretic reading with no order of evaluation, and no case for a missing part.\<close>

definition leaf_meaning :: "effect_record \<Rightarrow> predicate \<Rightarrow> bool" where
  "leaf_meaning e p =
     (if p_op p = OpArtifact then \<exists>art \<in> set (er_artifacts e). artifact_fits (the (p_artifact p)) art
      else if p_op p = OpTest then
        (case find (\<lambda>r. tr_id r = tc_test_id (the (p_test p))) (er_tests e) of
           None \<Rightarrow> False | Some r \<Rightarrow> tr_status r = tc_expect (the (p_test p)))
      else if p_op p = OpThreshold then
        (\<exists>v. er_metrics e (th_metric (the (p_thresh p))) = Some v \<and> cmp v (th_op (the (p_thresh p))) (th_value (the (p_thresh p))))
      else \<exists>f \<in> set (er_effects e). ef_verb f = sc_verb (the (p_scope p)) \<and> rr_kind (ef_resource f) = sc_kind (the (p_scope p))
             \<and> matchResource (sc_match (the (p_scope p))) (rr_id (ef_resource f)))"

lemma the_child_size: "c \<in> set (p_children p) \<Longrightarrow> c \<noteq> None \<Longrightarrow> size (the c) < size p"
  using child_size [of "the c" p] by auto

function meaning :: "effect_record \<Rightarrow> predicate \<Rightarrow> bool" where
  "meaning e p =
     (let cs = [the c. c \<leftarrow> p_children p, c \<noteq> None] in
      if p_op p = OpAND then \<forall>c \<in> set cs. meaning e c
      else if p_op p = OpOR then \<exists>c \<in> set cs. meaning e c
      else if p_op p = OpNOT then \<not> (\<exists>c \<in> set cs. meaning e c)
      else leaf_meaning e p)"
  by pat_completeness auto
termination
  by (relation "measure (\<lambda>(e, p). size p)") (auto dest: child_size)

declare meaning.simps [simp del]

fun depth_of :: "nat \<Rightarrow> predicate \<Rightarrow> bool" where
  "depth_of 0 p = False"
| "depth_of (Suc n) p \<longleftrightarrow>
     (if p_op p \<in> {OpAND, OpOR, OpNOT}
      then length (p_children p) \<le> MaxClausesPerPredicate \<and> (\<forall>c \<in> set (p_children p). \<exists>q. c = Some q \<and> depth_of n q)
      else True)"

lemma until_ok:
  assumes "\<And>x. x \<in> set xs \<Longrightarrow> f x = Some (g x)"
  shows "until stop f xs = Some (if \<exists>x \<in> set xs. g x = stop then stop else \<not> stop)"
  using assms by (induction xs) auto

lemma leaf_ok: "validate_leaf p = Inr u \<Longrightarrow> evaluate_leaf e p = Some (leaf_meaning e p)"
  by (auto simp: validate_leaf_def evaluate_leaf_def leaf_meaning_def evalArtifact_def list_ex_iff
      split: if_splits option.splits)

lemma validate_depth: "validate d q = Inr u \<Longrightarrow> \<exists>p. q = Some p \<and> d \<le> MaxPredicateDepth
    \<and> depth_of (Suc MaxPredicateDepth - d) p"
proof (induction d q arbitrary: u rule: validate.induct)
  case (2 d p)
  have d: "d \<le> MaxPredicateDepth" using 2(3) by (simp split: if_splits)
  then have n: "Suc MaxPredicateDepth - d = Suc (MaxPredicateDepth - d)" "Suc MaxPredicateDepth - (d + 1) = MaxPredicateDepth - d"
    by auto
  show ?case
  proof (cases "p_op p = OpAND \<or> p_op p = OpOR")
    case True
    then have "length (p_children p) \<le> MaxClausesPerPredicate" "\<forall>c \<in> set (p_children p). validate (d + 1) c = Inr ()"
      and nn: "\<not> d > MaxPredicateDepth" "\<not> (length (p_children p) < 2 \<or> length (p_children p) > MaxClausesPerPredicate)"
      using 2(3) by (auto simp: each_ok split: if_splits)
    then show ?thesis using 2(1) [OF nn(1) True nn(2)] True d unfolding n by fastforce
  next
    case False
    show ?thesis
    proof (cases "p_op p = OpNOT")
      case True
      then have l: "length (p_children p) = 1" and v: "validate (d + 1) (p_children p ! 0) = Inr u"
        using 2(3) False by (auto split: if_splits)
      have c: "set (p_children p) = {p_children p ! 0}" using l by (cases "p_children p") auto
      have nn: "\<not> d > MaxPredicateDepth" "\<not> length (p_children p) \<noteq> 1" using d l by auto
      show ?thesis using 2(2) [OF nn(1) False True nn(2) v] True d c l unfolding n
        by (auto simp: MaxClausesPerPredicate_def)
    next
      case no: False
      then show ?thesis using False d unfolding n by simp
    qed
  qed
qed simp

lemma evaluate_meaning:
  "validate d q = Inr u \<Longrightarrow> Evaluate e q = Some (meaning e (the q))"
proof (induction d q arbitrary: u rule: validate.induct)
  case (2 d p)
  let ?cs = "[the c. c \<leftarrow> p_children p, c \<noteq> None]"
  have nn: "\<not> d > MaxPredicateDepth" using 2(3) by (simp split: if_splits)
  consider (conn) "p_op p = OpAND \<or> p_op p = OpOR" | (neg) "p_op p = OpNOT" | (leaf) "p_op p \<notin> {OpAND, OpOR, OpNOT}" by blast
  then show ?case
  proof cases
    case conn
    then have len: "\<not> (length (p_children p) < 2 \<or> length (p_children p) > MaxClausesPerPredicate)"
      and v: "\<forall>c \<in> set (p_children p). validate (d + 1) c = Inr ()"
      using 2(3) by (auto simp: each_ok split: if_splits)
    have ev: "Evaluate e c = Some (meaning e (the c))" if "c \<in> set (p_children p)" for c
      using 2(1) [OF nn conn len that] v that by blast
    have some: "\<forall>c \<in> set (p_children p). c \<noteq> None" using v validate_depth by fastforce
    then have "set ?cs = the ` set (p_children p)" by force
    then show ?thesis
      using conn until_ok [where f = "Evaluate e" and g = "\<lambda>c. meaning e (the c)", OF ev] op_codes
      by (auto simp: meaning.simps [of e p])
  next
    case neg
    then have len: "\<not> length (p_children p) \<noteq> 1" and v: "validate (d + 1) (p_children p ! 0) = Inr u"
      using 2(3) op_codes by (auto split: if_splits)
    obtain c where c: "p_children p = [c]" using len by (cases "p_children p") auto
    have "\<not> (p_op p = OpAND \<or> p_op p = OpOR)" using neg by (simp add: op_codes)
    then have "Evaluate e c = Some (meaning e (the c))" using 2(2) [OF nn _ neg len v] c by simp
    moreover have "c \<noteq> None" using v c validate_depth by fastforce
    ultimately show ?thesis using neg c by (simp add: op_codes meaning.simps [of e p])
  next
    case leaf
    then have "validate_leaf p = Inr u" using 2(3) by (simp split: if_splits)
    then show ?thesis using leaf leaf_ok by (simp add: meaning.simps [of e p])
  qed
qed simp

text \<open>C18: a predicate that passed \<open>Validate\<close> evaluates on every effect record without a panic, to its meaning, which
  knows no order of evaluation; it is at most 17 levels deep, with at most 64 children at each node.\<close>

theorem validated_evaluates:
  assumes "Validate q = Inr u"
  shows "\<exists>p. q = Some p \<and> Evaluate e q = Some (meaning e p) \<and> depth_of (Suc MaxPredicateDepth) p"
  using evaluate_meaning validate_depth assms unfolding Validate_def by fastforce

definition demo_leaf :: predicate where
  "demo_leaf = Predicate OpArtifact [] (Some \<lparr>ac_path_glob = ''src/**'', ac_exists = None, ac_min_size = Some 10,
     ac_schema_ref = [], ac_contains = []\<rparr>) None None None"

definition demo_predicate :: predicate where
  "demo_predicate = Predicate OpNOT [Some demo_leaf] None None None None"

definition demo_record :: effect_record where
  "demo_record = \<lparr>er_artifacts = [\<lparr>af_path = ''src/a/b'', af_size = 10, af_content_cid = [], af_media_type = []\<rparr>],
     er_tests = [], er_metrics = Map.empty, er_resources = [], er_effects = []\<rparr>"

theorem validated_evaluates_witness: "\<exists>b. Evaluate demo_record (Some demo_predicate) = Some b"
proof -
  have "Validate (Some demo_predicate) = Inr ()"
    by (simp add: Validate_def demo_predicate_def demo_leaf_def op_codes validate_leaf_def MaxPredicateDepth_def)
  from validated_evaluates [OF this] show ?thesis by blast
qed

end
