(* ===== verification/Kel_Extend.thy ===== *)
theory Kel_Extend
  imports Kel_Props
begin

text \<open>
  Updating a held log (\<open>identity/extend.go\<close>, and \<open>MergedEmergency\<close> of \<open>identity/notice.go\<close>): which
  longer logs are taken, which new events are in time, and which merges drop capabilities. A store that
  only ever takes what \<open>ExtendsKEL\<close> accepts is a \<open>machine\<close> whose invariant is that no event is lost.
\<close>

datatype extend_err =
    DoesNotReplay kel_err | KnownDoesNotEncode | CandidateDoesNotEncode
  | ErrKELFork | ErrKELRollback | ErrEventFromFuture | ErrEventTooOld

fun compare_events :: "crypto \<Rightarrow> signed_event list \<Rightarrow> signed_event list \<Rightarrow> extend_err + unit" where
  "compare_events C (a # as) (b # bs) =
     (case enc_event C (se_event a) of
        None \<Rightarrow> Inl KnownDoesNotEncode
      | Some x \<Rightarrow>
          (case enc_event C (se_event b) of
             None \<Rightarrow> Inl CandidateDoesNotEncode
           | Some y \<Rightarrow> if x \<noteq> y then Inl ErrKELFork else compare_events C as bs))"
| "compare_events C as bs = Inr ()"

definition ExtendsKEL :: "crypto \<Rightarrow> signed_event list \<Rightarrow> signed_event list \<Rightarrow> extend_err + unit" where
  "ExtendsKEL C old next =
     (case replay C next of
        Inl e \<Rightarrow> Inl (DoesNotReplay e)
      | Inr _ \<Rightarrow>
          (let n = (if length next < length old then length next else length old) in
           ebind (compare_events C (take n old) (take n next)) (\<lambda>_.
             if length next < length old then Inl ErrKELRollback else Inr ())))"

fun check_new :: "(key_event \<Rightarrow> bool) option \<Rightarrow> u64 \<Rightarrow> signed_event list \<Rightarrow> extend_err + unit" where
  "check_new isFirstWitness now [] = Inr ()"
| "check_new isFirstWitness now (se # rest) =
     (let e = se_event se in
      if ke_ts e > now \<and> ke_ts e - now > EventClockWindow then Inl ErrEventFromFuture
      else if (case isFirstWitness of None \<Rightarrow> False | Some f \<Rightarrow> f e) \<and> ke_ts e < now \<and> now - ke_ts e > EventClockWindow
      then Inl ErrEventTooOld
      else check_new isFirstWitness now rest)"

definition CheckNewEvents ::
  "signed_event list \<Rightarrow> signed_event list \<Rightarrow> u64 \<Rightarrow> (key_event \<Rightarrow> bool) option \<Rightarrow> extend_err + unit" where
  "CheckNewEvents old next now isFirstWitness = check_new isFirstWitness now (drop (length old) next)"

definition MergedEmergency :: "signed_event list \<Rightarrow> signed_event list \<Rightarrow> bool" where
  "MergedEmergency old next =
     list_ex (\<lambda>se. ke_type (se_event se) = Rotation \<and> ke_emergency (se_event se)) (drop (length old) next)"

section \<open>ExtendsKEL\<close>

text \<open>\<open>same_events\<close> compares two logs of one length by the bytes of their events.\<close>

definition same_events :: "crypto \<Rightarrow> signed_event list \<Rightarrow> signed_event list \<Rightarrow> bool" where
  "same_events C = list_all2 (\<lambda>a b. enc_event C (se_event a) \<noteq> None \<and> enc_event C (se_event a) = enc_event C (se_event b))"

lemma compare_events_ok:
  "length as = length bs \<Longrightarrow> compare_events C as bs = Inr u \<longleftrightarrow> same_events C as bs"
  by (induction C as bs rule: compare_events.induct) (auto simp: same_events_def split: option.splits)

lemma ExtendsKEL_ok:
  "ExtendsKEL C old next = Inr () \<longleftrightarrow>
     kel_valid C next \<and> length old \<le> length next \<and> same_events C old (take (length old) next)"
proof (cases "replay C next")
  case (Inl e)
  then show ?thesis using replay_Inl_iff [of C "next"] by (auto simp: ExtendsKEL_def)
next
  case (Inr s)
  then have "kel_valid C next" by (simp add: replay_iff)
  then show ?thesis using Inr
    by (cases "length next < length old") (simp_all add: ExtendsKEL_def Let_def ebind_Inr_iff compare_events_ok)
qed

lemma same_events_refl: "\<forall>se \<in> set kel. enc_event C (se_event se) \<noteq> None \<Longrightarrow> same_events C kel kel"
  by (auto simp: same_events_def list_all2_conv_all_nth)

text \<open>C10: \<open>ExtendsKEL\<close> accepts a log exactly when it replays, is at least as long as the stored one and
  begins with the same event bytes. It calls every other log that replays a fork when some shared event
  differs, and a rollback only when all shared events agree.\<close>

theorem ExtendsKEL_spec:
  assumes "\<forall>se \<in> set old. enc_event C (se_event se) \<noteq> None"
  shows "(ExtendsKEL C old next = Inr () \<longleftrightarrow>
      kel_valid C next \<and> length old \<le> length next \<and> same_events C old (take (length old) next))
    \<and> (ExtendsKEL C old next = Inl ErrKELRollback \<longleftrightarrow>
      kel_valid C next \<and> length next < length old \<and> same_events C (take (length next) old) next)
    \<and> (ExtendsKEL C old next = Inl ErrKELFork \<longleftrightarrow>
      kel_valid C next \<and> (\<exists>i < min (length old) (length next). enc_event C (evt old i) \<noteq> enc_event C (evt next i)))"
proof (cases "replay C next")
  case (Inl e)
  then have "\<not> kel_valid C next" using replay_Inl_iff by blast
  then show ?thesis using Inl by (simp add: ExtendsKEL_def)
next
  case (Inr s)
  then have v: "kel_valid C next" by (simp add: replay_iff)
  have enc: "enc_event C (se_event se) \<noteq> None" if "se \<in> set next" for se
    using valid_encodes [OF v that] by auto
  have cmp: "compare_events C as bs = (if same_events C as bs then Inr () else Inl ErrKELFork)"
    if "length as = length bs" "\<forall>se \<in> set as. enc_event C (se_event se) \<noteq> None" "set bs \<subseteq> set next" for as bs
    using that
  proof (induction as bs rule: list_induct2)
    case Nil
    then show ?case by (simp add: same_events_def)
  next
    case (Cons a as b bs)
    then show ?case using enc [of b] by (auto simp: same_events_def)
  qed
  let ?n = "min (length old) (length next)"
  have n: "(if length next < length old then length next else length old) = ?n" by simp
  have c: "compare_events C (take ?n old) (take ?n next)
      = (if same_events C (take ?n old) (take ?n next) then Inr () else Inl ErrKELFork)"
    using assms by (intro cmp) (auto dest: in_set_takeD)
  have s: "same_events C (take ?n old) (take ?n next) \<longleftrightarrow> (\<forall>i < ?n. enc_event C (evt old i) = enc_event C (evt next i))"
    using assms by (auto simp: same_events_def list_all2_conv_all_nth)
  have "ExtendsKEL C old next = (if \<not> same_events C (take ?n old) (take ?n next) then Inl ErrKELFork
      else if length next < length old then Inl ErrKELRollback else Inr ())"
    unfolding ExtendsKEL_def Inr Let_def n c by simp
  moreover have "take (length next) next = next" "take (length old) old = old" by simp_all
  ultimately show ?thesis using v s by (auto simp: min_def)
qed

theorem ExtendsKEL_spec_witness:
  "ExtendsKEL demo_crypto demo_kel [demo_icp, demo_rot] = Inl ErrKELRollback
   \<and> ExtendsKEL demo_crypto [demo_icp] demo_kel = Inr ()"
proof -
  have e: "\<forall>se \<in> set kel. enc_event demo_crypto (se_event se) \<noteq> None" for kel
    by (simp add: demo_crypto_def)
  have v: "kel_valid demo_crypto [demo_icp, demo_rot]" "kel_valid demo_crypto demo_kel"
    using replay_demo_prefix demo_valid by (auto simp: replay_iff)
  have r: "same_events demo_crypto (take 2 demo_kel) [demo_icp, demo_rot]" "same_events demo_crypto [demo_icp] (take 1 demo_kel)"
    by (simp_all add: same_events_def demo_kel_def demo_crypto_def)
  show ?thesis
  proof
    show "ExtendsKEL demo_crypto demo_kel [demo_icp, demo_rot] = Inl ErrKELRollback"
      using ExtendsKEL_spec [OF e, of demo_kel "[demo_icp, demo_rot]"] v(1) r(1) by (simp add: demo_kel_def numeral_2_eq_2)
    show "ExtendsKEL demo_crypto [demo_icp] demo_kel = Inr ()"
      using ExtendsKEL_spec [OF e, of "[demo_icp]" demo_kel] v(2) r(2) by (simp add: demo_kel_def)
  qed
qed

section \<open>A store of one log\<close>

text \<open>The use every holder of a log makes of \<open>ExtendsKEL\<close>: what it accepts replaces what is stored.\<close>

definition update_kel :: "crypto \<Rightarrow> signed_event list \<Rightarrow> signed_event list \<Rightarrow> extend_err + signed_event list" where
  "update_kel C old next = ebind (ExtendsKEL C old next) (\<lambda>_. Inr next)"

definition retains :: "crypto \<Rightarrow> signed_event list \<Rightarrow> signed_event list \<Rightarrow> bool" where
  "retains C first kel \<longleftrightarrow> length first \<le> length kel \<and> same_events C first (take (length first) kel)"

lemma same_events_trans: "same_events C as bs \<Longrightarrow> same_events C bs cs \<Longrightarrow> same_events C as cs"
  unfolding same_events_def by (erule list_all2_trans [rotated]) auto

lemma same_events_take: "same_events C as bs \<Longrightarrow> same_events C (take n as) (take n bs)"
  unfolding same_events_def by (rule list_all2_takeI)

lemma retains_step:
  assumes "retains C first old" and "update_kel C old next = Inr next'"
  shows "retains C first next'"
proof -
  have n: "next' = next" "length old \<le> length next" "same_events C old (take (length old) next)"
    using assms(2) by (auto simp: update_kel_def ebind_Inr_iff ExtendsKEL_ok)
  have "same_events C (take (length first) old) (take (length first) next)"
    using same_events_take [OF n(3), of "length first"] assms(1) by (simp add: retains_def min_def)
  then show ?thesis using assms(1) n same_events_trans by (auto simp: retains_def)
qed

interpretation kel_store: machine "update_kel C" "retains C first" for C first
  by unfold_locales (rule retains_step)

text \<open>C6: no rollback. However many updates a holder accepts, starting from any stored log whose events
  encode, the events it held first stay at the same sequence numbers, and after each update what it
  holds replays.\<close>

theorem no_rollback:
  assumes "\<forall>se \<in> set first. enc_event C (se_event se) \<noteq> None"
    and "run (update_kel C) first (updates @ later) = Inr kel"
  shows "\<exists>mid. run (update_kel C) first updates = Inr mid \<and> retains C first mid \<and> retains C mid kel
    \<and> (updates \<noteq> [] \<longrightarrow> kel_valid C mid)"
proof -
  have refl: "retains C k k" if "\<forall>se \<in> set k. enc_event C (se_event se) \<noteq> None" for k
    using that same_events_refl by (simp add: retains_def)
  obtain mid where mid: "run (update_kel C) first updates = Inr mid" "retains C first mid"
    using kel_store.run_prefix_inv [OF refl [OF assms(1)] assms(2)] by blast
  have rest: "run (update_kel C) mid later = Inr kel" using assms(2) mid(1) by (simp add: run_append)
  have v: "kel_valid C mid" if "updates \<noteq> []"
  proof -
    obtain us u where "updates = us @ [u]" using \<open>updates \<noteq> []\<close> by (cases updates rule: rev_cases) auto
    then obtain t where "update_kel C t u = Inr mid" using mid(1) run_snocE by metis
    then show ?thesis by (auto simp: update_kel_def ebind_Inr_iff ExtendsKEL_ok)
  qed
  have "\<forall>se \<in> set mid. enc_event C (se_event se) \<noteq> None"
  proof (cases "updates = []")
    case True
    then show ?thesis using mid(1) assms(1) by simp
  next
    case False
    then show ?thesis using valid_encodes [OF v] by fastforce
  qed
  then have "retains C mid kel" using kel_store.run_inv [OF refl rest] by blast
  then show ?thesis using mid v by blast
qed

theorem no_rollback_witness:
  "\<exists>mid. run (update_kel demo_crypto) [demo_icp] [[demo_icp, demo_rot]] = Inr mid \<and> retains demo_crypto mid demo_kel"
proof -
  have e: "\<forall>se \<in> set kel. enc_event demo_crypto (se_event se) \<noteq> None" for kel
    by (simp add: demo_crypto_def)
  have v: "kel_valid demo_crypto [demo_icp, demo_rot]" "kel_valid demo_crypto demo_kel"
    using replay_demo_prefix demo_valid by (auto simp: replay_iff)
  have "ExtendsKEL demo_crypto [demo_icp] [demo_icp, demo_rot] = Inr ()"
    "ExtendsKEL demo_crypto [demo_icp, demo_rot] demo_kel = Inr ()"
    using v by (simp_all add: ExtendsKEL_ok same_events_def demo_kel_def demo_crypto_def)
  then have "run (update_kel demo_crypto) [demo_icp] ([[demo_icp, demo_rot]] @ [demo_kel]) = Inr demo_kel"
    by (simp add: update_kel_def)
  from no_rollback [OF e this] show ?thesis by blast
qed

section \<open>New events\<close>

lemma check_new_ok:
  "check_new f now ses = Inr () \<longleftrightarrow> (\<forall>se \<in> set ses. unat (ke_ts (se_event se)) \<le> unat now + 300000
     \<and> ((\<exists>g. f = Some g \<and> g (se_event se)) \<longrightarrow> unat now \<le> unat (ke_ts (se_event se)) + 300000))"
proof (induction ses)
  case (Cons se ses)
  have w: "a > b \<and> a - b > EventClockWindow \<longleftrightarrow> \<not> unat a \<le> unat b + 300000" for a b :: u64
    by (cases "b \<le> a") (auto simp: word_less_nat_alt word_le_nat_alt unat_sub_le EventClockWindow_def)
  show ?case
    unfolding check_new.simps Let_def chain_iff Cons.IH
    using w [of "ke_ts (se_event se)" now] w [of now "ke_ts (se_event se)"]
    by (cases f) auto
qed simp

lemma ball_drop: "(\<forall>x \<in> set (drop n xs). P x) \<longleftrightarrow> (\<forall>i. n \<le> i \<and> i < length xs \<longrightarrow> P (xs ! i))"
proof
  assume l: "\<forall>x \<in> set (drop n xs). P x"
  show "\<forall>i. n \<le> i \<and> i < length xs \<longrightarrow> P (xs ! i)"
  proof (intro allI impI)
    fix i assume "n \<le> i \<and> i < length xs"
    then have "xs ! i = drop n xs ! (i - n)" "i - n < length (drop n xs)" by auto
    then show "P (xs ! i)" using l nth_mem by metis
  qed
qed (auto simp: in_set_conv_nth)

text \<open>\<open>CheckNewEvents\<close> accepts an update exactly when every event it adds is at most five minutes
  ahead of the clock and, where the caller is that event's first witness, at most five minutes behind it;
  both bounds are inclusive and computed without wrap-around.\<close>

theorem CheckNewEvents_iff:
  "CheckNewEvents old next now f = Inr () \<longleftrightarrow>
     (\<forall>i. length old \<le> i \<and> i < length next \<longrightarrow> unat (ke_ts (evt next i)) \<le> unat now + 300000
        \<and> ((\<exists>g. f = Some g \<and> g (evt next i)) \<longrightarrow> unat now \<le> unat (ke_ts (evt next i)) + 300000))"
  unfolding CheckNewEvents_def check_new_ok ball_drop ..

theorem CheckNewEvents_iff_witness:
  "CheckNewEvents [demo_icp] demo_kel 0 None = Inr ()"
  unfolding CheckNewEvents_iff by (auto simp: demo_kel_def nth_Cons demo_defs split: nat.splits)

end
