(* ===== verification/Controller.thy ===== *)
theory Controller
  imports Kel_Extend
begin

text \<open>
  The signing side of an identity (\<open>identity/controller.go\<close>, \<open>identity/signer.go\<close>): the controller's
  state as a record, its readers, and its transitions as functions that return the new controller or the
  error. The lock is left out: each method holds it throughout, so a concurrent use is some sequence of
  these functions. A private key is its 64 bytes, the seed followed by the public key, as in Go;
  a nil key is \<open>None\<close>.
\<close>

section \<open>State\<close>

definition StateOK :: string where "StateOK = ''ok''"
definition StateStopped :: string where "StateStopped = ''stopped''"
definition StateDeactivated :: string where "StateDeactivated = ''deactivated''"

definition PendingWitness :: string where "PendingWitness = ''witness''"
definition PendingRot :: string where "PendingRot = ''rot''"
definition PendingDip :: string where "PendingDip = ''dip''"

record witness_push =
  wp_hub_aid :: string
  wp_hub_url :: string
  wp_acked_seq :: u64
  wp_next_try :: u64

record pending =
  p_kind :: string
  p_revealed :: bytes
  p_next :: bytes
  p_hub_url :: string
  p_emergency :: bool
  p_since :: u64
  p_event :: "signed_event option"

record controller =
  c_aid :: string
  c_kel :: "signed_event list"
  c_cur :: "bytes option"
  c_hot :: "bytes option"
  c_pending :: "pending option"
  c_push :: "witness_push list"
  c_state :: string
  c_local_commit :: "bytes option"

record snapshot =
  sn_aid :: string
  sn_seq :: u64
  sn_kel :: "signed_event list"
  sn_key :: "bytes option"

text \<open>The primitives the signing side adds: \<open>ed25519.Sign\<close>, \<open>NewKeyFromSeed\<close>, and the CoreDet
  encoding of a signed event.\<close>

record sign_env =
  cr :: crypto
  ed_sign :: "bytes \<Rightarrow> bytes \<Rightarrow> bytes"
  ed_new :: "bytes \<Rightarrow> bytes"
  enc_signed :: "signed_event \<Rightarrow> bytes option"

definition publicOf :: "bytes \<Rightarrow> bytes" where
  "publicOf k = drop 32 k"

definition seedOf :: "bytes \<Rightarrow> bytes" where
  "seedOf k = take 32 k"

datatype ctl_err =
    Kel kel_err | NoTime | GenerateFailed | PreimageFailed | SumFailed
  | BadIdentityState | DeactivatedAID | ErrEventPending | ErrNothingPending | ErrDiscardRefused
  | ErrRecoveryMismatch | NotAgent | AlreadyDesignated | NoHotKey | DesignatesNoAID | AgentRevealsHot
  | NoHotToReveal | NotPrivateKey | HubNamesWitness | BadNextDigest | MarshalFailed | NotPendingEvent
  | UnknownState | BadLocalCommit | PushWithoutAID

definition lift_kel :: "kel_err + 'a \<Rightarrow> ctl_err + 'a" where
  "lift_kel r = (case r of Inl e \<Rightarrow> Inl (Kel e) | Inr x \<Rightarrow> Inr x)"

section \<open>Readers\<close>

definition built_event :: "controller \<Rightarrow> signed_event option" where
  "built_event c = Option.bind (c_pending c) p_event"

definition kelLocked :: "controller \<Rightarrow> signed_event list" where
  "kelLocked c = (case built_event c of None \<Rightarrow> c_kel c | Some ev \<Rightarrow> c_kel c @ [ev])"

definition signingLocked :: "controller \<Rightarrow> bytes option \<times> u64" where
  "signingLocked c =
     (case c_pending c of
        Some p \<Rightarrow> (case p_event p of
            Some ev \<Rightarrow> (Some (p_revealed p), ke_seq (se_event ev))
          | None \<Rightarrow> (c_cur c, ke_seq (se_event (last (c_kel c)))))
      | None \<Rightarrow> (c_cur c, ke_seq (se_event (last (c_kel c)))))"

definition CurrentSeq :: "controller \<Rightarrow> u64" where
  "CurrentSeq c = snd (signingLocked c)"

definition Sign :: "sign_env \<Rightarrow> controller \<Rightarrow> bytes \<Rightarrow> bytes option \<times> u64" where
  "Sign E c objPreimage =
     (case signingLocked c of
        (None, seq) \<Rightarrow> (None, seq)
      | (Some key, seq) \<Rightarrow> (Some (ed_sign E key objPreimage), seq))"

definition Snapshot :: "controller \<Rightarrow> snapshot" where
  "Snapshot c = \<lparr>sn_aid = c_aid c, sn_seq = snd (signingLocked c), sn_kel = kelLocked c,
     sn_key = fst (signingLocked c)\<rparr>"

definition snapshot_Sign :: "sign_env \<Rightarrow> snapshot \<Rightarrow> bytes \<Rightarrow> bytes option \<times> u64" where
  "snapshot_Sign E s preimage = (map_option (\<lambda>k. ed_sign E k preimage) (sn_key s), sn_seq s)"

definition SeqOf :: "snapshot \<Rightarrow> u64 option" where
  "SeqOf s = (if length (sn_kel s) = 0 then None else Some (ke_seq (se_event (last (sn_kel s)))))"

definition toadLocked :: "controller \<Rightarrow> u64" where
  "toadLocked c = (case ke_toad (se_event (c_kel c ! 0)) of Some t \<Rightarrow> t | None \<Rightarrow> ToadHub)"

section \<open>Inception\<close>

definition icp_event :: "crypto \<Rightarrow> bytes \<Rightarrow> bytes \<Rightarrow> u64 \<Rightarrow> u64 \<Rightarrow> key_event" where
  "icp_event C k0 k1 ts toad = \<lparr>ke_kel_type = KELType, ke_aid = [], ke_seq = 0, ke_prev = [],
     ke_type = Inception, ke_keys = [publicOf k0], ke_next = sha256 C (publicOf k1), ke_threshold = 1,
     ke_ts = ts, ke_witnesses = [], ke_toad = Some toad, ke_emergency = False\<rparr>"

definition inceptWith :: "sign_env \<Rightarrow> bytes \<Rightarrow> bytes \<Rightarrow> u64 \<Rightarrow> u64 \<Rightarrow> ctl_err + controller" where
  "inceptWith E k0 k1 ts toad =
     (let icp = icp_event (cr E) k0 k1 ts toad in
      case enc_event (cr E) icp of
        None \<Rightarrow> Inl PreimageFailed
      | Some pre \<Rightarrow>
          (case cid_sum (cr E) pre of
             None \<Rightarrow> Inl SumFailed
           | Some aid \<Rightarrow>
               let kel = [\<lparr>se_event = icp, se_sig = ed_sign E k0 pre, se_id = aid\<rparr>] in
               ebind (lift_kel (replay (cr E) kel)) (\<lambda>_.
                 Inr \<lparr>c_aid = aid, c_kel = kel, c_cur = Some k0, c_hot = Some k1, c_pending = None,
                      c_push = [], c_state = StateOK, c_local_commit = None\<rparr>)))"

text \<open>\<open>incept\<close> draws the two keys: a failing \<open>GenerateKey\<close> is \<open>None\<close>.\<close>

definition incept :: "sign_env \<Rightarrow> bytes option \<Rightarrow> bytes option \<Rightarrow> u64 \<Rightarrow> u64 \<Rightarrow> ctl_err + controller" where
  "incept E g0 g1 ts toad =
     (if ts = 0 then Inl NoTime
      else case g0 of
        None \<Rightarrow> Inl GenerateFailed
      | Some k0 \<Rightarrow> (case g1 of None \<Rightarrow> Inl GenerateFailed | Some k1 \<Rightarrow> inceptWith E k0 k1 ts toad))"

section \<open>Transitions\<close>

definition canBuildLocked :: "controller \<Rightarrow> ctl_err + unit" where [guards]:
  "canBuildLocked c =
     (if c_state c \<noteq> StateOK then Inl BadIdentityState
      else if ke_type (se_event (last (c_kel c))) = Deactivation then Inl DeactivatedAID
      else if c_pending c \<noteq> None then Inl ErrEventPending
      else Inr ())"

definition revealedLocked :: "sign_env \<Rightarrow> controller \<Rightarrow> bytes option \<Rightarrow> ctl_err + bytes" where [guards]:
  "revealedLocked E c revealed =
     (case revealed of
        None \<Rightarrow> (case c_hot c of
            None \<Rightarrow> Inl NoHotToReveal
          | Some hot \<Rightarrow> if length (c_kel c) \<noteq> 1 then Inl NoHotToReveal else Inr hot)
      | Some k \<Rightarrow>
          if length k \<noteq> 64 then Inl NotPrivateKey
          else if sha256 (cr E) (publicOf k) \<noteq> committedNextDigest (c_kel c) then Inl ErrRecoveryMismatch
          else Inr k)"

definition event_of :: "controller \<Rightarrow> pending \<Rightarrow> string \<Rightarrow> u64 \<Rightarrow> key_event" where
  "event_of c p witness ts =
     (let last = last (c_kel c);
          e = \<lparr>ke_kel_type = KELType, ke_aid = c_aid c, ke_seq = ke_seq (se_event last) + 1, ke_prev = se_id last,
               ke_type = [], ke_keys = [publicOf (p_revealed p)], ke_next = [], ke_threshold = 1, ke_ts = ts,
               ke_witnesses = [], ke_toad = None, ke_emergency = False\<rparr>
      in if p_kind p = PendingDip then e \<lparr>ke_type := Deactivation\<rparr>
         else e \<lparr>ke_type := Rotation, ke_next := p_next p, ke_toad := Some (toadLocked c),
                 ke_emergency := p_emergency p, ke_witnesses := (if witness \<noteq> [] then [witness] else [])\<rparr>)"

definition buildEvent :: "sign_env \<Rightarrow> controller \<Rightarrow> pending \<Rightarrow> string \<Rightarrow> u64 \<Rightarrow> ctl_err + signed_event" where
  "buildEvent E c p witness ts =
     (let e = event_of c p witness ts in
      case enc_event (cr E) e of
        None \<Rightarrow> Inl PreimageFailed
      | Some pre \<Rightarrow>
          (case cid_sum (cr E) pre of
             None \<Rightarrow> Inl SumFailed
           | Some eid \<Rightarrow>
               let ev = \<lparr>se_event = e, se_sig = ed_sign E (p_revealed p) pre, se_id = eid\<rparr> in
               ebind (lift_kel (replay (cr E) (c_kel c @ [ev]))) (\<lambda>_. Inr ev)))"

definition buildLocked ::
  "sign_env \<Rightarrow> controller \<Rightarrow> pending \<Rightarrow> string \<Rightarrow> u64 \<Rightarrow> ctl_err + controller \<times> signed_event" where
  "buildLocked E c p witness ts =
     (if p_kind p \<noteq> PendingDip \<and> length (p_next p) \<noteq> 32 then Inl BadNextDigest
      else ebind (buildEvent E c p witness ts) (\<lambda>ev.
        Inr (c \<lparr>c_pending := Some (p \<lparr>p_event := Some ev\<rparr>)\<rparr>, ev)))"

definition BuildWitnessDesignation ::
  "sign_env \<Rightarrow> controller \<Rightarrow> string \<Rightarrow> bytes \<Rightarrow> u64 \<Rightarrow> ctl_err + controller \<times> signed_event" where
  "BuildWitnessDesignation E c witness nxt ts =
     ebind (canBuildLocked c) (\<lambda>_.
       if toadLocked c \<noteq> ToadAgent then Inl NotAgent
       else if length (c_kel c) \<noteq> 1 then Inl AlreadyDesignated
       else case c_hot c of
         None \<Rightarrow> Inl NoHotKey
       | Some hot \<Rightarrow>
           if \<not> ValidAID witness then Inl DesignatesNoAID
           else buildLocked E c \<lparr>p_kind = PendingWitness, p_revealed = hot, p_next = nxt, p_hub_url = [],
                  p_emergency = False, p_since = ts, p_event = None\<rparr> witness ts)"

definition BuildRotation ::
  "sign_env \<Rightarrow> controller \<Rightarrow> bytes option \<Rightarrow> bytes \<Rightarrow> string \<Rightarrow> bool \<Rightarrow> u64 \<Rightarrow> ctl_err + controller \<times> signed_event" where
  "BuildRotation E c revealed nxt witness emergency ts =
     ebind (canBuildLocked c) (\<lambda>_.
       if revealed = None \<and> toadLocked c = ToadAgent then Inl AgentRevealsHot
       else ebind (revealedLocked E c revealed) (\<lambda>key.
         if toadLocked c = ToadHub \<and> witness \<noteq> [] then Inl HubNamesWitness
         else buildLocked E c \<lparr>p_kind = PendingRot, p_revealed = key, p_next = nxt, p_hub_url = [],
                p_emergency = emergency, p_since = ts, p_event = None\<rparr> witness ts))"

definition BuildDeactivation ::
  "sign_env \<Rightarrow> controller \<Rightarrow> bytes option \<Rightarrow> u64 \<Rightarrow> ctl_err + controller \<times> signed_event" where
  "BuildDeactivation E c revealed ts =
     ebind (canBuildLocked c) (\<lambda>_.
       ebind (revealedLocked E c revealed) (\<lambda>key.
         buildLocked E c \<lparr>p_kind = PendingDip, p_revealed = key, p_next = [], p_hub_url = [],
           p_emergency = False, p_since = ts, p_event = None\<rparr> [] ts))"

definition restamp_witness :: "sign_env \<Rightarrow> controller \<Rightarrow> pending \<Rightarrow> ctl_err + string" where
  "restamp_witness E c p =
     (case p_event p of
        Some ev \<Rightarrow>
          if length (ke_witnesses (se_event ev)) = 1 then Inr (ke_witnesses (se_event ev) ! 0) else Inr []
      | None \<Rightarrow>
          if p_kind p \<noteq> PendingDip \<and> toadLocked c = ToadAgent then
            ebind (lift_kel (replay (cr E) (c_kel c))) (\<lambda>states. Inr (ks_witness (last states)))
          else Inr [])"

definition Restamp :: "sign_env \<Rightarrow> controller \<Rightarrow> u64 \<Rightarrow> ctl_err + controller \<times> signed_event" where
  "Restamp E c ts =
     (case c_pending c of
        None \<Rightarrow> Inl ErrNothingPending
      | Some p \<Rightarrow>
          if c_state c \<noteq> StateOK then Inl BadIdentityState
          else ebind (restamp_witness E c p) (\<lambda>witness.
            ebind (buildEvent E c p witness ts) (\<lambda>ev.
              Inr (c \<lparr>c_pending := Some (p \<lparr>p_event := Some ev\<rparr>)\<rparr>, ev))))"

definition Adopt :: "sign_env \<Rightarrow> controller \<Rightarrow> signed_event \<Rightarrow> ctl_err + controller" where
  "Adopt E c ev =
     (case c_pending c of
        None \<Rightarrow> Inl ErrNothingPending
      | Some p \<Rightarrow>
          (case p_event p of
             None \<Rightarrow> Inl ErrNothingPending
           | Some pev \<Rightarrow>
               (case enc_signed E ev of
                  None \<Rightarrow> Inl MarshalFailed
                | Some got \<Rightarrow>
                    (case enc_signed E pev of
                       None \<Rightarrow> Inl MarshalFailed
                     | Some want \<Rightarrow>
                         if got \<noteq> want then Inl NotPendingEvent
                         else Inr (c \<lparr>c_kel := c_kel c @ [pev], c_cur := Some (p_revealed p),
                                      c_hot := None, c_pending := None\<rparr>)))))"

definition DiscardPending :: "controller \<Rightarrow> ctl_err + controller" where
  "DiscardPending c =
     (case c_pending c of
        None \<Rightarrow> Inl ErrNothingPending
      | Some p \<Rightarrow>
          (let tip = last (c_kel c) in
           if p_kind p \<noteq> PendingWitness \<or> p_event p = None \<or> c_hot c = None \<or> length (c_kel c) \<noteq> 1
              \<or> ke_seq (se_event (the (p_event p))) \<noteq> ke_seq (se_event tip) + 1
              \<or> ke_prev (se_event (the (p_event p))) \<noteq> se_id tip
           then Inl ErrDiscardRefused
           else Inr (c \<lparr>c_pending := None\<rparr>)))"

definition SetPendingHubURL :: "controller \<Rightarrow> string \<Rightarrow> ctl_err + controller" where
  "SetPendingHubURL c hubURL =
     (case c_pending c of
        None \<Rightarrow> Inl ErrNothingPending
      | Some p \<Rightarrow> Inr (c \<lparr>c_pending := Some (p \<lparr>p_hub_url := hubURL\<rparr>)\<rparr>))"

definition SetState :: "controller \<Rightarrow> string \<Rightarrow> ctl_err + controller" where
  "SetState c state =
     (if state = StateOK \<or> state = StateStopped \<or> state = StateDeactivated then Inr (c \<lparr>c_state := state\<rparr>)
      else Inl UnknownState)"

definition SetLocalCommit :: "controller \<Rightarrow> bytes \<Rightarrow> ctl_err + controller" where
  "SetLocalCommit c digest =
     (if length digest \<noteq> 32 then Inl BadLocalCommit else Inr (c \<lparr>c_local_commit := Some digest\<rparr>))"

definition SetWitnessesToPush :: "controller \<Rightarrow> witness_push list \<Rightarrow> ctl_err + controller" where
  "SetWitnessesToPush c ws =
     (if list_ex (\<lambda>w. wp_hub_aid w = []) ws then Inl PushWithoutAID else Inr (c \<lparr>c_push := ws\<rparr>))"

section \<open>The controller as a machine\<close>

datatype ctl_op =
    OpDesignate string bytes u64
  | OpRotate "bytes option" bytes string bool u64
  | OpDeactivate "bytes option" u64
  | OpRestamp u64
  | OpAdopt signed_event
  | OpDiscard
  | OpHubURL string
  | OpState string
  | OpLocalCommit bytes
  | OpPush "witness_push list"

fun ctl_step :: "sign_env \<Rightarrow> controller \<Rightarrow> ctl_op \<Rightarrow> ctl_err + controller" where
  "ctl_step E c (OpDesignate w n ts) = ebind (BuildWitnessDesignation E c w n ts) (\<lambda>(c', _). Inr c')"
| "ctl_step E c (OpRotate k n w em ts) = ebind (BuildRotation E c k n w em ts) (\<lambda>(c', _). Inr c')"
| "ctl_step E c (OpDeactivate k ts) = ebind (BuildDeactivation E c k ts) (\<lambda>(c', _). Inr c')"
| "ctl_step E c (OpRestamp ts) = ebind (Restamp E c ts) (\<lambda>(c', _). Inr c')"
| "ctl_step E c (OpAdopt ev) = Adopt E c ev"
| "ctl_step E c OpDiscard = DiscardPending c"
| "ctl_step E c (OpHubURL u) = SetPendingHubURL c u"
| "ctl_step E c (OpState s) = SetState c s"
| "ctl_step E c (OpLocalCommit d) = SetLocalCommit c d"
| "ctl_step E c (OpPush ws) = SetWitnessesToPush c ws"

end
