(* ===== verification/Controller_Props.thy ===== *)
theory Controller_Props
  imports Controller
begin

text \<open>
  The controller's invariant and its properties: the log it publishes always replays, it signs with the
  key that log names, and its log only grows by the event it was publishing.
\<close>

section \<open>The invariant\<close>

definition holds_key :: "signed_event \<Rightarrow> bytes \<Rightarrow> bool" where
  "holds_key se k \<longleftrightarrow> ke_keys (se_event se) = [publicOf k]"

definition ctl_inv :: "sign_env \<Rightarrow> controller \<Rightarrow> bool" where
  "ctl_inv E c \<longleftrightarrow> kel_valid (cr E) (c_kel c) \<and> c_aid c = kel_aid (c_kel c)
     \<and> (\<forall>k. c_cur c = Some k \<longrightarrow> holds_key (last (c_kel c)) k)
     \<and> (\<forall>k. c_hot c = Some k \<longrightarrow> length (c_kel c) = 1 \<and> sha256 (cr E) (publicOf k) = ke_next (evt (c_kel c) 0))
     \<and> (\<forall>p ev. c_pending c = Some p \<and> p_event p = Some ev \<longrightarrow>
          kel_valid (cr E) (c_kel c @ [ev]) \<and> holds_key ev (p_revealed p))
     \<and> c_state c \<in> {StateOK, StateStopped, StateDeactivated}
     \<and> (\<forall>w \<in> set (c_push c). wp_hub_aid w \<noteq> [])
     \<and> (\<forall>d. c_local_commit c = Some d \<longrightarrow> length d = 32)"

lemma lift_kel_ok: "lift_kel r = Inr x \<longleftrightarrow> r = Inr x"
  by (cases r) (simp_all add: lift_kel_def)

lemma event_of_keys: "ke_keys (event_of c p w ts) = [publicOf (p_revealed p)]"
  by (simp add: event_of_def Let_def)

lemma buildEvent_ok:
  assumes "buildEvent E c p w ts = Inr ev"
  shows "kel_valid (cr E) (c_kel c @ [ev])" "se_event ev = event_of c p w ts" "holds_key ev (p_revealed p)"
  using assms by (auto simp: buildEvent_def Let_def chain_iff lift_kel_ok replay_iff holds_key_def event_of_keys)

lemma event_of_pending:
  "event_of c (p \<lparr>p_event := x\<rparr>) w ts = event_of c p w ts"
  "event_of (c \<lparr>c_pending := y\<rparr>) p w ts = event_of c p w ts"
  by (simp_all add: event_of_def toadLocked_def Let_def)

lemma buildEvent_pending:
  "buildEvent E c (p \<lparr>p_event := x\<rparr>) w ts = buildEvent E c p w ts"
  "buildEvent E (c \<lparr>c_pending := y\<rparr>) p w ts = buildEvent E c p w ts"
  by (simp_all add: buildEvent_def event_of_pending Let_def cong: option.case_cong)

lemma buildLocked_ok:
  assumes "buildLocked E c p w ts = Inr (c', ev)"
  shows "buildEvent E c p w ts = Inr ev" "c' = c \<lparr>c_pending := Some (p \<lparr>p_event := Some ev\<rparr>)\<rparr>"
  using assms by (auto simp: buildLocked_def chain_iff)

lemma set_pending_inv:
  assumes "ctl_inv E c" and "kel_valid (cr E) (c_kel c @ [ev])" and "holds_key ev (p_revealed p)"
  shows "ctl_inv E (c \<lparr>c_pending := Some (p \<lparr>p_event := Some ev\<rparr>)\<rparr>)"
  using assms by (simp add: ctl_inv_def)

lemma buildLocked_inv:
  assumes "ctl_inv E c" and "buildLocked E c p w ts = Inr (c', ev)"
  shows "ctl_inv E c'"
  unfolding buildLocked_ok(2) [OF assms(2)]
  using assms(1) buildEvent_ok(1,3) [OF buildLocked_ok(1) [OF assms(2)]] by (rule set_pending_inv)

text \<open>The three builders differ in their guards; each ends in \<open>buildLocked\<close> with no event pending.\<close>

lemma Build_ok:
  "BuildWitnessDesignation E c w n ts = Inr (c', ev) \<Longrightarrow>
     c_pending c = None \<and> toadLocked c = ToadAgent \<and> length (c_kel c) = 1
     \<and> (\<exists>hot. c_hot c = Some hot \<and> ValidAID w \<and>
        buildLocked E c \<lparr>p_kind = PendingWitness, p_revealed = hot, p_next = n, p_hub_url = [],
          p_emergency = False, p_since = ts, p_event = None\<rparr> w ts = Inr (c', ev))"
  "BuildRotation E c k n w em ts = Inr (c', ev) \<Longrightarrow>
     c_pending c = None \<and> (\<exists>key. revealedLocked E c k = Inr key \<and>
        buildLocked E c \<lparr>p_kind = PendingRot, p_revealed = key, p_next = n, p_hub_url = [],
          p_emergency = em, p_since = ts, p_event = None\<rparr> w ts = Inr (c', ev))"
  "BuildDeactivation E c k ts = Inr (c', ev) \<Longrightarrow>
     c_pending c = None \<and> (\<exists>key. revealedLocked E c k = Inr key \<and>
        buildLocked E c \<lparr>p_kind = PendingDip, p_revealed = key, p_next = [], p_hub_url = [],
          p_emergency = False, p_since = ts, p_event = None\<rparr> [] ts = Inr (c', ev))"
  unfolding BuildWitnessDesignation_def BuildRotation_def BuildDeactivation_def canBuildLocked_def chain_iff
  by blast+

lemma Build_inv:
  assumes "ctl_inv E c"
  shows "BuildWitnessDesignation E c w n ts = Inr (c', ev) \<Longrightarrow> ctl_inv E c'"
    and "BuildRotation E c k n w em ts = Inr (c', ev) \<Longrightarrow> ctl_inv E c'"
    and "BuildDeactivation E c k ts = Inr (c', ev) \<Longrightarrow> ctl_inv E c'"
  using buildLocked_inv [OF assms] Build_ok by metis+

lemma Restamp_ok:
  assumes "Restamp E c ts = Inr (c', ev)"
  obtains p w where "c_pending c = Some p" "restamp_witness E c p = Inr w" "buildEvent E c p w ts = Inr ev"
    "c' = c \<lparr>c_pending := Some (p \<lparr>p_event := Some ev\<rparr>)\<rparr>"
  using assms by (auto simp: Restamp_def chain_iff)

lemma Adopt_ok:
  assumes "Adopt E c ev = Inr c'"
  obtains p pev where "c_pending c = Some p" "p_event p = Some pev" "enc_signed E ev = enc_signed E pev"
    "c' = c \<lparr>c_kel := c_kel c @ [pev], c_cur := Some (p_revealed p), c_hot := None, c_pending := None\<rparr>"
  using assms by (auto simp: Adopt_def chain_iff)

lemma Adopt_inv:
  assumes "ctl_inv E c" and "Adopt E c ev = Inr c'"
  shows "ctl_inv E c'"
proof -
  obtain p pev where p: "c_pending c = Some p" "p_event p = Some pev"
    "c' = c \<lparr>c_kel := c_kel c @ [pev], c_cur := Some (p_revealed p), c_hot := None, c_pending := None\<rparr>"
    using Adopt_ok [OF assms(2)] by metis
  have "kel_aid (c_kel c @ [pev]) = kel_aid (c_kel c)"
    using assms(1) by (simp add: ctl_inv_def kel_valid_def kel_aid_def nth_append)
  then show ?thesis using assms(1) p by (simp add: ctl_inv_def)
qed

lemma ctl_step_inv: "ctl_inv E c \<Longrightarrow> ctl_step E c op = Inr c' \<Longrightarrow> ctl_inv E c'"
proof (cases op)
  case (OpRestamp ts)
  assume i: "ctl_inv E c" and "ctl_step E c op = Inr c'"
  then obtain ev where "Restamp E c ts = Inr (c', ev)" using OpRestamp by (auto simp: ebind_Inr_iff)
  then show ?thesis using i buildEvent_ok(1,3) set_pending_inv by (elim Restamp_ok) metis
next
  case OpDiscard
  assume "ctl_inv E c" and "ctl_step E c op = Inr c'"
  then show ?thesis using OpDiscard by (auto simp: DiscardPending_def Let_def ctl_inv_def split: option.splits if_splits)
next
  case (OpHubURL u)
  assume "ctl_inv E c" and "ctl_step E c op = Inr c'"
  then show ?thesis using OpHubURL by (auto simp: SetPendingHubURL_def ctl_inv_def split: option.splits)
next
  case (OpAdopt ev)
  assume "ctl_inv E c" and "ctl_step E c op = Inr c'"
  then show ?thesis using OpAdopt Adopt_inv by simp
next
  case (OpState s)
  assume "ctl_inv E c" and "ctl_step E c op = Inr c'"
  then show ?thesis using OpState by (auto simp: SetState_def ctl_inv_def split: if_splits)
next
  case (OpLocalCommit d)
  assume "ctl_inv E c" and "ctl_step E c op = Inr c'"
  then show ?thesis using OpLocalCommit by (auto simp: SetLocalCommit_def ctl_inv_def split: if_splits)
next
  case (OpPush ws)
  assume "ctl_inv E c" and "ctl_step E c op = Inr c'"
  then show ?thesis using OpPush by (auto simp: SetWitnessesToPush_def ctl_inv_def list_ex_iff split: if_splits)
qed (auto simp: ebind_Inr_iff dest: Build_inv)

interpretation ctl: machine "ctl_step E" "ctl_inv E" for E
  by unfold_locales (rule ctl_step_inv)

lemma incept_inv:
  assumes "inceptWith E k0 k1 ts toad = Inr c"
  shows "ctl_inv E c"
  using assms
  by (auto simp: inceptWith_def Let_def chain_iff lift_kel_ok replay_iff ctl_inv_def kel_aid_def holds_key_def icp_event_def)

lemma published_valid:
  assumes "ctl_inv E c"
  shows "kel_valid (cr E) (kelLocked c)" "c_aid c = kel_aid (kelLocked c)" "kelLocked c \<noteq> []"
proof -
  have "kel_aid (c_kel c @ r) = kel_aid (c_kel c)" for r
    using assms by (simp add: ctl_inv_def kel_valid_def kel_aid_def nth_append)
  then show v: "kel_valid (cr E) (kelLocked c)" and "c_aid c = kel_aid (kelLocked c)"
    using assms by (auto simp: ctl_inv_def kelLocked_def built_event_def split: option.splits bind_splits)
  then show "kelLocked c \<noteq> []" by (simp add: kel_valid_def)
qed

lemma signing_key:
  assumes "ctl_inv E c" and "signingLocked c = (Some k, seq)"
  shows "holds_key (last (kelLocked c)) k" "seq = of_nat (length (kelLocked c) - 1)"
proof -
  have v: "kel_valid (cr E) (kelLocked c)" "kelLocked c \<noteq> []" using published_valid [OF assms(1)] by blast+
  then have "event_ok (cr E) (kelLocked c) (length (kelLocked c) - 1)" by (intro valid_event) auto
  then have "ke_seq (se_event (last (kelLocked c))) = of_nat (length (kelLocked c) - 1)"
    using v(2) by (auto simp: event_ok_def linked_def icp_ok_def last_conv_nth split: if_splits)
  moreover have "ke_seq (se_event (last (kelLocked c))) = seq"
    using assms by (auto simp: signingLocked_def kelLocked_def built_event_def split: option.splits)
  ultimately show "seq = of_nat (length (kelLocked c) - 1)" by simp
  show "holds_key (last (kelLocked c)) k"
    using assms by (auto simp: signingLocked_def kelLocked_def built_event_def ctl_inv_def split: option.splits)
qed

text \<open>\<open>key_pair E k\<close> is what Ed25519 promises of a private key made from a seed.\<close>

definition key_pair :: "sign_env \<Rightarrow> bytes \<Rightarrow> bool" where
  "key_pair E k \<longleftrightarrow> (\<forall>m. ed_verify (cr E) (publicOf k) m (ed_sign E k m))"

section \<open>Controllers to evaluate\<close>

definition demo_env :: sign_env where
  "demo_env = \<lparr>cr = demo_crypto, ed_sign = (\<lambda>k m. publicOf k @ publicOf k), ed_new = (\<lambda>s. s @ s),
     enc_signed = (\<lambda>se. Some (se_sig se))\<rparr>"

definition demo_priv :: "byte \<Rightarrow> bytes" where
  "demo_priv b = demo_key b @ demo_key b"

lemma demo_priv_simps [simp]: "publicOf (demo_priv b) = demo_key b" "seedOf (demo_priv b) = demo_key b"
  by (simp_all add: publicOf_def seedOf_def demo_priv_def)

lemma demo_env_simps [simp]:
  "cr demo_env = demo_crypto" "ed_sign demo_env k m = publicOf k @ publicOf k" "enc_signed demo_env se = Some (se_sig se)"
  "ed_new demo_env sd = sd @ sd"
  by (simp_all add: demo_env_def)

lemma demo_crypto_simps [simp]:
  "sha256 demo_crypto b = b" "enc_event demo_crypto e = Some (be_bytes 8 (ke_seq e) @ be_bytes 8 (ke_ts e))"
  "cid_sum demo_crypto b = Some (demo_cid b)"
  "ed_verify demo_crypto pub msg sig \<longleftrightarrow> sig = pub @ pub"
  by (simp_all add: demo_crypto_def)

lemma demo_key_pair: "key_pair demo_env k"
  by (simp add: key_pair_def)

definition demo_ctl :: controller where
  "demo_ctl = \<lparr>c_aid = se_id demo_icp, c_kel = [demo_icp], c_cur = Some (demo_priv 9), c_hot = Some (demo_priv 10),
     c_pending = None, c_push = [], c_state = StateOK, c_local_commit = None\<rparr>"

definition demo_pending :: pending where
  "demo_pending = \<lparr>p_kind = PendingRot, p_revealed = demo_priv 10, p_next = demo_key 11, p_hub_url = [],
     p_emergency = False, p_since = 20, p_event = Some demo_rot\<rparr>"

lemma demo_prefixes: "kel_valid demo_crypto [demo_icp]" "kel_valid demo_crypto [demo_icp, demo_rot]"
  using replay_demo_prefix kel_valid_append [of demo_crypto "[demo_icp]" "[demo_rot]"]
  by (auto simp: replay_iff)

lemma demo_incept: "inceptWith demo_env (demo_priv 9) (demo_priv 10) 10 ToadHub = Inr demo_ctl"
proof -
  have icp: "\<lparr>se_event = icp_event demo_crypto (demo_priv 9) (demo_priv 10) 10 ToadHub,
      se_sig = demo_key 9 @ demo_key 9, se_id = se_id demo_icp\<rparr> = demo_icp"
    by (simp add: icp_event_def demo_icp_def demo_sign_def)
  have eid: "demo_cid (be_bytes 8 (0 :: u64) @ be_bytes 8 (10 :: u64)) = se_id demo_icp"
    by (simp add: demo_icp_def demo_sign_def)
  obtain st where st: "replay demo_crypto [demo_icp] = Inr st" using demo_prefixes by (auto simp: replay_iff)
  show ?thesis
    using icp eid st by (simp add: inceptWith_def Let_def lift_kel_def demo_ctl_def)
      (simp add: icp_event_def)
qed

lemma demo_buildEvent:
  "buildEvent demo_env demo_ctl (demo_pending \<lparr>p_event := None\<rparr>) [] 20 = Inr demo_rot"
proof -
  let ?p = "demo_pending \<lparr>p_event := None\<rparr>"
  have e: "event_of demo_ctl ?p [] 20 = se_event demo_rot"
    by (simp add: event_of_def demo_ctl_def demo_pending_def demo_rot_def toadLocked_def PendingRot_def PendingDip_def)
      (simp add: demo_icp_def)
  have s: "ke_seq (se_event demo_rot) = 1" "ke_ts (se_event demo_rot) = 20" by (simp_all add: demo_rot_def)
  have rot: "\<lparr>se_event = se_event demo_rot, se_sig = demo_key 10 @ demo_key 10, se_id = se_id demo_rot\<rparr> = demo_rot"
    by (simp add: demo_rot_def demo_sign_def)
  have eid: "demo_cid (be_bytes 8 (1 :: u64) @ be_bytes 8 (20 :: u64)) = se_id demo_rot"
    by (simp add: demo_rot_def demo_sign_def)
  obtain st where st: "replay demo_crypto [demo_icp, demo_rot] = Inr st" using replay_demo_prefix by blast
  show ?thesis
    using rot eid st by (simp add: buildEvent_def e Let_def s lift_kel_def) (simp add: demo_ctl_def demo_pending_def)
qed

lemma demo_rotate:
  "ctl_step demo_env demo_ctl (OpRotate None (demo_key 11) [] False 20) = Inr (demo_ctl \<lparr>c_pending := Some demo_pending\<rparr>)"
proof -
  let ?p = "demo_pending \<lparr>p_event := None\<rparr>"
  have "canBuildLocked demo_ctl = Inr ()"
    by (simp add: canBuildLocked_def demo_ctl_def demo_icp_def)
  moreover have "toadLocked demo_ctl = ToadHub" by (simp add: toadLocked_def demo_ctl_def demo_icp_def)
  moreover have "revealedLocked demo_env demo_ctl None = Inr (demo_priv 10)"
    by (simp add: revealedLocked_def demo_ctl_def)
  moreover have "?p = \<lparr>p_kind = PendingRot, p_revealed = demo_priv 10, p_next = demo_key 11, p_hub_url = [],
      p_emergency = False, p_since = 20, p_event = None\<rparr>" by (simp add: demo_pending_def)
  ultimately show ?thesis using demo_buildEvent
    by (simp add: BuildRotation_def buildLocked_def) (simp add: demo_pending_def)
qed

lemma demo_adopt:
  "ctl_step demo_env (demo_ctl \<lparr>c_pending := Some demo_pending\<rparr>) (OpAdopt demo_rot)
     = Inr (demo_ctl \<lparr>c_kel := [demo_icp, demo_rot], c_cur := Some (demo_priv 10), c_hot := None\<rparr>)"
  by (simp add: Adopt_def demo_pending_def) (simp add: demo_ctl_def)

text \<open>An agent's inception and its witness designation.\<close>

abbreviation demo_hub_aid :: string where
  "demo_hub_aid \<equiv> se_id demo_icp"

lemma demo_hub_aid: "ValidAID demo_hub_aid"
  by (simp add: demo_icp_def demo_sign_def demo_cid_valid)

definition demo_agent_icp :: signed_event where
  "demo_agent_icp = demo_sign (se_event demo_icp \<lparr>ke_ts := 11, ke_toad := Some ToadAgent\<rparr>)"

definition demo_agent_rot :: signed_event where
  "demo_agent_rot = demo_sign (se_event demo_rot \<lparr>ke_aid := se_id demo_agent_icp, ke_prev := se_id demo_agent_icp,
     ke_toad := Some ToadAgent, ke_witnesses := [demo_hub_aid]\<rparr>)"

definition demo_agent :: controller where
  "demo_agent = demo_ctl \<lparr>c_aid := se_id demo_agent_icp, c_kel := [demo_agent_icp]\<rparr>"

lemma demo_hub_not_self: "demo_hub_aid \<noteq> se_id demo_agent_icp"
proof
  assume "demo_hub_aid = se_id demo_agent_icp"
  then have "be_bytes 8 (0 :: u64) @ be_bytes 8 (10 :: u64) = be_bytes 8 (0 :: u64) @ be_bytes 8 (11 :: u64)"
    by (intro demo_cid_inj) (simp_all add: demo_icp_def demo_agent_icp_def demo_sign_def)
  then show False by simp
qed

lemma demo_agent_valid: "kel_valid demo_crypto [demo_agent_icp, demo_agent_rot]"
proof -
  have icp: "event_ok demo_crypto [demo_agent_icp, demo_agent_rot] 0"
    by (simp add: event_ok_def demo_agent_icp_def demo_icp_def demo_signed_ok shape_ok_def icp_ok_def demo_key_order)
  have "rot_ok ToadAgent (se_id demo_agent_icp) (se_event demo_agent_rot)"
    using demo_hub_aid demo_hub_not_self by (simp add: rot_ok_def demo_agent_rot_def) (simp add: demo_rot_def)
  moreover have "kel_toad [demo_agent_icp, demo_agent_rot] = ToadAgent"
    "kel_aid [demo_agent_icp, demo_agent_rot] = se_id demo_agent_icp"
    by (simp_all add: kel_toad_def kel_aid_def) (simp add: demo_agent_icp_def)
  moreover have "signed_ok demo_crypto demo_agent_rot" "shape_ok (se_event demo_agent_rot)"
    "ke_type (se_event demo_agent_icp) = Inception"
    by (simp_all add: demo_agent_rot_def demo_signed_ok demo_rot_def shape_ok_def demo_key_order
        demo_agent_icp_def demo_icp_def)
  moreover have "ke_seq (se_event demo_agent_rot) = 1" "ke_aid (se_event demo_agent_rot) = se_id demo_agent_icp"
    "ke_prev (se_event demo_agent_rot) = se_id demo_agent_icp" "ke_ts (se_event demo_agent_rot) = 20"
    "ke_ts (se_event demo_agent_icp) = 11" "ke_keys (se_event demo_agent_rot) = [demo_key 10]"
    "ke_next (se_event demo_agent_icp) = demo_key 10" "ke_kel_type (se_event demo_agent_rot) = KELType"
    "ke_type (se_event demo_agent_rot) = Rotation"
    by (simp_all add: demo_agent_rot_def demo_rot_def demo_agent_icp_def demo_icp_def)
  ultimately have "event_ok demo_crypto [demo_agent_icp, demo_agent_rot] 1"
    by (simp add: event_ok_def linked_def)
  then have "event_ok demo_crypto [demo_agent_icp, demo_agent_rot] i" if "i < 2" for i
    using icp that by (cases i) auto
  then show ?thesis by (simp add: kel_valid_def numeral_2_eq_2)
qed

lemma demo_designate:
  "\<exists>c' ev. BuildWitnessDesignation demo_env demo_agent demo_hub_aid (demo_key 11) 20 = Inr (c', ev)"
proof -
  let ?p = "demo_pending \<lparr>p_kind := PendingWitness, p_event := None\<rparr>"
  have ne: "demo_hub_aid \<noteq> []" by (simp add: demo_icp_def demo_sign_def demo_cid_def)
  have k: "PendingWitness \<noteq> PendingDip" by (simp add: PendingWitness_def PendingDip_def)
  have icp: "ke_seq (se_event demo_agent_icp) = 0" "ke_toad (se_event demo_agent_icp) = Some ToadAgent"
    by (simp_all add: demo_agent_icp_def demo_icp_def)
  have e: "event_of demo_agent ?p demo_hub_aid 20 = se_event demo_agent_rot"
    using ne k icp by (simp add: event_of_def Let_def toadLocked_def)
      (simp add: demo_agent_def demo_ctl_def demo_pending_def icp demo_agent_rot_def, simp add: demo_rot_def)
  have s: "ke_seq (se_event demo_agent_rot) = 1" "ke_ts (se_event demo_agent_rot) = 20"
    by (simp_all add: demo_agent_rot_def demo_rot_def)
  have rot: "\<lparr>se_event = se_event demo_agent_rot, se_sig = demo_key 10 @ demo_key 10, se_id = se_id demo_agent_rot\<rparr> = demo_agent_rot"
    by (simp add: demo_agent_rot_def demo_rot_def demo_sign_def)
  have eid: "demo_cid (be_bytes 8 (1 :: u64) @ be_bytes 8 (20 :: u64)) = se_id demo_agent_rot"
    by (simp add: demo_agent_rot_def demo_rot_def demo_sign_def)
  obtain st where st: "replay demo_crypto [demo_agent_icp, demo_agent_rot] = Inr st"
    using demo_agent_valid by (auto simp: replay_iff)
  have "buildEvent demo_env demo_agent ?p demo_hub_aid 20 = Inr demo_agent_rot"
    using rot eid st by (simp add: buildEvent_def e Let_def s lift_kel_def)
      (simp add: demo_agent_def demo_ctl_def demo_pending_def)
  moreover have "canBuildLocked demo_agent = Inr ()" "toadLocked demo_agent = ToadAgent"
    by (simp_all add: canBuildLocked_def toadLocked_def demo_agent_def demo_ctl_def demo_agent_icp_def demo_icp_def)
  moreover have "?p = \<lparr>p_kind = PendingWitness, p_revealed = demo_priv 10, p_next = demo_key 11, p_hub_url = [],
      p_emergency = False, p_since = 20, p_event = None\<rparr>" by (simp add: demo_pending_def)
  moreover have "c_hot demo_agent = Some (demo_priv 10)" "length (c_kel demo_agent) = 1"
    by (simp_all add: demo_agent_def demo_ctl_def)
  ultimately show ?thesis
    using demo_hub_aid by (simp add: BuildWitnessDesignation_def buildLocked_def)
qed

section \<open>Signed objects verify\<close>

lemma signed_verify:
  assumes inv: "ctl_inv E c"
    and "Sign E c pre = (Some sig, seq)" and "\<forall>k. fst (signingLocked c) = Some k \<longrightarrow> key_pair E k"
    and "\<not> is_dip (kelLocked c) (length (kelLocked c) - 1)" and "length (kelLocked c) \<le> 2 ^ 64"
  shows "VerifyObject (cr E) (kelLocked c) (c_aid c) seq t pre sig = Inr ()
    \<and> snapshot_Sign E (Snapshot c) pre = Sign E c pre \<and> SeqOf (Snapshot c) = Some seq"
proof -
  obtain k where k: "signingLocked c = (Some k, seq)" "sig = ed_sign E k pre"
    using assms(2) by (auto simp: Sign_def split: prod.splits option.splits)
  let ?kel = "kelLocked c" let ?n = "length (kelLocked c) - 1"
  have pub: "kel_valid (cr E) ?kel" "c_aid c = kel_aid ?kel" "?kel \<noteq> []" using published_valid [OF inv] by blast+
  have n: "?n < 2 ^ 64" "Suc ?n = length ?kel" using assms(5) pub(3) by (cases ?kel; simp)+
  have seq: "unat seq = ?n"
  proof -
    have "?n < 2 ^ LENGTH(64)" using n by simp
    then show ?thesis unfolding signing_key(2) [OF inv k(1)] by (rule unat_of_nat_less)
  qed
  have key: "ke_keys (evt ?kel ?n) = [publicOf k]"
    using signing_key(1) [OF inv k(1)] pub(3) by (simp add: holds_key_def last_conv_nth)
  have "key_pair E k" using assms(3) k(1) by simp
  then have "VerifyObject (cr E) ?kel (c_aid c) seq t pre sig = Inr ()"
    unfolding VerifyObject_ok seq using pub n assms(4) k(2) key by (simp add: key_pair_def)
  moreover have "snapshot_Sign E (Snapshot c) pre = Sign E c pre"
    by (simp add: snapshot_Sign_def Snapshot_def Sign_def k)
  moreover have "SeqOf (Snapshot c) = Some seq"
  proof -
    have "event_ok (cr E) ?kel ?n" using pub n by (intro valid_event) auto
    then have "ke_seq (se_event (last ?kel)) = seq"
      using signing_key(2) [OF inv k(1)] pub(3)
      by (auto simp: event_ok_def linked_def icp_ok_def last_conv_nth split: if_splits)
    then show ?thesis using pub(3) by (simp add: SeqOf_def Snapshot_def)
  qed
  ultimately show ?thesis by blast
qed

text \<open>C4: whatever a controller went through since its inception, an object it signs verifies against
  the log it publishes at that moment, under the sequence number \<open>Sign\<close> reported, at any object time; and
  a snapshot signs alike and names the same sequence number. Excluded are a log whose last event, published, built or adopted,
  is a deactivation, since \<open>Sign\<close> still signs then but the object does not verify against that log, and a log of more than \<open>2^64\<close> events.\<close>

theorem signed_objects_verify:
  assumes "inceptWith E k0 k1 ts toad = Inr c0" and "run (ctl_step E) c0 ops = Inr c"
    and "Sign E c pre = (Some sig, seq)" and "\<forall>k. fst (signingLocked c) = Some k \<longrightarrow> key_pair E k"
    and "\<not> is_dip (kelLocked c) (length (kelLocked c) - 1)" and "length (kelLocked c) \<le> 2 ^ 64"
  shows "VerifyObject (cr E) (kelLocked c) (c_aid c) seq t pre sig = Inr ()
    \<and> snapshot_Sign E (Snapshot c) pre = Sign E c pre \<and> SeqOf (Snapshot c) = Some seq"
  using signed_verify [OF ctl.run_inv [OF incept_inv [OF assms(1)] assms(2)]] assms(3-6) .

theorem signed_objects_verify_witness:
  "VerifyObject demo_crypto [demo_icp, demo_rot] (se_id demo_icp) 1 0 [] (demo_key 10 @ demo_key 10) = Inr ()"
proof -
  let ?c = "demo_ctl \<lparr>c_pending := Some demo_pending\<rparr>"
  have r: "run (ctl_step demo_env) demo_ctl [OpRotate None (demo_key 11) [] False 20] = Inr ?c"
    using demo_rotate by simp
  have k: "kelLocked ?c = [demo_icp, demo_rot]"
    by (simp add: kelLocked_def built_event_def demo_pending_def) (simp add: demo_ctl_def)
  have "ke_seq (se_event demo_rot) = 1" by (simp add: demo_rot_def)
  then have s: "Sign demo_env ?c [] = (Some (demo_key 10 @ demo_key 10), 1)"
    by (simp add: Sign_def signingLocked_def demo_pending_def)
  have g: "\<forall>k. fst (signingLocked ?c) = Some k \<longrightarrow> key_pair demo_env k" using demo_key_pair by blast
  have d: "\<not> is_dip (kelLocked ?c) (length (kelLocked ?c) - 1)" "length (kelLocked ?c) \<le> 2 ^ 64"
    unfolding k is_dip_def by (simp_all add: demo_rot_def)
  from signed_objects_verify [OF demo_incept r s g d] show ?thesis
    unfolding k by (simp add: demo_ctl_def)
qed

section \<open>The published log\<close>

lemma step_grows:
  assumes "ctl_step E c op = Inr c'"
  shows "\<exists>new. c_kel c' = c_kel c @ new"
  using assms
proof (cases op)
  case (OpAdopt ev)
  then show ?thesis using assms by (auto elim: Adopt_ok)
next
  case (OpRestamp ts)
  then show ?thesis using assms by (auto simp: ebind_Inr_iff elim: Restamp_ok)
qed (auto simp: ebind_Inr_iff SetState_def SetLocalCommit_def SetWitnessesToPush_def SetPendingHubURL_def
    DiscardPending_def Let_def dest!: Build_ok buildLocked_ok(2) split: option.splits if_splits)

lemma run_grows: "run (ctl_step E) c ops = Inr c' \<Longrightarrow> \<exists>new. c_kel c' = c_kel c @ new"
proof (induction ops arbitrary: c)
  case (Cons op ops)
  then obtain d where d: "ctl_step E c op = Inr d" "run (ctl_step E) d ops = Inr c'"
    by (auto split: sum.splits)
  then show ?case using step_grows [OF d(1)] Cons.IH [OF d(2)] by auto
qed simp

lemma inv_encodes:
  "ctl_inv E c \<Longrightarrow> \<forall>se \<in> set (c_kel c). enc_event (cr E) (se_event se) \<noteq> None"
  using valid_encodes unfolding ctl_inv_def by fastforce

text \<open>C5: at every moment of a controller's life the log it publishes is one that every holder of its earlier
  accepted log takes: \<open>ExtendsKEL\<close> accepts it, so a controller never forks or rolls back its own identity.\<close>

theorem controller_never_forks:
  assumes "inceptWith E k0 k1 ts toad = Inr c0" and "run (ctl_step E) c0 (before @ after) = Inr c"
  shows "\<exists>mid. run (ctl_step E) c0 before = Inr mid \<and> ExtendsKEL (cr E) (c_kel mid) (kelLocked c) = Inr ()
    \<and> c_aid c = c_aid mid"
proof -
  obtain mid where mid: "run (ctl_step E) c0 before = Inr mid" "ctl_inv E mid"
    using ctl.run_prefix_inv [OF incept_inv [OF assms(1)] assms(2)] by blast
  have rest: "run (ctl_step E) mid after = Inr c" using assms(2) mid(1) by (simp add: run_append)
  have inv: "ctl_inv E c" using ctl.run_inv [OF mid(2) rest] .
  obtain new where "c_kel c = c_kel mid @ new" using run_grows [OF rest] by blast
  then have "\<exists>r. kelLocked c = c_kel mid @ r" by (cases "built_event c") (simp_all add: kelLocked_def)
  then obtain r where r: "kelLocked c = c_kel mid @ r" ..
  have "same_events (cr E) (c_kel mid) (take (length (c_kel mid)) (kelLocked c))"
    using same_events_refl [OF inv_encodes [OF mid(2)]] by (simp add: r)
  then have "ExtendsKEL (cr E) (c_kel mid) (kelLocked c) = Inr ()"
    using published_valid(1) [OF inv] by (simp add: ExtendsKEL_ok r)
  moreover have "c_aid c = c_aid mid"
    using published_valid(2) [OF inv] mid(2) by (simp add: r ctl_inv_def kel_aid_def kel_valid_def nth_append)
  ultimately show ?thesis using mid(1) by blast
qed

theorem controller_never_forks_witness:
  "ExtendsKEL demo_crypto [demo_icp] [demo_icp, demo_rot] = Inr ()"
proof -
  have "run (ctl_step demo_env) demo_ctl ([] @ [OpRotate None (demo_key 11) [] False 20, OpAdopt demo_rot])
      = Inr (demo_ctl \<lparr>c_kel := [demo_icp, demo_rot], c_cur := Some (demo_priv 10), c_hot := None\<rparr>)"
    using demo_rotate demo_adopt by (simp del: ctl_step.simps)
  from controller_never_forks [OF demo_incept this] show ?thesis
    by (simp add: kelLocked_def built_event_def demo_ctl_def)
qed

text \<open>A witness designation that is discarded leaves no trace: the controller is the one before it was built.\<close>

theorem discard_undoes_designation:
  assumes "BuildWitnessDesignation E c witness nxt ts = Inr (c', ev)"
  shows "DiscardPending c' = Inr c"
proof -
  obtain hot where h: "c_pending c = None" "length (c_kel c) = 1" "c_hot c = Some hot"
    "buildLocked E c \<lparr>p_kind = PendingWitness, p_revealed = hot, p_next = nxt, p_hub_url = [],
       p_emergency = False, p_since = ts, p_event = None\<rparr> witness ts = Inr (c', ev)" (is "buildLocked E c ?p _ _ = _")
    using Build_ok(1) [OF assms] by blast
  have c': "c' = c \<lparr>c_pending := Some (?p \<lparr>p_event := Some ev\<rparr>)\<rparr>" by (rule buildLocked_ok(2) [OF h(4)])
  have e: "se_event ev = event_of c ?p witness ts" by (rule buildEvent_ok(2) [OF buildLocked_ok(1) [OF h(4)]])
  have "ke_seq (se_event ev) = ke_seq (se_event (last (c_kel c))) + 1" "ke_prev (se_event ev) = se_id (last (c_kel c))"
    unfolding e by (simp_all add: event_of_def Let_def)
  then show ?thesis using h(1-3) by (simp add: c' DiscardPending_def Let_def)
qed

theorem discard_undoes_designation_witness:
  "\<exists>c'. DiscardPending c' = Inr demo_agent \<and> c' \<noteq> demo_agent"
proof -
  obtain c' ev where d: "BuildWitnessDesignation demo_env demo_agent demo_hub_aid (demo_key 11) 20 = Inr (c', ev)"
    using demo_designate by blast
  have "DiscardPending c' = Inr demo_agent" by (rule discard_undoes_designation [OF d])
  moreover have "DiscardPending demo_agent \<noteq> Inr demo_agent" by (simp add: DiscardPending_def demo_agent_def demo_ctl_def)
  ultimately show ?thesis by metis
qed

lemma built_by:
  assumes "ctl_step E c op = Inr c1" and "c_pending c = None" and "c_pending c1 = Some p"
  shows "\<exists>p0 w ts old. buildLocked E c p0 w ts = Inr (c1, old) \<and> (p_kind p0 = PendingDip \<longrightarrow> w = [])"
proof -
  have k: "PendingWitness \<noteq> PendingDip" "PendingRot \<noteq> PendingDip"
    by (simp_all add: PendingWitness_def PendingRot_def PendingDip_def)
  show ?thesis
  proof (cases op)
    case (OpDesignate x y z)
    then obtain ev where "BuildWitnessDesignation E c x y z = Inr (c1, ev)" using assms(1) by (auto simp: ebind_Inr_iff)
    from Build_ok(1) [OF this] k show ?thesis by fastforce
  next
    case (OpRotate x y z em ts)
    then obtain ev where "BuildRotation E c x y z em ts = Inr (c1, ev)" using assms(1) by (auto simp: ebind_Inr_iff)
    from Build_ok(2) [OF this] k show ?thesis by fastforce
  next
    case (OpDeactivate x ts)
    then obtain ev where "BuildDeactivation E c x ts = Inr (c1, ev)" using assms(1) by (auto simp: ebind_Inr_iff)
    from Build_ok(3) [OF this] show ?thesis by blast
  qed (use assms in \<open>auto simp: ebind_Inr_iff Restamp_def Adopt_def DiscardPending_def SetPendingHubURL_def
    SetState_def SetLocalCommit_def SetWitnessesToPush_def split: if_splits\<close>)
qed

lemma event_of_ts: "event_of c p w ts = (event_of c p w ts0) \<lparr>ke_ts := ts\<rparr>"
  by (simp add: event_of_def Let_def)

lemma restamp_built:
  assumes "p_event p = Some ev" and "se_event ev = event_of c p0 w ts" and "p_kind p0 = PendingDip \<longrightarrow> w = []"
  shows "restamp_witness E c' p = Inr w"
  using assms by (auto simp: restamp_witness_def event_of_def Let_def)

text \<open>\<open>Restamp\<close> rebuilds the pending event with another time only: the same event but for its time (and
  with it its identifier and signature), and at the event's own time the very same controller.\<close>

theorem Restamp_same_event:
  assumes "ctl_step E c op = Inr c1" and "c_pending c = None" and "c_pending c1 = Some p"
    and "Restamp E c1 ts = Inr (c2, ev)"
  shows "\<exists>old. p_event p = Some old \<and> se_event ev = (se_event old) \<lparr>ke_ts := ts\<rparr>
    \<and> c2 = c1 \<lparr>c_pending := Some (p \<lparr>p_event := Some ev\<rparr>)\<rparr> \<and> (ts = ke_ts (se_event old) \<longrightarrow> c2 = c1)"
proof -
  obtain p0 w ts0 old where b: "buildLocked E c p0 w ts0 = Inr (c1, old)" "p_kind p0 = PendingDip \<longrightarrow> w = []"
    using built_by [OF assms(1-3)] by blast
  have e: "buildEvent E c p0 w ts0 = Inr old" and c1: "c1 = c \<lparr>c_pending := Some (p0 \<lparr>p_event := Some old\<rparr>)\<rparr>"
    using buildLocked_ok [OF b(1)] by blast+
  have p: "p = p0 \<lparr>p_event := Some old\<rparr>" using assms(3) c1 by simp
  obtain q w' where r: "c_pending c1 = Some q" "restamp_witness E c1 q = Inr w'" "buildEvent E c1 q w' ts = Inr ev"
    "c2 = c1 \<lparr>c_pending := Some (q \<lparr>p_event := Some ev\<rparr>)\<rparr>"
    using Restamp_ok [OF assms(4)] by metis
  have q: "q = p" using r(1) assms(3) by simp
  have old: "se_event old = event_of c p0 w ts0" by (rule buildEvent_ok(2) [OF e])
  have w: "w' = w" using restamp_built [OF _ old b(2), of p E c1] r(2) p q by simp
  have new: "buildEvent E c p0 w ts = Inr ev" using r(3) unfolding q w p c1 buildEvent_pending .
  have ts: "ke_ts (se_event old) = ts0" unfolding old by (simp add: event_of_def Let_def)
  have "c2 = c1" if "ts = ts0"
    using new e that r(4) q p c1 by simp
  moreover have "se_event ev = (se_event old) \<lparr>ke_ts := ts\<rparr>"
    unfolding old buildEvent_ok(2) [OF new] by (rule event_of_ts)
  ultimately show ?thesis using p r(4) q ts by simp
qed

theorem Restamp_same_event_witness:
  "\<exists>c2. Restamp demo_env (demo_ctl \<lparr>c_pending := Some demo_pending\<rparr>) 20 = Inr (c2, demo_rot)
     \<and> c2 = demo_ctl \<lparr>c_pending := Some demo_pending\<rparr>"
proof -
  let ?c = "demo_ctl \<lparr>c_pending := Some demo_pending\<rparr>"
  have p: "p_event demo_pending = Some demo_rot" by (simp add: demo_pending_def)
  have "restamp_witness demo_env ?c demo_pending = Inr []"
    by (simp add: restamp_witness_def p) (simp add: demo_rot_def)
  moreover have "buildEvent demo_env ?c demo_pending [] 20 = Inr demo_rot"
    using demo_buildEvent by (simp only: buildEvent_pending)
  ultimately have "Restamp demo_env ?c 20 = Inr (?c \<lparr>c_pending := Some (demo_pending \<lparr>p_event := Some demo_rot\<rparr>)\<rparr>, demo_rot)"
    by (simp add: Restamp_def) (simp add: demo_ctl_def)
  moreover from Restamp_same_event [OF demo_rotate _ _ this] have
    "?c \<lparr>c_pending := Some (demo_pending \<lparr>p_event := Some demo_rot\<rparr>)\<rparr> = ?c"
    by (simp add: p demo_rot_def demo_ctl_def)
  ultimately show ?thesis by metis
qed

end
