(* ===== verification/Kel_Notice.thy ===== *)
theory Kel_Notice
  imports Controller_Props
begin

text \<open>
  Witness notices (\<open>identity/notice.go\<close>) and the signature envelope they carry (\<open>aobj/aobj.go\<close>). The
  CoreDet codec of the two structures is the parameter \<open>notice_codec\<close>.
\<close>

section \<open>Data\<close>

definition AlgEdDSA :: int where "AlgEdDSA = -8"

record envelope =
  en_signer_aid :: string
  en_key_state_seq :: u64
  en_alg :: int
  en_sig :: bytes
  en_preimage_ref :: string

definition envelope_Validate :: "envelope \<Rightarrow> bool" where
  "envelope_Validate e = (if en_alg e \<noteq> AlgEdDSA then False else if length (en_sig e) \<noteq> 64 then False else True)"

definition NoticeType :: string where "NoticeType = ''anet.ksn/1''"
definition NoticeMaxAge :: u64 where "NoticeMaxAge = 6 * 60 * 60 * 1000"

record notice_body =
  nb_type :: string
  nb_aid :: string
  nb_seq :: u64
  nb_head :: string
  nb_observed_at :: u64
  nb_witness :: string

record notice_wire =
  nw_body :: bytes
  nw_env :: envelope

record notice_codec =
  dec_wire :: "bytes \<Rightarrow> notice_wire option"
  enc_wire :: "notice_wire \<Rightarrow> bytes option"
  dec_body :: "bytes \<Rightarrow> notice_body option"
  enc_body :: "notice_body \<Rightarrow> bytes option"

datatype notice_err =
    ErrNoticeInvalid | ErrNoticeMissing | ErrNoticeMismatch | ErrNoticeUnknownWitness | ErrNoticeStale
  | SubjectDoesNotReplay kel_err

section \<open>Verifying\<close>

definition decodeNotice :: "notice_codec \<Rightarrow> bytes \<Rightarrow> notice_err + notice_wire \<times> notice_body" where
  "decodeNotice K b =
     (case dec_wire K b of
        None \<Rightarrow> Inl ErrNoticeInvalid
      | Some w \<Rightarrow>
          if enc_wire K w \<noteq> Some b then Inl ErrNoticeInvalid
          else if en_preimage_ref (nw_env w) \<noteq> [] then Inl ErrNoticeInvalid
          else if \<not> envelope_Validate (nw_env w) then Inl ErrNoticeInvalid
          else case dec_body K (nw_body w) of
            None \<Rightarrow> Inl ErrNoticeInvalid
          | Some body \<Rightarrow>
              if enc_body K body \<noteq> Some (nw_body w) then Inl ErrNoticeInvalid
              else if nb_type body \<noteq> NoticeType then Inl ErrNoticeInvalid
              else Inr (w, body))"

definition check_tip :: "key_state \<Rightarrow> notice_wire \<Rightarrow> notice_body \<Rightarrow> notice_err + unit" where
  "check_tip tip w body =
     (if ks_toad tip \<noteq> ToadAgent then Inl ErrNoticeMissing
      else if ks_witness tip = [] then Inl ErrNoticeMissing
      else if nb_aid body \<noteq> ks_aid tip then Inl ErrNoticeMismatch
      else if nb_seq body \<noteq> ks_seq tip \<or> nb_head body \<noteq> ks_last_id tip then Inl ErrNoticeMismatch
      else if nb_witness body \<noteq> ks_witness tip then Inl ErrNoticeInvalid
      else if en_signer_aid (nw_env w) \<noteq> nb_witness body then Inl ErrNoticeInvalid
      else Inr ())"

definition check_witness_kel ::
  "crypto \<Rightarrow> signed_event list \<Rightarrow> notice_wire \<Rightarrow> notice_body \<Rightarrow> u64 \<Rightarrow> notice_err + unit" where
  "check_witness_kel C wkel w body arrival =
     (let seq = en_key_state_seq (nw_env w) in
      if length wkel = 0 then Inl ErrNoticeUnknownWitness
      else if unat seq \<ge> length wkel then Inl ErrNoticeUnknownWitness
      else case replay C wkel of
        Inl _ \<Rightarrow> Inl ErrNoticeInvalid
      | Inr wstates \<Rightarrow>
          if ks_toad (last wstates) \<noteq> ToadHub then Inl ErrNoticeInvalid
          else (case VerifyObject C wkel (nb_witness body) seq (nb_observed_at body) (nw_body w) (en_sig (nw_env w)) of
              Inl _ \<Rightarrow> Inl ErrNoticeInvalid
            | Inr _ \<Rightarrow>
                let ws = wstates ! unat seq in
                if ks_status ws \<noteq> StatusActive \<and> \<not> RetiredUsableAt ws arrival then Inl ErrNoticeInvalid
                else Inr ()))"

definition check_fresh :: "u64 \<Rightarrow> u64 \<Rightarrow> notice_err + unit" where
  "check_fresh observed arrival =
     (if observed > arrival \<and> observed - arrival > EventClockWindow then Inl ErrNoticeStale
      else if arrival > observed \<and> arrival - observed > NoticeMaxAge then Inl ErrNoticeStale
      else Inr ())"

text \<open>A \<open>HubKELSource\<close> may be nil, and gives no log for a hub it does not know.\<close>

definition VerifyNotice ::
  "crypto \<Rightarrow> notice_codec \<Rightarrow> bytes \<Rightarrow> signed_event list \<Rightarrow> (string \<Rightarrow> signed_event list option) option \<Rightarrow> u64
     \<Rightarrow> notice_err + unit" where
  "VerifyNotice C K b subjectKEL hubKELs arrival =
     ebind (decodeNotice K b) (\<lambda>(w, body).
       case replay C subjectKEL of
         Inl e \<Rightarrow> Inl (SubjectDoesNotReplay e)
       | Inr states \<Rightarrow>
           ebind (check_tip (last states) w body) (\<lambda>_.
             case Option.bind hubKELs (\<lambda>h. h (nb_witness body)) of
               None \<Rightarrow> Inl ErrNoticeUnknownWitness
             | Some wkel \<Rightarrow>
                 ebind (check_witness_kel C wkel w body arrival) (\<lambda>_.
                   check_fresh (nb_observed_at body) arrival)))"

section \<open>Signing\<close>

datatype sign_err =
    NoSigner | NoKEL | NotAHub | OtherType | OtherWitness | NotAboutAID | NoHead | NoObservedAt
  | MarshalNotice | ErrSignerSeq | HoldsNoKey

text \<open>\<open>s\<close> is the snapshot \<open>SnapshotOf\<close> takes; \<open>None\<close> is a nil signer.\<close>

definition SignNotice ::
  "sign_env \<Rightarrow> notice_codec \<Rightarrow> snapshot option \<Rightarrow> notice_body \<Rightarrow> sign_err + bytes" where
  "SignNotice E K s0 body0 =
     (case s0 of
        None \<Rightarrow> Inl NoSigner
      | Some s \<Rightarrow>
          if length (sn_kel s) = 0 then Inl NoKEL
          else if ke_toad (se_event (sn_kel s ! 0)) \<noteq> Some ToadHub then Inl NotAHub
          else if nb_type body0 \<noteq> [] \<and> nb_type body0 \<noteq> NoticeType then Inl OtherType
          else if nb_witness body0 \<noteq> [] \<and> nb_witness body0 \<noteq> sn_aid s then Inl OtherWitness
          else let body = body0 \<lparr>nb_type := NoticeType, nb_witness := sn_aid s\<rparr> in
            if \<not> ValidAID (nb_aid body) then Inl NotAboutAID
            else if nb_head body = [] then Inl NoHead
            else if nb_observed_at body = 0 then Inl NoObservedAt
            else (case enc_body K body of
                None \<Rightarrow> Inl MarshalNotice
              | Some pre \<Rightarrow>
                  (case SeqOf s of
                     None \<Rightarrow> Inl NoKEL
                   | Some sq \<Rightarrow>
                       let (sig, signed) = snapshot_Sign E s pre in
                       if signed \<noteq> sq then Inl ErrSignerSeq
                       else if length (case sig of None \<Rightarrow> [] | Some sg \<Rightarrow> sg) \<noteq> 64 then Inl HoldsNoKey
                       else let env = \<lparr>en_signer_aid = sn_aid s, en_key_state_seq = sq, en_alg = AlgEdDSA,
                                       en_sig = the sig, en_preimage_ref = []\<rparr> in
                         (case enc_wire K \<lparr>nw_body = pre, nw_env = env\<rparr> of
                            None \<Rightarrow> Inl MarshalNotice
                          | Some b \<Rightarrow> Inr b))))"

section \<open>What an accepted notice says\<close>

definition decoded :: "notice_codec \<Rightarrow> bytes \<Rightarrow> notice_wire \<Rightarrow> notice_body \<Rightarrow> bool" where
  "decoded K b w body \<longleftrightarrow> dec_wire K b = Some w \<and> enc_wire K w = Some b \<and> en_preimage_ref (nw_env w) = []
     \<and> en_alg (nw_env w) = AlgEdDSA \<and> length (en_sig (nw_env w)) = 64
     \<and> dec_body K (nw_body w) = Some body \<and> enc_body K body = Some (nw_body w) \<and> nb_type body = NoticeType"

lemma decodeNotice_ok: "decodeNotice K b = Inr (w, body) \<longleftrightarrow> decoded K b w body"
  by (auto simp: decodeNotice_def decoded_def chain_iff envelope_Validate_def)

definition tip_witness :: "signed_event list \<Rightarrow> string" where
  "tip_witness kel = ks_witness (own_state kel (length kel - 1))"

lemma check_fresh_ok:
  "check_fresh observed arrival = Inr () \<longleftrightarrow>
     unat observed \<le> unat arrival + 300000 \<and> unat arrival \<le> unat observed + 21600000"
proof -
  have w: "a > b \<and> a - b > d \<longleftrightarrow> \<not> unat a \<le> unat b + unat d" for a b d :: u64
    by (cases "b \<le> a") (auto simp: word_less_nat_alt word_le_nat_alt unat_sub_le)
  show ?thesis unfolding check_fresh_def chain_iff w by (simp add: EventClockWindow_def NoticeMaxAge_def)
qed

definition notice_accepted ::
  "crypto \<Rightarrow> signed_event list \<Rightarrow> signed_event list \<Rightarrow> notice_wire \<Rightarrow> notice_body \<Rightarrow> u64 \<Rightarrow> bool" where
  "notice_accepted C kel wkel w body arrival \<longleftrightarrow>
     kel_valid C kel \<and> kel_toad kel = ToadAgent \<and> tip_witness kel \<noteq> []
     \<and> nb_aid body = kel_aid kel \<and> nb_seq body = of_nat (length kel - 1) \<and> nb_head body = se_id (last kel)
     \<and> nb_witness body = tip_witness kel \<and> en_signer_aid (nw_env w) = tip_witness kel
     \<and> kel_toad wkel = ToadHub
     \<and> VerifyObject C wkel (tip_witness kel) (en_key_state_seq (nw_env w)) (nb_observed_at body) (nw_body w)
         (en_sig (nw_env w)) = Inr ()
     \<and> (let j = Suc (unat (en_key_state_seq (nw_env w))) in j < length wkel \<longrightarrow>
          unat arrival \<le> unat (ke_ts (evt wkel j))
            + (if ke_type (evt wkel j) = Deactivation \<or> ke_emergency (evt wkel j) then 0 else 3600000))
     \<and> unat (nb_observed_at body) \<le> unat arrival + 300000
     \<and> unat arrival \<le> unat (nb_observed_at body) + 21600000"

lemma last_states: "kel_valid C kel \<Longrightarrow> last (map (state_of kel) [0..<length kel]) = own_state kel (length kel - 1)"
  by (simp add: kel_valid_def last_map state_of_supersede)

lemma check_tip_ok:
  "kel_valid C kel \<Longrightarrow> check_tip (own_state kel (length kel - 1)) w body = Inr () \<longleftrightarrow>
     kel_toad kel = ToadAgent \<and> tip_witness kel \<noteq> [] \<and> nb_aid body = kel_aid kel
     \<and> nb_seq body = of_nat (length kel - 1) \<and> nb_head body = se_id (last kel)
     \<and> nb_witness body = tip_witness kel \<and> en_signer_aid (nw_env w) = tip_witness kel"
  unfolding check_tip_def chain_iff
  by (auto simp: own_state_def tip_witness_def kel_valid_def last_conv_nth)

lemma retired_usable_state:
  assumes "i < length kel" and "\<not> is_dip kel i"
  shows "(ks_status (state_of kel i) \<noteq> StatusActive \<and> \<not> RetiredUsableAt (state_of kel i) arrival) \<longleftrightarrow>
    \<not> (Suc i < length kel \<longrightarrow> unat arrival \<le> unat (ke_ts (evt kel (Suc i)))
        + (if ke_type (evt kel (Suc i)) = Deactivation \<or> ke_emergency (evt kel (Suc i)) then 0 else 3600000))"
proof -
  have "ks_retired_urgently (state_of kel i) \<longleftrightarrow> ke_type (evt kel (Suc i)) = Deactivation \<or> ke_emergency (evt kel (Suc i))"
    if "Suc i < length kel" using that by (simp add: state_of_supersede supersede_def)
  then show ?thesis using assms retired_usable [of "state_of kel i" arrival] by (auto simp: state_of_simps)
qed

lemma check_witness_kel_ok:
  "check_witness_kel C wkel w body arrival = Inr () \<longleftrightarrow>
     kel_toad wkel = ToadHub
     \<and> VerifyObject C wkel (nb_witness body) (en_key_state_seq (nw_env w)) (nb_observed_at body) (nw_body w)
         (en_sig (nw_env w)) = Inr ()
     \<and> (let j = Suc (unat (en_key_state_seq (nw_env w))) in j < length wkel \<longrightarrow>
          unat arrival \<le> unat (ke_ts (evt wkel j))
            + (if ke_type (evt wkel j) = Deactivation \<or> ke_emergency (evt wkel j) then 0 else 3600000))"
    (is "?l \<longleftrightarrow> ?r")
proof (cases "kel_valid C wkel \<and> unat (en_key_state_seq (nw_env w)) < length wkel")
  case True
  let ?i = "unat (en_key_state_seq (nw_env w))"
  have r: "replay C wkel = Inr (map (state_of wkel) [0..<length wkel])" using True by (simp add: replay_iff)
  have t: "ks_toad (own_state wkel (length wkel - 1)) = kel_toad wkel" by (simp add: own_state_def)
  have ne: "length wkel \<noteq> 0" using True by auto
  show ?thesis
  proof (cases "VerifyObject C wkel (nb_witness body) (en_key_state_seq (nw_env w)) (nb_observed_at body) (nw_body w)
         (en_sig (nw_env w))")
    case (Inl e)
    then show ?thesis using True r ne by (simp add: check_witness_kel_def Let_def chain_iff)
  next
    case (Inr u)
    then have "\<not> is_dip wkel ?i" using VerifyObject_ok by simp
    then show ?thesis
      using True r ne t retired_usable_state [of ?i wkel arrival] last_states [of C wkel] Inr
      by (simp add: check_witness_kel_def Let_def chain_iff)
  qed
next
  case False
  then have "?r \<longleftrightarrow> False" using VerifyObject_ok by blast
  moreover have "?l \<longleftrightarrow> False"
  proof
    assume l: ?l
    then have "unat (en_key_state_seq (nw_env w)) < length wkel"
      by (auto simp: check_witness_kel_def Let_def chain_iff)
    then have "\<exists>e. replay C wkel = Inl e" using False replay_Inl_iff by blast
    then show False using l by (auto simp: check_witness_kel_def Let_def chain_iff)
  qed simp
  ultimately show ?thesis by simp
qed

lemma VerifyNotice_ok:
  "VerifyNotice C K b kel hubs arrival = Inr () \<longleftrightarrow>
     (\<exists>w body h wkel. decoded K b w body \<and> hubs = Some h \<and> h (tip_witness kel) = Some wkel
        \<and> notice_accepted C kel wkel w body arrival)"
proof (cases "kel_valid C kel")
  case True
  then have r: "replay C kel = Inr (map (state_of kel) [0..<length kel])" by (simp add: replay_iff)
  have "VerifyNotice C K b kel hubs arrival = Inr () \<longleftrightarrow>
    (\<exists>w body. decoded K b w body \<and> check_tip (own_state kel (length kel - 1)) w body = Inr ()
      \<and> (\<exists>wkel. Option.bind hubs (\<lambda>h. h (nb_witness body)) = Some wkel
         \<and> check_witness_kel C wkel w body arrival = Inr () \<and> check_fresh (nb_observed_at body) arrival = Inr ()))"
    by (auto simp: VerifyNotice_def chain_iff decodeNotice_ok r last_states [OF True] split: prod.splits)
  also have "\<dots> \<longleftrightarrow> (\<exists>w body. decoded K b w body
      \<and> (\<exists>h wkel. hubs = Some h \<and> h (tip_witness kel) = Some wkel \<and> notice_accepted C kel wkel w body arrival))"
  proof -
    have "check_tip (own_state kel (length kel - 1)) w body = Inr ()
        \<and> (\<exists>wkel. Option.bind hubs (\<lambda>h. h (nb_witness body)) = Some wkel
           \<and> check_witness_kel C wkel w body arrival = Inr () \<and> check_fresh (nb_observed_at body) arrival = Inr ())
      \<longleftrightarrow> (\<exists>h wkel. hubs = Some h \<and> h (tip_witness kel) = Some wkel \<and> notice_accepted C kel wkel w body arrival)"
      for w body
      unfolding check_tip_ok [OF True] check_witness_kel_ok check_fresh_ok notice_accepted_def bind_eq_Some_conv
      using True by (cases "nb_witness body = tip_witness kel") (simp_all add: ex_simps conj_ac cong: conj_cong, blast?)
    then show ?thesis by blast
  qed
  also have "\<dots> \<longleftrightarrow> (\<exists>w body h wkel. decoded K b w body \<and> hubs = Some h \<and> h (tip_witness kel) = Some wkel
        \<and> notice_accepted C kel wkel w body arrival)" by blast
  finally show ?thesis .
next
  case False
  then obtain e where "replay C kel = Inl e" using replay_Inl_iff by blast
  then show ?thesis using False by (auto simp: VerifyNotice_def chain_iff notice_accepted_def split: prod.splits)
qed

text \<open>\<open>VerifyNotice\<close> accepts a notice exactly when it is a well-formed notice about the tip of the sender's log, signed
  by the hub that tip names under a key state of that hub's own log usable at the observed time and at the
  arrival, and observed at most five minutes after and six hours before the arrival.\<close>

theorem VerifyNotice_iff:
  "VerifyNotice C K b kel hubs arrival = Inr () \<longleftrightarrow>
     (\<exists>w body h wkel. decoded K b w body \<and> hubs = Some h \<and> h (tip_witness kel) = Some wkel
        \<and> notice_accepted C kel wkel w body arrival)"
  by (rule VerifyNotice_ok)

section \<open>A hub's notice confirms its agents\<close>

text \<open>\<open>notice_coder_ok\<close> is the CoreDet round trip: what the encoder wrote decodes, strictly, to the value written.\<close>

definition notice_coder_ok :: "notice_codec \<Rightarrow> bool" where
  "notice_coder_ok K \<longleftrightarrow> (\<forall>w b. enc_wire K w = Some b \<longrightarrow> dec_wire K b = Some w)
     \<and> (\<forall>x b. enc_body K x = Some b \<longrightarrow> dec_body K b = Some x)"

lemma SignNotice_ok:
  assumes "SignNotice E K (Some s) body0 = Inr b"
  obtains body pre sg sq where "ke_toad (se_event (sn_kel s ! 0)) = Some ToadHub" "sn_kel s \<noteq> []"
    "body = body0 \<lparr>nb_type := NoticeType, nb_witness := sn_aid s\<rparr>" "ValidAID (nb_aid body)"
    "enc_body K body = Some pre" "SeqOf s = Some sq" "snapshot_Sign E s pre = (Some sg, sq)" "length sg = 64"
    "enc_wire K \<lparr>nw_body = pre, nw_env = \<lparr>en_signer_aid = sn_aid s, en_key_state_seq = sq, en_alg = AlgEdDSA,
       en_sig = sg, en_preimage_ref = []\<rparr>\<rparr> = Some b"
  using assms by (cases "sn_key s") (auto simp: SignNotice_def snapshot_Sign_def Let_def chain_iff)

text \<open>C14: the notice a hub signs about an agent that designates it is accepted: by a reader who holds the agent's log with the
  stated tip and, as the hub's, the log the hub published when it signed, when the message arrives from five minutes before to
  six hours after the observed time. The hub's log must not end with a deactivation.\<close>

theorem notice_confirms:
  assumes "inceptWith E k0 k1 ts toad = Inr c0" and "run (ctl_step E) c0 ops = Inr hub"
    and "\<forall>k. fst (signingLocked hub) = Some k \<longrightarrow> key_pair E k"
    and "\<not> is_dip (kelLocked hub) (length (kelLocked hub) - 1)" and "length (kelLocked hub) \<le> 2 ^ 64"
    and "replay (cr E) kel = Inr states" and "ks_toad (last states) = ToadAgent"
    and "ks_witness (last states) = c_aid hub" and "c_aid hub \<noteq> []"
    and "SignNotice E K (Some (Snapshot hub)) \<lparr>nb_type = [], nb_aid = ks_aid (last states), nb_seq = ks_seq (last states),
          nb_head = ks_last_id (last states), nb_observed_at = observed, nb_witness = []\<rparr> = Inr b"
    and "notice_coder_ok K" and "hubs (c_aid hub) = Some (kelLocked hub)"
    and "unat observed \<le> unat arrival + 300000" and "unat arrival \<le> unat observed + 21600000"
  shows "VerifyNotice (cr E) K b kel (Some hubs) arrival = Inr ()"
proof -
  have v: "kel_valid (cr E) kel" and st: "last states = own_state kel (length kel - 1)"
    using assms(6) last_states by (auto simp: replay_iff)
  have own: "ks_aid (last states) = kel_aid kel" "ks_seq (last states) = of_nat (length kel - 1)"
    "ks_last_id (last states) = se_id (last kel)" "ks_toad (last states) = kel_toad kel" "ks_witness (last states) = tip_witness kel"
    using v by (auto simp: st own_state_def tip_witness_def kel_valid_def last_conv_nth)
  have inv: "ctl_inv E hub" using ctl.run_inv [OF incept_inv [OF assms(1)] assms(2)] .
  let ?body = "\<lparr>nb_type = NoticeType, nb_aid = kel_aid kel, nb_seq = of_nat (length kel - 1), nb_head = se_id (last kel),
    nb_observed_at = observed, nb_witness = c_aid hub\<rparr>"
  obtain pre sg sq where n: "ke_toad (evt (kelLocked hub) 0) = Some ToadHub" "enc_body K ?body = Some pre"
    "snapshot_Sign E (Snapshot hub) pre = (Some sg, sq)" "length sg = 64"
    "enc_wire K \<lparr>nw_body = pre, nw_env = \<lparr>en_signer_aid = c_aid hub, en_key_state_seq = sq, en_alg = AlgEdDSA,
       en_sig = sg, en_preimage_ref = []\<rparr>\<rparr> = Some b"
    using assms(10) unfolding own by (elim SignNotice_ok) (simp add: Snapshot_def)
  let ?env = "\<lparr>en_signer_aid = c_aid hub, en_key_state_seq = sq, en_alg = AlgEdDSA, en_sig = sg, en_preimage_ref = []\<rparr>"
  let ?w = "\<lparr>nw_body = pre, nw_env = ?env\<rparr>"
  have sign: "Sign E hub pre = (Some sg, sq)"
    using n(3) by (auto simp: snapshot_Sign_def Snapshot_def Sign_def split: prod.splits option.splits)
  have obj: "VerifyObject (cr E) (kelLocked hub) (c_aid hub) sq observed pre sg = Inr ()"
    using signed_verify [OF inv sign assms(3-5)] by blast
  have "SeqOf (Snapshot hub) = Some sq" using signed_verify [OF inv sign assms(3-5)] by blast
  then have "\<not> Suc (unat sq) < length (kelLocked hub)"
  proof -
    obtain k where k: "signingLocked hub = (Some k, sq)" using sign by (auto simp: Sign_def split: prod.splits option.splits)
    have "length (kelLocked hub) - 1 < 2 ^ LENGTH(64)" using assms(5) published_valid(3) [OF inv] by (cases "kelLocked hub") simp_all
    then have "unat sq = length (kelLocked hub) - 1"
      unfolding signing_key(2) [OF inv k] by (rule unat_of_nat_less)
    then show ?thesis by simp
  qed
  then have "notice_accepted (cr E) kel (kelLocked hub) ?w ?body arrival"
    using v assms(7-9,13,14) own obj n(1) by (simp add: notice_accepted_def Let_def kel_toad_def [of "kelLocked hub"])
  moreover have "decoded K b ?w ?body"
    using assms(11) n by (simp add: decoded_def notice_coder_ok_def)
  moreover have "hubs (tip_witness kel) = Some (kelLocked hub)" using assms(8,12) own by simp
  ultimately show ?thesis unfolding VerifyNotice_ok by blast
qed

text \<open>The witness: the hub of \<open>demo_ctl\<close> confirms the agent that designated it.\<close>

definition demo_coder :: notice_codec where
  "demo_coder = \<lparr>dec_wire = (\<lambda>b. Some \<lparr>nw_body = [], nw_env = \<lparr>en_signer_aid = demo_hub_aid, en_key_state_seq = 0,
        en_alg = AlgEdDSA, en_sig = demo_key 9 @ demo_key 9, en_preimage_ref = []\<rparr>\<rparr>),
     enc_wire = (\<lambda>w. if w = \<lparr>nw_body = [], nw_env = \<lparr>en_signer_aid = demo_hub_aid, en_key_state_seq = 0,
        en_alg = AlgEdDSA, en_sig = demo_key 9 @ demo_key 9, en_preimage_ref = []\<rparr>\<rparr> then Some [] else None),
     dec_body = (\<lambda>b. Some \<lparr>nb_type = NoticeType, nb_aid = se_id demo_agent_icp, nb_seq = 1, nb_head = se_id demo_agent_rot,
        nb_observed_at = 5, nb_witness = demo_hub_aid\<rparr>),
     enc_body = (\<lambda>x. if x = \<lparr>nb_type = NoticeType, nb_aid = se_id demo_agent_icp, nb_seq = 1, nb_head = se_id demo_agent_rot,
        nb_observed_at = 5, nb_witness = demo_hub_aid\<rparr> then Some [] else None)\<rparr>"

theorem notice_confirms_witness:
  "\<exists>b. VerifyNotice demo_crypto demo_coder b [demo_agent_icp, demo_agent_rot] (Some (\<lambda>_. Some [demo_icp])) 21600005 = Inr ()"
proof -
  let ?kel = "[demo_agent_icp, demo_agent_rot]"
  have r: "run (ctl_step demo_env) demo_ctl [] = Inr demo_ctl" by simp
  have k: "kelLocked demo_ctl = [demo_icp]" by (simp add: kelLocked_def built_event_def demo_ctl_def)
  obtain states where st: "replay (cr demo_env) ?kel = Inr states" using demo_agent_valid by (auto simp: replay_iff)
  then have "states = map (state_of ?kel) [0..<length ?kel]" by (simp add: replay_iff)
  then have tip: "last states = own_state ?kel 1" using last_states [OF demo_agent_valid] by simp
  have own: "ks_aid (last states) = se_id demo_agent_icp" "ks_seq (last states) = 1"
    "ks_last_id (last states) = se_id demo_agent_rot" "ks_toad (last states) = ToadAgent" "ks_witness (last states) = c_aid demo_ctl"
    by (simp_all add: tip own_state_def kel_aid_def kel_toad_def is_dip_def demo_ctl_def)
      (simp_all add: demo_agent_icp_def demo_agent_rot_def demo_rot_def named_witness_def)
  have ne: "c_aid demo_ctl \<noteq> []" by (simp add: demo_ctl_def demo_icp_def demo_sign_def demo_cid_def)
  have g: "\<forall>k. fst (signingLocked demo_ctl) = Some k \<longrightarrow> key_pair demo_env k" using demo_key_pair by blast
  have d: "\<not> is_dip (kelLocked demo_ctl) (length (kelLocked demo_ctl) - 1)" "length (kelLocked demo_ctl) \<le> 2 ^ 64"
    unfolding k is_dip_def by (simp_all add: demo_icp_def)
  have c: "notice_coder_ok demo_coder" by (auto simp: notice_coder_ok_def demo_coder_def split: if_splits)
  have icp: "ke_toad (se_event demo_icp) = Some ToadHub" "ke_seq (se_event demo_icp) = 0" by (simp_all add: demo_icp_def)
  have sn: "Snapshot demo_ctl = \<lparr>sn_aid = demo_hub_aid, sn_seq = 0, sn_kel = [demo_icp], sn_key = Some (demo_priv 9)\<rparr>"
    by (simp add: Snapshot_def k signingLocked_def) (simp add: demo_ctl_def icp)
  have heads: "ValidAID (se_id demo_agent_icp)" "se_id demo_agent_rot \<noteq> []"
    by (simp_all add: demo_agent_icp_def demo_agent_rot_def demo_sign_def demo_cid_valid) (simp add: demo_cid_def)
  have "SignNotice demo_env demo_coder (Some (Snapshot demo_ctl)) \<lparr>nb_type = [], nb_aid = ks_aid (last states),
      nb_seq = ks_seq (last states), nb_head = ks_last_id (last states), nb_observed_at = 5, nb_witness = []\<rparr> = Inr []"
    unfolding own sn using heads icp
    by (simp add: SignNotice_def Let_def) (simp add: demo_coder_def snapshot_Sign_def SeqOf_def Let_def)
  from notice_confirms [OF demo_incept r g d st own(4,5) ne this c, of "\<lambda>_. Some [demo_icp]" 21600005]
  show ?thesis unfolding k by auto
qed

end
