(* ===== verification/Signed_Object.thy ===== *)
theory Signed_Object
  imports Kel_Notice
begin

text \<open>
  Objects with a detached signature (\<open>aobj/aobj.go\<close>, \<open>identity/signer.go\<close>): what every package that signs does
  with a \<open>Signer\<close>, and the contract its \<open>Sign\<close> and \<open>Verify\<close> share, the locale \<open>signed_object\<close>. The packages
  interpret the locale for their own objects.
\<close>

section \<open>Signers\<close>

text \<open>The interface \<open>Signer\<close>: \<open>Sign\<close> may return a nil signature.\<close>

record signer =
  sg_aid :: string
  sg_sign :: "bytes \<Rightarrow> bytes option \<times> u64"
  sg_kel :: "signed_event list"

definition controller_signer :: "sign_env \<Rightarrow> controller \<Rightarrow> signer" where
  "controller_signer E c = \<lparr>sg_aid = c_aid c, sg_sign = Sign E c, sg_kel = kelLocked c\<rparr>"

definition snapshot_signer :: "sign_env \<Rightarrow> snapshot \<Rightarrow> signer" where
  "snapshot_signer E s = \<lparr>sg_aid = sn_aid s, sg_sign = snapshot_Sign E s, sg_kel = sn_kel s\<rparr>"

text \<open>\<open>sig, seq := s.Sign(pre)\<close>, and the envelope made of them.\<close>

definition attach :: "signer \<Rightarrow> bytes \<Rightarrow> envelope" where
  "attach s pre =
     (case sg_sign s pre of (sg, seq) \<Rightarrow>
        \<lparr>en_signer_aid = sg_aid s, en_key_state_seq = seq, en_alg = AlgEdDSA,
         en_sig = (case sg of None \<Rightarrow> [] | Some b \<Rightarrow> b), en_preimage_ref = []\<rparr>)"

text \<open>A signer whose signatures its own log verifies.\<close>

definition honest_signer :: "crypto \<Rightarrow> signer \<Rightarrow> bool" where
  "honest_signer C s \<longleftrightarrow> (\<forall>pre. \<exists>sg seq. sg_sign s pre = (Some sg, seq) \<and> length sg = 64
     \<and> (\<forall>t. VerifyObject C (sg_kel s) (sg_aid s) seq t pre sg = Inr ()))"

text \<open>A controller that holds a key and is not deactivated.\<close>

definition live :: "sign_env \<Rightarrow> controller \<Rightarrow> bool" where
  "live E c \<longleftrightarrow> (\<exists>k. fst (signingLocked c) = Some k \<and> key_pair E k \<and> (\<forall>pre. length (ed_sign E k pre) = 64))
     \<and> \<not> is_dip (kelLocked c) (length (kelLocked c) - 1) \<and> length (kelLocked c) \<le> 2 ^ 64"

lemma controller_honest:
  assumes inv: "ctl_inv E c" and l: "live E c"
  shows "honest_signer (cr E) (controller_signer E c)" and "honest_signer (cr E) (snapshot_signer E (Snapshot c))"
proof -
  obtain k where k: "fst (signingLocked c) = Some k" "key_pair E k" "\<And>pre. length (ed_sign E k pre) = 64"
    using l unfolding live_def by blast
  have s: "Sign E c pre = (Some (ed_sign E k pre), snd (signingLocked c))" for pre
    using k(1) by (cases "signingLocked c") (simp add: Sign_def)
  have g: "\<forall>k. fst (signingLocked c) = Some k \<longrightarrow> key_pair E k" using k by simp
  have v: "VerifyObject (cr E) (kelLocked c) (c_aid c) (snd (signingLocked c)) t pre (ed_sign E k pre) = Inr ()
      \<and> snapshot_Sign E (Snapshot c) pre = Sign E c pre" for t pre
    using signed_verify [OF inv s g] l unfolding live_def by blast
  show "honest_signer (cr E) (controller_signer E c)"
    using v s k(3) by (simp add: honest_signer_def controller_signer_def)
  show "honest_signer (cr E) (snapshot_signer E (Snapshot c))"
    using v s k(3) by (simp add: honest_signer_def snapshot_signer_def) (simp add: Snapshot_def)
qed

lemma attach_honest:
  assumes "honest_signer C s"
  shows "envelope_Validate (attach s pre)" "en_signer_aid (attach s pre) = sg_aid s"
    "VerifyObject C (sg_kel s) (sg_aid s) (en_key_state_seq (attach s pre)) t pre (en_sig (attach s pre)) = Inr ()"
    "en_preimage_ref (attach s pre) = []"
proof -
  obtain sg seq where "sg_sign s pre = (Some sg, seq)" "length sg = 64"
    "\<And>t. VerifyObject C (sg_kel s) (sg_aid s) seq t pre sg = Inr ()"
    using assms unfolding honest_signer_def by metis
  then show "envelope_Validate (attach s pre)" "en_signer_aid (attach s pre) = sg_aid s"
    "VerifyObject C (sg_kel s) (sg_aid s) (en_key_state_seq (attach s pre)) t pre (en_sig (attach s pre)) = Inr ()"
    "en_preimage_ref (attach s pre) = []"
    by (simp_all add: attach_def envelope_Validate_def)
qed

lemma attach_signer [simp]: "en_signer_aid (attach s pre) = sg_aid s" "en_preimage_ref (attach s pre) = []"
  by (simp_all add: attach_def split: prod.splits)

section \<open>The contract\<close>

text \<open>\<open>pre\<close> gives the signed bytes of an object, \<open>env\<close> its envelope, \<open>terms\<close> what its \<open>Verify\<close> checks besides the
  signature against the context \<open>x\<close>, and \<open>time\<close> the time it hands to \<open>VerifyObject\<close>.\<close>

definition envelope_holds :: "crypto \<Rightarrow> signed_event list \<Rightarrow> u64 \<Rightarrow> bytes \<Rightarrow> envelope \<Rightarrow> bool" where
  "envelope_holds C kel t pre e \<longleftrightarrow> envelope_Validate e
     \<and> VerifyObject C kel (en_signer_aid e) (en_key_state_seq e) t pre (en_sig e) = Inr ()"

locale signed_object =
  fixes sign :: "signer \<Rightarrow> 'i \<Rightarrow> 'e + 'o"
    and verify :: "crypto \<Rightarrow> signed_event list \<Rightarrow> 'x \<Rightarrow> 'o \<Rightarrow> 'f + unit"
    and pre :: "'o \<Rightarrow> bytes option" and env :: "'o \<Rightarrow> envelope option"
    and terms :: "'x \<Rightarrow> 'o \<Rightarrow> bool" and time :: "'x \<Rightarrow> 'o \<Rightarrow> u64"
  assumes sign_law: "sign s u = Inr w \<Longrightarrow> \<exists>b. pre w = Some b \<and> env w = Some (attach s b)"
    and verify_law: "verify C kel x v = Inr () \<longleftrightarrow>
      terms x v \<and> (\<exists>e b. env v = Some e \<and> pre v = Some b \<and> envelope_holds C kel (time x v) b e)"
begin

lemma sign_verify:
  assumes "honest_signer C s" and "sign s u = Inr w" and "terms x w"
  shows "verify C (sg_kel s) x w = Inr ()"
  using sign_law [OF assms(2)] assms(3) attach_honest [OF assms(1)] by (auto simp: verify_law envelope_holds_def)

lemma signed_by_key:
  assumes "verify C kel x v = Inr ()"
  obtains e b where "env v = Some e" "pre v = Some b" "terms x v" "kel_valid C kel" "kel_aid kel = en_signer_aid e"
    "unat (en_key_state_seq e) < length kel"
    "ed_verify C (ke_keys (evt kel (unat (en_key_state_seq e))) ! 0) b (en_sig e)"
  using assms unfolding verify_law envelope_holds_def VerifyObject_ok by blast

text \<open>A longer log can only withdraw an acceptance.\<close>

lemma verify_shorter:
  assumes "verify C (kel @ new) x v = Inr ()" and "env v = Some e" and "unat (en_key_state_seq e) < length kel"
  shows "verify C kel x v = Inr ()"
proof -
  have "kel_valid C kel" if "kel_valid C (kel @ new)" using kel_valid_append [OF that] assms(3) by (cases kel) auto
  moreover have "kel_aid (kel @ new) = kel_aid kel" using assms(3) by (cases kel) (simp_all add: kel_aid_def)
  ultimately show ?thesis
    using assms unfolding verify_law envelope_holds_def VerifyObject_ok by (auto simp: nth_append is_dip_def)
qed

end

section \<open>Strict codecs\<close>

text \<open>What the code relies on of CoreDet: the strict decoder reads back what the encoder wrote.\<close>

definition coder_ok :: "('v \<Rightarrow> bytes option) \<Rightarrow> (bytes \<Rightarrow> 'v option) \<Rightarrow> bool" where
  "coder_ok enc dec \<longleftrightarrow> (\<forall>v b. enc v = Some b \<longrightarrow> dec b = Some v)"

lemma coder_okD: "coder_ok enc dec \<Longrightarrow> enc v = Some b \<Longrightarrow> dec b = Some v"
  by (simp add: coder_ok_def)

lemma coder_ok_one: "coder_ok (\<lambda>v. if v = v0 then Some b0 else None) (\<lambda>_. Some v0)"
  by (simp add: coder_ok_def)

section \<open>An example signer\<close>

definition demo_signer :: signer where
  "demo_signer = controller_signer demo_env demo_ctl"

lemma demo_live: "live demo_env demo_ctl"
proof -
  have "fst (signingLocked demo_ctl) = Some (demo_priv 9)" by (simp add: signingLocked_def demo_ctl_def)
  moreover have "kelLocked demo_ctl = [demo_icp]" by (simp add: kelLocked_def built_event_def demo_ctl_def)
  moreover have "\<not> is_dip [demo_icp] 0" by (simp add: is_dip_def) (simp add: demo_icp_def)
  ultimately show ?thesis using demo_key_pair by (simp add: live_def)
qed

lemma demo_honest: "honest_signer demo_crypto demo_signer"
  using controller_honest(1) [OF incept_inv [OF demo_incept] demo_live] by (simp add: demo_signer_def)

lemma demo_signer_simps [simp]: "sg_aid demo_signer = se_id demo_icp" "sg_kel demo_signer = [demo_icp]"
  by (simp_all add: demo_signer_def controller_signer_def kelLocked_def built_event_def demo_ctl_def)

end
