(* ===== verification/Taskdoc.thy ===== *)
theory Taskdoc
  imports Tsir_Props Signed_Object
begin

text \<open>
  The task document (\<open>tsir/taskdoc.go\<close>): its parts, the preimage its identifier and signature are taken over,
  signing, verification and \<open>Compile\<close>. The CoreDet encoder of the preimage is the parameter \<open>enc\<close>.
\<close>

section \<open>Data\<close>

record version_pair =
  vp_major :: u64
  vp_minor :: u64

record meta_entry =
  me_name :: string
  me_value :: string

record link =
  li_rel :: string
  li_href :: string
  li_title :: string

record intent =
  in_summary :: string
  in_format :: string
  in_body :: string

record require =
  rq_id :: string
  rq_type :: string
  rq_necessity :: string
  rq_description :: string

record task_output =
  ou_format :: string
  ou_max_size :: string
  ou_name :: string

record task_schema =
  sm_type :: string
  sm_body :: string

record task_accept =
  ta_type :: string
  ta_description :: string
  ta_outputs :: "task_output list"
  ta_schema :: "task_schema option"

record task_context =
  cx_key :: string
  cx_value :: string
  cx_src :: string
  cx_format :: string
  cx_visibility :: string

record task =
  tk_id :: string
  tk_intent :: intent
  tk_requires :: "require list"
  tk_accepts :: "task_accept list"
  tk_contexts :: "task_context list"
  tk_positive :: "predicate option"
  tk_negative :: "predicate option"
  tk_coupling :: int

record taskdoc =
  td_version :: version_pair
  td_meta :: "meta_entry list"
  td_links :: "link list"
  td_tasks :: "task list"
  td_critical :: "u64 list"
  td_envelope :: "envelope option"

record taskdoc_preimage =
  tp_major :: u64
  tp_links :: "link list"
  tp_tasks :: "task list"

datatype taskdoc_err =
    PreimageFails | CidFails | Unsigned | BadEnvelope | NotVerified verr | NoTasks | Malformed

section \<open>Identifier and signature\<close>

definition canonical_preimage :: "taskdoc \<Rightarrow> taskdoc_preimage" where
  "canonical_preimage d = \<lparr>tp_major = vp_major (td_version d), tp_links = td_links d, tp_tasks = td_tasks d\<rparr>"

definition CanonicalPreimage :: "(taskdoc_preimage \<Rightarrow> bytes option) \<Rightarrow> taskdoc \<Rightarrow> bytes option" where
  "CanonicalPreimage enc d = enc (canonical_preimage d)"

definition taskdoc_CID :: "crypto \<Rightarrow> (taskdoc_preimage \<Rightarrow> bytes option) \<Rightarrow> taskdoc \<Rightarrow> taskdoc_err + string" where
  "taskdoc_CID C enc d =
     (case CanonicalPreimage enc d of
        None \<Rightarrow> Inl PreimageFails
      | Some pre \<Rightarrow> (case cid_sum C pre of None \<Rightarrow> Inl CidFails | Some c \<Rightarrow> Inr c))"

definition taskdoc_Sign :: "(taskdoc_preimage \<Rightarrow> bytes option) \<Rightarrow> signer \<Rightarrow> taskdoc \<Rightarrow> taskdoc_err + taskdoc" where
  "taskdoc_Sign enc s d =
     (case CanonicalPreimage enc d of
        None \<Rightarrow> Inl PreimageFails
      | Some pre \<Rightarrow> Inr (d \<lparr>td_envelope := Some (attach s pre)\<rparr>))"

definition taskdoc_Verify ::
  "(taskdoc_preimage \<Rightarrow> bytes option) \<Rightarrow> crypto \<Rightarrow> signed_event list \<Rightarrow> u64 \<Rightarrow> taskdoc \<Rightarrow> taskdoc_err + unit" where
  "taskdoc_Verify enc C kel msgTime d =
     (case td_envelope d of
        None \<Rightarrow> Inl Unsigned
      | Some e \<Rightarrow>
          if \<not> envelope_Validate e then Inl BadEnvelope
          else case CanonicalPreimage enc d of
            None \<Rightarrow> Inl PreimageFails
          | Some pre \<Rightarrow>
              (case VerifyObject C kel (en_signer_aid e) (en_key_state_seq e) msgTime pre (en_sig e) of
                 Inl err \<Rightarrow> Inl (NotVerified err)
               | Inr _ \<Rightarrow> Inr ()))"

section \<open>Compile\<close>

record compile_result =
  co_task_cid :: string
  co_intent :: intent
  co_acceptance :: "predicate option"
  co_negative :: "predicate option"
  co_coupling :: int
  co_eligible :: bool

definition check_scope :: "predicate option \<Rightarrow> taskdoc_err + unit" where
  "check_scope p =
     (case p of
        None \<Rightarrow> Inr ()
      | Some q \<Rightarrow> (case Validate (Some q) of Inl _ \<Rightarrow> Inl Malformed | Inr _ \<Rightarrow> Inr ()))"

definition Compile ::
  "crypto \<Rightarrow> (taskdoc_preimage \<Rightarrow> bytes option) \<Rightarrow> taskdoc \<Rightarrow> signed_event list \<Rightarrow> u64 \<Rightarrow> taskdoc_err + compile_result" where
  "Compile C enc d kel msgTime =
     ebind (taskdoc_Verify enc C kel msgTime d) (\<lambda>_.
       if length (td_tasks d) = 0 then Inl NoTasks
       else ebind (taskdoc_CID C enc d) (\<lambda>cid.
         let t = td_tasks d ! 0 in
         if tk_coupling t \<noteq> 0 \<and> (tk_coupling t < 1 \<or> tk_coupling t > 4) then Inl Malformed
         else ebind (check_scope (tk_negative t)) (\<lambda>_.
           ebind (check_scope (tk_positive t)) (\<lambda>_.
             Inr \<lparr>co_task_cid = cid, co_intent = tk_intent t, co_acceptance = None, co_negative = tk_negative t,
                  co_coupling = tk_coupling t,
                  co_eligible = list_ex (\<lambda>a. ta_type a \<noteq> ''qualitative'') (tk_accepts t)\<rparr>))))"

text \<open>The goal shown to people (\<open>delegation.TaskGoal\<close>); a nil document is \<open>None\<close>.\<close>

definition TaskGoal :: "taskdoc option \<Rightarrow> string" where
  "TaskGoal td =
     (case td of
        None \<Rightarrow> []
      | Some d \<Rightarrow>
          if length (td_tasks d) = 0 then []
          else if in_body (tk_intent (td_tasks d ! 0)) \<noteq> [] then in_body (tk_intent (td_tasks d ! 0))
          else in_summary (tk_intent (td_tasks d ! 0)))"

section \<open>The contract of signed objects\<close>

lemma preimage_signed [simp]: "CanonicalPreimage enc (d \<lparr>td_envelope := e\<rparr>) = CanonicalPreimage enc d"
  by (simp add: CanonicalPreimage_def canonical_preimage_def)

interpretation taskdoc: signed_object "taskdoc_Sign enc" "taskdoc_Verify enc" "CanonicalPreimage enc" td_envelope
  "\<lambda>_ _. True" "\<lambda>t _. t" for enc
proof unfold_locales
  fix s v w assume "taskdoc_Sign enc s v = Inr w"
  then show "\<exists>b. CanonicalPreimage enc w = Some b \<and> td_envelope w = Some (attach s b)"
    by (auto simp: taskdoc_Sign_def split: option.splits)
next
  fix C kel t v
  show "taskdoc_Verify enc C kel t v = Inr () \<longleftrightarrow>
    True \<and> (\<exists>e b. td_envelope v = Some e \<and> CanonicalPreimage enc v = Some b \<and> envelope_holds C kel t b e)"
    by (auto simp: taskdoc_Verify_def envelope_holds_def split: option.splits sum.splits)
qed

lemma Compile_ok:
  assumes "Compile C enc d kel t = Inr r"
  shows "taskdoc_Verify enc C kel t d = Inr ()" "td_tasks d \<noteq> []" "taskdoc_CID C enc d = Inr (co_task_cid r)"
    "co_negative r = tk_negative (td_tasks d ! 0)" "check_scope (co_negative r) = Inr ()" "co_intent r = tk_intent (td_tasks d ! 0)"
  using assms by (auto simp: Compile_def Let_def chain_iff)

lemma gate_total:
  assumes "check_scope p = Inr ()"
  shows "\<exists>v. EvaluateScope p e = Some v \<and> (v = ScopeViolation \<longleftrightarrow> (\<exists>q. p = Some q \<and> meaning e q))"
proof (cases p)
  case (Some q)
  then obtain u where "Validate (Some q) = Inr u" using assms by (auto simp: check_scope_def split: sum.splits)
  then have "Evaluate e (Some q) = Some (meaning e q)" using evaluate_meaning unfolding Validate_def by fastforce
  then show ?thesis using Some by (simp add: EvaluateScope_def)
qed (simp add: EvaluateScope_def)

text \<open>C19: only verified documents compile, and the gate of a compiled document decides every effect record: it
  never panics, and refuses a record exactly when the forbidden pattern of the signer's first task means it.
  The compiled identifier is one of the bytes the signer signed.\<close>

theorem compiled_gate:
  assumes "Compile C enc d kel t = Inr r"
  shows "(\<exists>e pre. td_envelope d = Some e \<and> CanonicalPreimage enc d = Some pre \<and> kel_aid kel = en_signer_aid e
      \<and> ed_verify C (ke_keys (evt kel (unat (en_key_state_seq e))) ! 0) pre (en_sig e) \<and> cid_sum C pre = Some (co_task_cid r))
    \<and> (\<exists>v. EvaluateScope (co_negative r) eff = Some v
      \<and> (v = ScopeViolation \<longleftrightarrow> (\<exists>p. tk_negative (td_tasks d ! 0) = Some p \<and> meaning eff p)))"
proof -
  note c = Compile_ok [OF assms]
  obtain e pre where "td_envelope d = Some e" "CanonicalPreimage enc d = Some pre" "kel_aid kel = en_signer_aid e"
    "ed_verify C (ke_keys (evt kel (unat (en_key_state_seq e))) ! 0) pre (en_sig e)"
    using taskdoc.signed_by_key [OF c(1)] by metis
  moreover have "cid_sum C pre = Some (co_task_cid r)" using c(3) calculation(2) by (auto simp: taskdoc_CID_def split: option.splits)
  ultimately show ?thesis using gate_total [OF c(5)] c(4) by auto
qed

definition demo_doc :: taskdoc where
  "demo_doc = \<lparr>td_version = \<lparr>vp_major = 1, vp_minor = 0\<rparr>, td_meta = [], td_links = [],
     td_tasks = [\<lparr>tk_id = [], tk_intent = \<lparr>in_summary = [], in_format = [], in_body = ''sum''\<rparr>, tk_requires = [], tk_accepts = [],
       tk_contexts = [], tk_positive = None, tk_negative = Some demo_predicate, tk_coupling = 0\<rparr>],
     td_critical = [], td_envelope = None\<rparr>"

theorem compiled_gate_witness:
  "\<exists>r v. Compile demo_crypto (\<lambda>_. Some [1]) (demo_doc \<lparr>td_envelope := Some (attach demo_signer [1])\<rparr>) [demo_icp] 5 = Inr r
     \<and> EvaluateScope (co_negative r) demo_record = Some v"
proof -
  let ?d = "demo_doc \<lparr>td_envelope := Some (attach demo_signer [1])\<rparr>" let ?enc = "\<lambda>_. Some [1]"
  have "taskdoc_Sign ?enc demo_signer demo_doc = Inr ?d" by (simp add: taskdoc_Sign_def CanonicalPreimage_def)
  from taskdoc.sign_verify [OF demo_honest this] have v: "taskdoc_Verify ?enc demo_crypto [demo_icp] 5 ?d = Inr ()" by simp
  have "check_scope (Some demo_predicate) = Inr ()"
    by (simp add: check_scope_def Validate_def demo_predicate_def demo_leaf_def op_codes validate_leaf_def MaxPredicateDepth_def)
  moreover have t: "td_tasks ?d = [\<lparr>tk_id = [], tk_intent = \<lparr>in_summary = [], in_format = [], in_body = ''sum''\<rparr>,
      tk_requires = [], tk_accepts = [], tk_contexts = [], tk_positive = None, tk_negative = Some demo_predicate, tk_coupling = 0\<rparr>]"
    by (simp add: demo_doc_def)
  moreover have "check_scope None = Inr ()" by (simp add: check_scope_def)
  moreover have "taskdoc_CID demo_crypto ?enc ?d = Inr (demo_cid [1])" by (simp add: taskdoc_CID_def CanonicalPreimage_def)
  ultimately have "\<exists>r. Compile demo_crypto ?enc ?d [demo_icp] 5 = Inr r"
    unfolding Compile_def v t by (simp only: ebind_simps Let_def) simp
  then obtain r where r: "Compile demo_crypto ?enc ?d [demo_icp] 5 = Inr r" by blast
  obtain v where "EvaluateScope (co_negative r) demo_record = Some v"
    using compiled_gate [OF r, of demo_record, THEN conjunct2] by (elim exE conjE)
  then show ?thesis using r by blast
qed

end
