(* ===== verification/Payment.thy ===== *)
theory Payment
  imports Signed_Object
begin

text \<open>
  Payment authorizations and settlement receipts of the \<open>anet-credit\<close> scheme (\<open>payment/payment.go\<close>): signing,
  verification with its validity window, the wire forms, and amounts as decimal strings. An \<open>int64\<close> is a
  \<open>64 word\<close> read by \<open>sint\<close>. The CoreDet encoders are parameters.
\<close>

type_synonym i64 = "64 word"

section \<open>Amounts\<close>

definition digit_char :: "nat \<Rightarrow> char" where
  "digit_char d = char_of (48 + d)"

fun decimal :: "nat \<Rightarrow> string" where
  "decimal n = (if n < 10 then [digit_char n] else decimal (n div 10) @ [digit_char (n mod 10)])"

declare decimal.simps [simp del]

definition Amount :: "u64 \<Rightarrow> string" where
  "Amount n = decimal (unat n)"

definition is_digit :: "char \<Rightarrow> bool" where
  "is_digit c \<longleftrightarrow> 48 \<le> (of_char c :: nat) \<and> (of_char c :: nat) \<le> 57"

definition digits_value :: "string \<Rightarrow> nat" where
  "digits_value s = foldl (\<lambda>n c. n * 10 + (of_char c - 48)) 0 s"

text \<open>\<open>strconv.ParseUint(s, 10, nbits)\<close>: digits only, at least one, and a value that fits.\<close>

definition ParseUint :: "string \<Rightarrow> nat \<Rightarrow> u64 option" where
  "ParseUint s nbits =
     (if s = [] \<or> \<not> list_all is_digit s then None
      else if digits_value s \<ge> 2 ^ nbits then None
      else Some (of_nat (digits_value s)))"

datatype amount_err = LeadingZero | NotWholeNumber

definition ParseAmount :: "string \<Rightarrow> amount_err + u64" where
  "ParseAmount s =
     (if length s > 1 \<and> s ! 0 = CHR ''0'' then Inl LeadingZero
      else case ParseUint s 63 of None \<Rightarrow> Inl NotWholeNumber | Some n \<Rightarrow> Inr n)"

section \<open>Data\<close>

definition SchemeCredit :: string where "SchemeCredit = ''anet-credit''"

definition CreditNetwork :: "string \<Rightarrow> string" where
  "CreditNetwork hubAID = ''hub:'' @ hubAID"

record auth_terms =
  at_payer :: string
  at_pay_to :: string
  at_amount :: u64
  at_network :: string
  at_nonce :: string
  at_issued :: i64
  at_not_after :: i64
  at_interaction :: string

record authorization = auth_terms +
  au_envelope :: "envelope option"

record receipt_terms =
  rt_auth_id :: string
  rt_payer :: string
  rt_pay_to :: string
  rt_amount :: u64
  rt_network :: string
  rt_settle_at :: i64

record receipt = receipt_terms +
  re_envelope :: "envelope option"

datatype pay_err =
    PayPreimage | PayCid | ErrUnsigned | PayEnvelope | ErrWrongPayer | ErrBadWindow | ErrExpired | WrongSigner
  | PayNotVerified verr | PayDecode

section \<open>Authorizations\<close>

definition auth_canonical :: "authorization \<Rightarrow> auth_terms" where
  "auth_canonical a = auth_terms.truncate a"

definition auth_preimage :: "(auth_terms \<Rightarrow> bytes option) \<Rightarrow> authorization \<Rightarrow> bytes option" where
  "auth_preimage enc a = enc (auth_canonical a)"

definition auth_ID :: "crypto \<Rightarrow> (auth_terms \<Rightarrow> bytes option) \<Rightarrow> authorization \<Rightarrow> pay_err + string" where
  "auth_ID C enc a =
     (case auth_preimage enc a of
        None \<Rightarrow> Inl PayPreimage
      | Some pre \<Rightarrow> (case cid_sum C pre of None \<Rightarrow> Inl PayCid | Some i \<Rightarrow> Inr i))"

definition auth_Sign :: "(auth_terms \<Rightarrow> bytes option) \<Rightarrow> signer \<Rightarrow> authorization \<Rightarrow> pay_err + authorization" where
  "auth_Sign enc s a0 =
     (let a = a0 \<lparr>at_payer := sg_aid s\<rparr> in
      case auth_preimage enc a of
        None \<Rightarrow> Inl PayPreimage
      | Some pre \<Rightarrow> Inr (a \<lparr>au_envelope := Some (attach s pre)\<rparr>))"

definition ClockSkew :: u64 where "ClockSkew = 2 * 60 * 1000"

definition pastWithSkew :: "i64 \<Rightarrow> i64 \<Rightarrow> bool" where
  "pastWithSkew now t \<longleftrightarrow> sint now > sint t \<and> now - t > ClockSkew"

definition beforeWithSkew :: "i64 \<Rightarrow> i64 \<Rightarrow> bool" where
  "beforeWithSkew now t \<longleftrightarrow> sint now < sint t \<and> t - now > ClockSkew"

definition auth_Verify ::
  "(auth_terms \<Rightarrow> bytes option) \<Rightarrow> crypto \<Rightarrow> signed_event list \<Rightarrow> i64 \<Rightarrow> authorization \<Rightarrow> pay_err + unit" where
  "auth_Verify enc C kel now a =
     (case au_envelope a of
        None \<Rightarrow> Inl ErrUnsigned
      | Some e \<Rightarrow>
          if \<not> envelope_Validate e then Inl PayEnvelope
          else if en_signer_aid e \<noteq> at_payer a then Inl ErrWrongPayer
          else if sint (at_issued a) \<le> 0 \<or> sint (at_not_after a) \<le> sint (at_issued a) then Inl ErrBadWindow
          else if beforeWithSkew now (at_issued a) \<or> pastWithSkew now (at_not_after a) then Inl ErrExpired
          else case auth_preimage enc a of
            None \<Rightarrow> Inl PayPreimage
          | Some pre \<Rightarrow>
              (case VerifyObject C kel (at_payer a) (en_key_state_seq e) now pre (en_sig e) of
                 Inl err \<Rightarrow> Inl (PayNotVerified err)
               | Inr _ \<Rightarrow> Inr ()))"

text \<open>The wire form carries the terms and the envelope side by side.\<close>

record wire_auth =
  wa_auth :: auth_terms
  wa_envelope :: "envelope option"

definition auth_Marshal :: "(wire_auth \<Rightarrow> bytes option) \<Rightarrow> authorization \<Rightarrow> bytes option" where
  "auth_Marshal encw a = encw \<lparr>wa_auth = auth_canonical a, wa_envelope = au_envelope a\<rparr>"

definition UnmarshalAuthorization :: "(bytes \<Rightarrow> wire_auth option) \<Rightarrow> bytes \<Rightarrow> pay_err + authorization" where
  "UnmarshalAuthorization decw b =
     (case decw b of
        None \<Rightarrow> Inl PayDecode
      | Some w \<Rightarrow> Inr (auth_terms.extend (wa_auth w) (authorization.fields (wa_envelope w))))"

section \<open>Settlement receipts\<close>

definition receipt_canonical :: "receipt \<Rightarrow> receipt_terms" where
  "receipt_canonical r = receipt_terms.truncate r"

definition receipt_preimage :: "(receipt_terms \<Rightarrow> bytes option) \<Rightarrow> receipt \<Rightarrow> bytes option" where
  "receipt_preimage enc r = enc (receipt_canonical r)"

definition receipt_Sign :: "(receipt_terms \<Rightarrow> bytes option) \<Rightarrow> signer \<Rightarrow> receipt \<Rightarrow> pay_err + receipt" where
  "receipt_Sign enc s r =
     (case receipt_preimage enc r of
        None \<Rightarrow> Inl PayPreimage
      | Some pre \<Rightarrow> Inr (r \<lparr>re_envelope := Some (attach s pre)\<rparr>))"

text \<open>The context is the settling hub expected (empty for any) and the time.\<close>

definition receipt_Verify ::
  "(receipt_terms \<Rightarrow> bytes option) \<Rightarrow> crypto \<Rightarrow> signed_event list \<Rightarrow> string \<times> i64 \<Rightarrow> receipt \<Rightarrow> pay_err + unit" where
  "receipt_Verify enc C kel x r =
     (case re_envelope r of
        None \<Rightarrow> Inl ErrUnsigned
      | Some e \<Rightarrow>
          if \<not> envelope_Validate e then Inl PayEnvelope
          else if fst x \<noteq> [] \<and> en_signer_aid e \<noteq> fst x then Inl WrongSigner
          else case receipt_preimage enc r of
            None \<Rightarrow> Inl PayPreimage
          | Some pre \<Rightarrow>
              (case VerifyObject C kel (en_signer_aid e) (en_key_state_seq e) (snd x) pre (en_sig e) of
                 Inl err \<Rightarrow> Inl (PayNotVerified err)
               | Inr _ \<Rightarrow> Inr ()))"

record wire_receipt =
  wr_receipt :: receipt_terms
  wr_envelope :: "envelope option"

definition receipt_Marshal :: "(wire_receipt \<Rightarrow> bytes option) \<Rightarrow> receipt \<Rightarrow> bytes option" where
  "receipt_Marshal encw r = encw \<lparr>wr_receipt = receipt_canonical r, wr_envelope = re_envelope r\<rparr>"

definition UnmarshalReceipt :: "(bytes \<Rightarrow> wire_receipt option) \<Rightarrow> bytes \<Rightarrow> pay_err + receipt" where
  "UnmarshalReceipt decw b =
     (case decw b of
        None \<Rightarrow> Inl PayDecode
      | Some w \<Rightarrow> Inr (receipt_terms.extend (wr_receipt w) (receipt.fields (wr_envelope w))))"

section \<open>Amounts are canonical decimals\<close>

lemma of_char_digit: "d < 10 \<Longrightarrow> of_char (digit_char d) = 48 + (d :: nat)"
  by (simp add: digit_char_def)

lemma digit_char_of: "is_digit c \<Longrightarrow> digit_char (of_char c - 48) = c"
  by (simp add: digit_char_def is_digit_def)

lemma digits_value_snoc: "digits_value (s @ [c]) = digits_value s * 10 + (of_char c - 48)"
  by (simp add: digits_value_def)

lemma decimal_digits: "decimal n \<noteq> [] \<and> list_all is_digit (decimal n) \<and> digits_value (decimal n) = n"
proof (induction n rule: decimal.induct)
  case (1 n)
  have d: "is_digit (digit_char m)" if "m < 10" for m using that of_char_digit [OF that] by (simp add: is_digit_def)
  show ?case
  proof (cases "n < 10")
    case True
    then show ?thesis using d [OF True] of_char_digit [OF True] by (simp add: decimal.simps [of n] digits_value_def)
  next
    case False
    have "n mod 10 < 10" by simp
    from 1 [OF False] d [OF this] of_char_digit [OF this] show ?thesis
      using False by (simp add: decimal.simps [of n] digits_value_snoc)
  qed
qed

lemma digits_positive:
  assumes "list_all is_digit s" and "s \<noteq> []" and "s ! 0 \<noteq> CHR ''0''"
  shows "0 < digits_value s"
  using assms
proof (induction s rule: rev_induct)
  case (snoc c s)
  show ?case
  proof (cases "s = []")
    case True
    have "is_digit c" and ne: "c \<noteq> CHR ''0''" using snoc True by auto
    have "of_char (CHR ''0'') = (48 :: nat)" by simp
    then have "of_char c \<noteq> (48 :: nat)" using ne by (metis of_char_eq_iff)
    then show ?thesis using \<open>is_digit c\<close> True by (simp add: digits_value_def is_digit_def)
  next
    case False
    then have "0 < digits_value s" using snoc by (simp add: nth_append)
    then show ?thesis by (simp add: digits_value_snoc)
  qed
qed simp

lemma decimal_value:
  assumes "list_all is_digit s" and "s \<noteq> []" and "\<not> (length s > 1 \<and> s ! 0 = CHR ''0'')"
  shows "decimal (digits_value s) = s"
  using assms
proof (induction s rule: rev_induct)
  case (snoc c s)
  have c: "is_digit c" using snoc(2) by simp
  then have d: "of_char c - 48 < (10 :: nat)" unfolding is_digit_def by linarith
  show ?case
  proof (cases "s = []")
    case True
    then show ?thesis using d digit_char_of [OF c] by (simp add: digits_value_def decimal.simps)
  next
    case False
    then have s0: "s ! 0 \<noteq> CHR ''0''" "list_all is_digit s" using snoc(2,4) by (simp_all add: nth_append)
    then have pos: "0 < digits_value s" using False digits_positive by blast
    have s: "decimal (digits_value s) = s" using snoc(1) s0 False by blast
    have "decimal (digits_value s * 10 + (of_char c - 48)) = decimal (digits_value s) @ [digit_char (of_char c - 48)]"
      using pos d by (subst decimal.simps) simp
    then show ?thesis using s digit_char_of [OF c] by (simp add: digits_value_snoc)
  qed
qed simp

lemma decimal_leading: "\<not> (length (decimal n) > 1 \<and> decimal n ! 0 = CHR ''0'')"
proof (induction n rule: decimal.induct)
  case (1 n)
  show ?case
  proof (cases "n < 10")
    case False
    have ne: "decimal (n div 10) \<noteq> []" using decimal_digits by blast
    have "decimal (n div 10) ! 0 \<noteq> CHR ''0''"
    proof (cases "length (decimal (n div 10)) > 1")
      case no: False
      then obtain x where x: "decimal (n div 10) = [x]" using ne by (cases "decimal (n div 10)") auto
      have "digits_value [x] = n div 10" using decimal_digits [of "n div 10"] x by simp
      then show ?thesis using False x by (auto simp: digits_value_def)
    qed (use 1 [OF False] in blast)
    then show ?thesis using False ne by (simp add: decimal.simps [of n] nth_append)
  qed (simp add: decimal.simps)
qed

lemma ParseAmount_ok: "ParseAmount s = Inr n \<longleftrightarrow> unat n < 2 ^ 63 \<and> s = Amount n"
proof
  assume "ParseAmount s = Inr n"
  then have p: "\<not> (length s > 1 \<and> s ! 0 = CHR ''0'')" "s \<noteq> []" "list_all is_digit s" "digits_value s < 2 ^ 63"
    "n = of_nat (digits_value s)"
    by (auto simp: ParseAmount_def ParseUint_def not_le split: if_splits option.splits)
  have "digits_value s < 2 ^ LENGTH(64)" using p(4) by simp
  then have "unat n = digits_value s" unfolding p(5) by (rule unat_of_nat_less)
  then show "unat n < 2 ^ 63 \<and> s = Amount n" using p decimal_value by (simp add: Amount_def)
next
  assume "unat n < 2 ^ 63 \<and> s = Amount n"
  then show "ParseAmount s = Inr n"
    using decimal_digits [of "unat n"] decimal_leading [of "unat n"] by (simp add: ParseAmount_def ParseUint_def Amount_def)
qed

interpretation amount: codec Amount ParseAmount "\<lambda>n. unat n < 2 ^ 63"
  by unfold_locales (simp add: ParseAmount_ok)

text \<open>The amounts accepted on the wire are exactly the decimal strings the module writes, one for each
  number of units from 0 to \<open>2^63 - 1\<close>: no sign, no leading zero, no number a ledger could not hold.\<close>

theorem ParseAmount_iff: "ParseAmount s = Inr n \<longleftrightarrow> unat n < 2 ^ 63 \<and> s = Amount n"
  by (rule ParseAmount_ok)

section \<open>Validity windows\<close>

lemma sint_diff:
  fixes a b :: i64
  assumes "sint a \<le> sint b"
  shows "uint (b - a) = sint b - sint a"
proof -
  have r: "- (2 ^ 63) \<le> sint x \<and> sint x < 2 ^ 63" for x :: i64
    using sint_greater_eq [of x] sint_less [of x] by simp
  have "b - a = word_of_int (sint b - sint a)" by (simp add: wi_hom_sub [symmetric])
  then have "uint (b - a) = (sint b - sint a) mod 2 ^ LENGTH(64)" by (simp only: uint_word_of_int)
  also have "\<dots> = sint b - sint a" using r [of a] r [of b] assms by (intro mod_pos_pos_trivial) simp_all
  finally show ?thesis .
qed

lemma past_iff: "pastWithSkew now t \<longleftrightarrow> sint now > sint t + 120000"
proof (cases "sint t < sint now")
  case True
  have "now - t > ClockSkew \<longleftrightarrow> uint (now - t) > 120000"
    by (simp add: word_less_def ClockSkew_def)
  then show ?thesis using sint_diff [of t now] True by (auto simp: pastWithSkew_def)
qed (simp add: pastWithSkew_def)

lemma before_iff: "beforeWithSkew now t \<longleftrightarrow> sint now + 120000 < sint t"
proof (cases "sint now < sint t")
  case True
  have "t - now > ClockSkew \<longleftrightarrow> uint (t - now) > 120000"
    by (simp add: word_less_def ClockSkew_def)
  then show ?thesis using sint_diff [of now t] True by (auto simp: beforeWithSkew_def)
qed (simp add: beforeWithSkew_def)

definition in_window :: "i64 \<Rightarrow> authorization \<Rightarrow> bool" where
  "in_window now a \<longleftrightarrow> 0 < sint (at_issued a) \<and> sint (at_issued a) < sint (at_not_after a)
     \<and> sint (at_issued a) - 120000 \<le> sint now \<and> sint now \<le> sint (at_not_after a) + 120000"

definition auth_terms_ok :: "i64 \<Rightarrow> authorization \<Rightarrow> bool" where
  "auth_terms_ok now a \<longleftrightarrow> (\<exists>e. au_envelope a = Some e \<and> en_signer_aid e = at_payer a) \<and> in_window now a"

lemma canonical_signed [simp]:
  "auth_preimage enc (a \<lparr>au_envelope := e\<rparr>) = auth_preimage enc a"
  "receipt_preimage enc' (r \<lparr>re_envelope := e\<rparr>) = receipt_preimage enc' r"
  by (simp_all add: auth_preimage_def auth_canonical_def auth_terms.defs receipt_preimage_def receipt_canonical_def
      receipt_terms.defs)

interpretation auth: signed_object "auth_Sign enc" "auth_Verify enc" "auth_preimage enc" au_envelope
  auth_terms_ok "\<lambda>now _. now" for enc
proof unfold_locales
  fix s v w assume "auth_Sign enc s v = Inr w"
  then show "\<exists>b. auth_preimage enc w = Some b \<and> au_envelope w = Some (attach s b)"
    by (auto simp: auth_Sign_def Let_def split: option.splits)
next
  fix C kel now v
  show "auth_Verify enc C kel now v = Inr () \<longleftrightarrow>
    auth_terms_ok now v \<and> (\<exists>e b. au_envelope v = Some e \<and> auth_preimage enc v = Some b \<and> envelope_holds C kel now b e)"
    by (auto simp: auth_Verify_def envelope_holds_def auth_terms_ok_def in_window_def past_iff before_iff
        split: option.splits sum.splits if_splits)
qed

interpretation settlement: signed_object "receipt_Sign enc" "receipt_Verify enc" "receipt_preimage enc" re_envelope
  "\<lambda>x r. fst x = [] \<or> (\<exists>e. re_envelope r = Some e \<and> en_signer_aid e = fst x)" "\<lambda>x _. snd x" for enc
proof unfold_locales
  fix s v w assume "receipt_Sign enc s v = Inr w"
  then show "\<exists>b. receipt_preimage enc w = Some b \<and> re_envelope w = Some (attach s b)"
    by (auto simp: receipt_Sign_def split: option.splits)
next
  fix C kel v and x :: "string \<times> i64"
  show "receipt_Verify enc C kel x v = Inr () \<longleftrightarrow> (fst x = [] \<or> (\<exists>e. re_envelope v = Some e \<and> en_signer_aid e = fst x))
      \<and> (\<exists>e b. re_envelope v = Some e \<and> receipt_preimage enc v = Some b \<and> envelope_holds C kel (snd x) b e)"
    by (auto simp: receipt_Verify_def envelope_holds_def split: option.splits sum.splits if_splits)
qed

lemma auth_roundtrip:
  assumes "auth_Marshal encw a = Some b" and "coder_ok encw decw"
  shows "UnmarshalAuthorization decw b = Inr a"
  using coder_okD [OF assms(2) assms(1) [unfolded auth_Marshal_def]]
  by (simp add: UnmarshalAuthorization_def auth_canonical_def auth_terms.defs authorization.defs)

lemma receipt_roundtrip:
  assumes "receipt_Marshal encw r = Some b" and "coder_ok encw decw"
  shows "UnmarshalReceipt decw b = Inr r"
  using coder_okD [OF assms(2) assms(1) [unfolded receipt_Marshal_def]]
  by (simp add: UnmarshalReceipt_def receipt_canonical_def receipt_terms.defs receipt.defs)

text \<open>C20: an authorization a payer signs is accepted by everyone who holds the payer's log, after travelling in its
  wire form, exactly while its window is open, with two minutes of leeway at both ends reckoned without
  wrap-around, even for a time near the end of the 64-bit range; and it names the signer as the payer.\<close>

theorem authorization_window:
  assumes "inceptWith E k0 k1 ts toad = Inr c0" and "run (ctl_step E) c0 ops = Inr c" and "live E c"
    and "auth_Sign enc (controller_signer E c) a0 = Inr a" and "auth_Marshal encw a = Some b"
    and "coder_ok encw decw"
  shows "\<exists>a'. UnmarshalAuthorization decw b = Inr a' \<and> at_payer a' = c_aid c
    \<and> (auth_Verify enc (cr E) (kelLocked c) now a' = Inr () \<longleftrightarrow> in_window now a')"
proof -
  have h: "honest_signer (cr E) (controller_signer E c)"
    using controller_honest(1) [OF ctl.run_inv [OF incept_inv [OF assms(1)] assms(2)] assms(3)] .
  have p: "at_payer a = c_aid c" "\<exists>e. au_envelope a = Some e \<and> en_signer_aid e = at_payer a"
    using assms(4) by (auto simp: auth_Sign_def Let_def controller_signer_def split: option.splits)
  have "auth_Verify enc (cr E) (kelLocked c) now a = Inr () \<longleftrightarrow> in_window now a"
    using auth.sign_verify [OF h assms(4), of now] auth.verify_law [of enc "cr E" "kelLocked c" now a] p(2)
    by (auto simp: auth_terms_ok_def controller_signer_def)
  then show ?thesis using auth_roundtrip [OF assms(5,6)] p(1) by blast
qed

definition demo_auth :: authorization where
  "demo_auth = \<lparr>at_payer = [], at_pay_to = ''x'', at_amount = 7, at_network = CreditNetwork ''h'', at_nonce = ''n'', at_issued = 1,
     at_not_after = 2 ^ 63 - 1, at_interaction = [], au_envelope = None\<rparr>"

theorem authorization_window_witness:
  "\<exists>a. auth_Verify (\<lambda>_. Some [1]) demo_crypto [demo_icp] (2 ^ 63 - 1) a = Inr () \<and> at_not_after a = 2 ^ 63 - 1"
proof -
  let ?enc = "\<lambda>_. Some [1]"
  let ?a = "demo_auth \<lparr>at_payer := c_aid demo_ctl, au_envelope := Some (attach demo_signer [1])\<rparr>"
  let ?w = "\<lparr>wa_auth = auth_canonical ?a, wa_envelope = au_envelope ?a\<rparr>"
  let ?encw = "\<lambda>w. if w = ?w then Some [2] else None" let ?decw = "\<lambda>_. Some ?w"
  have s: "auth_Sign ?enc (controller_signer demo_env demo_ctl) demo_auth = Inr ?a"
    unfolding demo_signer_def by (simp add: auth_Sign_def auth_preimage_def Let_def) (simp add: controller_signer_def)
  have m: "auth_Marshal ?encw ?a = Some [2]" by (simp add: auth_Marshal_def)
  have r: "run (ctl_step demo_env) demo_ctl [] = Inr demo_ctl" by simp
  have d: "coder_ok ?encw ?decw" by (rule coder_ok_one)
  obtain a' where a: "UnmarshalAuthorization ?decw [2] = Inr a'"
    "auth_Verify ?enc (cr demo_env) (kelLocked demo_ctl) (2 ^ 63 - 1) a' = Inr () \<longleftrightarrow> in_window (2 ^ 63 - 1) a'"
    using authorization_window [OF demo_incept r demo_live s m d] by blast
  have "a' = ?a" using auth_roundtrip [OF m d] a(1) by simp
  moreover have "in_window (2 ^ 63 - 1) ?a" by (simp add: in_window_def demo_auth_def)
  moreover have "kelLocked demo_ctl = [demo_icp]" by (simp add: kelLocked_def built_event_def demo_ctl_def)
  moreover have "at_not_after ?a = 2 ^ 63 - 1" by (simp add: demo_auth_def)
  ultimately show ?thesis using a(2) by (metis demo_env_simps(1))
qed

end
