(* ===== verification/Ael.thy ===== *)
theory Ael
  imports Signed_Object "HOL-Library.AList"
begin

text \<open>
  The agent event ledger (\<open>ael/ael.go\<close>, \<open>ael/errors.go\<close>): records, their identifiers and signatures, and the
  ledger of one chain per identity with its fork trap, its staging buffer and its sticky quarantine. The
  parameter \<open>ael_env\<close> holds the CoreDet encoder of the signed keys 1 to 10 and the genesis sentinel. A Go
  map with a bounded number of entries is an association list with distinct keys.
\<close>

section \<open>Records\<close>

definition VersionMajor2 :: u64 where "VersionMajor2 = 2"
definition ImportBufferCap :: nat where "ImportBufferCap = 1024"
definition ChainActive :: string where "ChainActive = ''ACTIVE''"
definition ChainQuarantined :: string where "ChainQuarantined = ''QUARANTINED''"
definition EvForkDetected :: string where "EvForkDetected = ''converge.fork_detected''"

text \<open>A payload is an encoded data item, or one of the two the package itself builds.\<close>

record supply_payload =
  sp_v :: u64
  sp_from_day :: u64
  sp_to_day :: u64
  sp_root :: string
  sp_outstanding :: u64
  sp_depth :: u64

datatype payload = Raw bytes | ForkPayload string u64 string string | SupplyItem supply_payload

record record_preimage =
  er_chain_did :: string
  er_seq :: u64
  er_prev_id :: string
  er_event_type :: string
  er_version_major :: u64
  er_payload :: payload
  er_timestamp :: u64
  er_signer_aid :: string
  er_key_state_seq :: u64
  er_critical :: "string list"

record event_record = record_preimage +
  er_id :: string
  er_sig :: bytes
  er_version_minor :: u64
  er_corr_id :: string

record ael_env =
  ae_crypto :: crypto
  ae_enc :: "record_preimage \<Rightarrow> bytes option"
  ae_genesis :: string

datatype ael_code =
    INVALID_SIGNATURE_CODE | UNKNOWN_AID_CODE | REVOKED_KEY_CODE | ID_MISMATCH | PREV_LINK_BROKEN
  | CHAIN_QUARANTINED | IMPORT_BUFFER_FULL | VERSION_UNSUPPORTED | BAD_GENESIS_PREV

datatype ael_err = AelError ael_code | Equivocation event_record event_record | IndexPanic

definition preimageMap :: "event_record \<Rightarrow> record_preimage" where
  "preimageMap r = record_preimage.truncate r"

definition Preimage :: "ael_env \<Rightarrow> event_record \<Rightarrow> bytes option" where
  "Preimage env r = ae_enc env (preimageMap r)"

definition ComputeID :: "ael_env \<Rightarrow> event_record \<Rightarrow> string option" where
  "ComputeID env r = Option.bind (Preimage env r) (cid_sum (ae_crypto env))"

datatype ael_sign_err = AelNoKEL | AelPreimage | AelCid | AelSignerSeq

definition signer_SeqOf :: "signer \<Rightarrow> u64 option" where
  "signer_SeqOf s = (if length (sg_kel s) = 0 then None else Some (ke_seq (se_event (last (sg_kel s)))))"

text \<open>\<open>s\<close> is the snapshot \<open>SnapshotOf\<close> takes of the signer.\<close>

definition record_Sign :: "ael_env \<Rightarrow> signer \<Rightarrow> event_record \<Rightarrow> ael_sign_err + event_record" where
  "record_Sign env s r0 =
     (case signer_SeqOf s of
        None \<Rightarrow> Inl AelNoKEL
      | Some seq \<Rightarrow>
          (let r = r0 \<lparr>er_signer_aid := sg_aid s, er_key_state_seq := seq\<rparr> in
           case Preimage env r of
             None \<Rightarrow> Inl AelPreimage
           | Some pre \<Rightarrow>
               (case cid_sum (ae_crypto env) pre of
                  None \<Rightarrow> Inl AelCid
                | Some eid \<Rightarrow>
                    (case sg_sign s pre of (sg, signedAt) \<Rightarrow>
                       if signedAt \<noteq> seq then Inl AelSignerSeq
                       else Inr (r \<lparr>er_id := eid, er_sig := (case sg of None \<Rightarrow> [] | Some b \<Rightarrow> b)\<rparr>)))))"

fun mapIdentityErr :: "verr \<Rightarrow> ael_err" where
  "mapIdentityErr UNKNOWN_AID = AelError UNKNOWN_AID_CODE"
| "mapIdentityErr REVOKED_KEY = AelError REVOKED_KEY_CODE"
| "mapIdentityErr INVALID_SIGNATURE = AelError INVALID_SIGNATURE_CODE"
| "mapIdentityErr KEY_STATE_DOWNGRADE = AelError INVALID_SIGNATURE_CODE"

definition record_Verify :: "ael_env \<Rightarrow> signed_event list \<Rightarrow> event_record \<Rightarrow> ael_err + unit" where
  "record_Verify env kel r =
     (case Preimage env r of
        None \<Rightarrow> Inl (AelError ID_MISMATCH)
      | Some pre \<Rightarrow>
          (case cid_sum (ae_crypto env) pre of
             None \<Rightarrow> Inl (AelError ID_MISMATCH)
           | Some got \<Rightarrow>
               if got \<noteq> er_id r then Inl (AelError ID_MISMATCH)
               else (case VerifyObject (ae_crypto env) kel (er_signer_aid r) (er_key_state_seq r) (er_timestamp r) pre (er_sig r) of
                   Inl err \<Rightarrow> Inl (mapIdentityErr err)
                 | Inr _ \<Rightarrow> Inr ())))"

section \<open>Chains\<close>

record chain =
  ch_events :: "event_record list"
  ch_state :: string
  ch_staged :: "(u64 \<times> event_record) list"

type_synonym ledger = "string \<rightharpoonup> chain"

definition NewLedger :: ledger where
  "NewLedger = Map.empty"

text \<open>The loop of \<open>drainStaged\<close>: each round takes the entry after the head out of the buffer.\<close>

lemma delete_shorter: "map_of st k = Some r \<Longrightarrow> length (AList.delete k st) < length st"
  by (induction st) (auto simp: AList.length_delete_le le_imp_less_Suc split: if_splits)

function drain :: "event_record list \<Rightarrow> (u64 \<times> event_record) list \<Rightarrow> event_record list \<times> (u64 \<times> event_record) list" where
  "drain evs st =
     (let head = last evs in
      case map_of st (er_seq head + 1) of
        None \<Rightarrow> (evs, st)
      | Some nxt \<Rightarrow>
          if er_prev_id nxt \<noteq> er_id head then drain evs (AList.delete (er_seq head + 1) st)
          else drain (evs @ [nxt]) (AList.delete (er_seq head + 1) st))"
  by pat_completeness auto
termination
  by (relation "measure (\<lambda>(evs, st). length st)") (auto intro: delete_shorter)

declare drain.simps [simp del]

definition drainStaged :: "chain \<Rightarrow> chain" where
  "drainStaged ch = (case drain (ch_events ch) (ch_staged ch) of (evs, st) \<Rightarrow> ch \<lparr>ch_events := evs, ch_staged := st\<rparr>)"

definition fork_anchor :: "event_record \<Rightarrow> event_record \<Rightarrow> event_record" where
  "fork_anchor existing incoming =
     \<lparr>er_chain_did = er_chain_did incoming, er_seq = er_seq existing, er_prev_id = [], er_event_type = EvForkDetected,
      er_version_major = VersionMajor2,
      er_payload = ForkPayload (er_chain_did existing) (er_seq existing) (er_id existing) (er_id incoming),
      er_timestamp = er_timestamp incoming, er_signer_aid = [], er_key_state_seq = 0, er_critical = [],
      er_id = [], er_sig = [], er_version_minor = 0, er_corr_id = []\<rparr>"

definition quarantine :: "chain \<Rightarrow> event_record \<Rightarrow> event_record \<Rightarrow> chain \<times> (ael_err + unit)" where
  "quarantine ch existing incoming =
     (ch \<lparr>ch_events := ch_events ch @ [incoming, fork_anchor existing incoming], ch_state := ChainQuarantined\<rparr>,
      Inl (Equivocation existing incoming))"

definition appendToChain :: "chain \<Rightarrow> event_record \<Rightarrow> chain \<times> (ael_err + unit)" where
  "appendToChain ch r =
     (let head = last (ch_events ch) in
      if er_seq r \<le> er_seq head then
        (if unat (er_seq r) \<ge> length (ch_events ch) then (ch, Inl IndexPanic)
         else let existing = ch_events ch ! unat (er_seq r) in
           if er_id existing \<noteq> er_id r then quarantine ch existing r else (ch, Inr ()))
      else if er_seq r = er_seq head + 1 then
        (if er_prev_id r \<noteq> er_id head then (ch, Inl (AelError PREV_LINK_BROKEN))
         else (drainStaged (ch \<lparr>ch_events := ch_events ch @ [r]\<rparr>), Inr ()))
      else if (case map_of (ch_staged ch) (er_seq r) of None \<Rightarrow> False | Some x \<Rightarrow> er_id x = er_id r) then (ch, Inr ())
      else if length (ch_staged ch) \<ge> ImportBufferCap then (ch, Inl (AelError IMPORT_BUFFER_FULL))
      else (ch \<lparr>ch_staged := AList.update (er_seq r) r (ch_staged ch)\<rparr>, Inr ()))"

definition Append :: "ael_env \<Rightarrow> ledger \<Rightarrow> event_record \<Rightarrow> signed_event list \<Rightarrow> ledger \<times> (ael_err + unit)" where
  "Append env l r kel =
     (let ch = l (er_chain_did r) in
      if (case ch of None \<Rightarrow> False | Some c \<Rightarrow> ch_state c = ChainQuarantined) then (l, Inl (AelError CHAIN_QUARANTINED))
      else if er_version_major r \<noteq> VersionMajor2 then (l, Inl (AelError VERSION_UNSUPPORTED))
      else case record_Verify env kel r of
        Inl e \<Rightarrow> (l, Inl e)
      | Inr _ \<Rightarrow>
          if (case ch of None \<Rightarrow> True | Some c \<Rightarrow> length (ch_events c) = 0) then
            (if er_seq r \<noteq> 0 then (l, Inl (AelError BAD_GENESIS_PREV))
             else if er_prev_id r \<noteq> ae_genesis env then (l, Inl (AelError BAD_GENESIS_PREV))
             else (l (er_chain_did r \<mapsto> drainStaged \<lparr>ch_events = [r], ch_state = ChainActive, ch_staged = []\<rparr>), Inr ()))
          else (case appendToChain (the ch) r of (ch', res) \<Rightarrow> (l (er_chain_did r \<mapsto> ch'), res)))"

section \<open>Batches\<close>

record import_result =
  ir_applied :: int
  ir_staged :: int
  ir_dups :: int

definition appliedAndStaged :: "ledger \<Rightarrow> string \<Rightarrow> int \<times> int" where
  "appliedAndStaged l did =
     (case l did of None \<Rightarrow> (0, 0) | Some ch \<Rightarrow> (int (length (ch_events ch)), int (length (ch_staged ch))))"

definition tally :: "int \<times> int \<Rightarrow> int \<times> int \<Rightarrow> import_result \<Rightarrow> import_result" where
  "tally before after res =
     (if snd after > snd before then res \<lparr>ir_staged := ir_staged res + 1\<rparr>
      else if fst after > fst before then res \<lparr>ir_applied := ir_applied res + (fst after - fst before)\<rparr>
      else res \<lparr>ir_dups := ir_dups res + 1\<rparr>)"

fun ImportBatch ::
  "ael_env \<Rightarrow> ledger \<Rightarrow> event_record list \<Rightarrow> signed_event list \<Rightarrow> import_result \<Rightarrow> ledger \<times> import_result \<times> (ael_err + unit)" where
  "ImportBatch env l [] kel res = (l, res, Inr ())"
| "ImportBatch env l (r # rs) kel res =
     (case Append env l r kel of
        (l', Inl e) \<Rightarrow> (l', res, Inl e)
      | (l', Inr _) \<Rightarrow>
          ImportBatch env l' rs kel
            (tally (appliedAndStaged l (er_chain_did r)) (appliedAndStaged l' (er_chain_did r)) res))"

definition Import :: "ael_env \<Rightarrow> ledger \<Rightarrow> event_record list \<Rightarrow> signed_event list \<Rightarrow> ledger \<times> (ael_err + unit)" where
  "Import env l recs kel =
     (case ImportBatch env l recs kel \<lparr>ir_applied = 0, ir_staged = 0, ir_dups = 0\<rparr> of (l', _, e) \<Rightarrow> (l', e))"

section \<open>Readers\<close>

text \<open>On a quarantined chain \<open>Head\<close> walks back to the last record that is not a fork anchor.\<close>

definition Head :: "ledger \<Rightarrow> string \<Rightarrow> (string \<times> u64) option" where
  "Head l did =
     (case l did of
        None \<Rightarrow> None
      | Some ch \<Rightarrow>
          if length (ch_events ch) = 0 then None
          else let h = (if ch_state ch = ChainQuarantined
                        then (case find (\<lambda>r. er_event_type r \<noteq> EvForkDetected) (rev (ch_events ch)) of
                                None \<Rightarrow> last (ch_events ch) | Some r \<Rightarrow> r)
                        else last (ch_events ch))
               in Some (er_id h, er_seq h))"

definition State :: "ledger \<Rightarrow> string \<Rightarrow> string" where
  "State l did = (case l did of None \<Rightarrow> [] | Some ch \<Rightarrow> ch_state ch)"

definition Events :: "ledger \<Rightarrow> string \<Rightarrow> event_record list" where
  "Events l did = (case l did of None \<Rightarrow> [] | Some ch \<Rightarrow> ch_events ch)"

end
