(* ===== verification/Ael_Props.thy ===== *)
theory Ael_Props
  imports Ael
begin

text \<open>
  What the ledger guarantees: every chain it holds is hash-linked from the genesis sentinel and verified, a second
  record at a held position freezes the chain with the proof, and one record fixes all records before it.
\<close>

section \<open>The invariant\<close>

definition verified :: "ael_env \<Rightarrow> event_record \<Rightarrow> bool" where
  "verified env r \<longleftrightarrow> (\<exists>kel. record_Verify env kel r = Inr ())"

definition belongs :: "ael_env \<Rightarrow> string \<Rightarrow> event_record \<Rightarrow> bool" where
  "belongs env did r \<longleftrightarrow> er_chain_did r = did \<and> er_version_major r = VersionMajor2 \<and> verified env r"

definition chain_linked :: "ael_env \<Rightarrow> string \<Rightarrow> event_record list \<Rightarrow> bool" where
  "chain_linked env did evs \<longleftrightarrow> evs \<noteq> [] \<and> (\<forall>i < length evs. belongs env did (evs ! i) \<and> unat (er_seq (evs ! i)) = i
     \<and> er_prev_id (evs ! i) = (if i = 0 then ae_genesis env else er_id (evs ! (i - 1))))"

definition buffered :: "ael_env \<Rightarrow> string \<Rightarrow> nat \<Rightarrow> (u64 \<times> event_record) list \<Rightarrow> bool" where
  "buffered env did n st \<longleftrightarrow> distinct (map fst st)
     \<and> (\<forall>(k, r) \<in> set st. er_seq r = k \<and> n \<le> unat k \<and> belongs env did r)"

definition active_ok :: "ael_env \<Rightarrow> string \<Rightarrow> chain \<Rightarrow> bool" where
  "active_ok env did ch \<longleftrightarrow> ch_state ch = ChainActive \<and> chain_linked env did (ch_events ch)
     \<and> buffered env did (Suc (length (ch_events ch))) (ch_staged ch) \<and> length (ch_staged ch) \<le> ImportBufferCap"

text \<open>A quarantined chain: the linked records, the competing record, and the anchor that names both.\<close>

definition frozen_ok :: "ael_env \<Rightarrow> string \<Rightarrow> chain \<Rightarrow> bool" where
  "frozen_ok env did ch \<longleftrightarrow> ch_state ch = ChainQuarantined \<and> (\<exists>evs existing incoming.
     ch_events ch = evs @ [incoming, fork_anchor existing incoming] \<and> chain_linked env did evs \<and> existing \<in> set evs
     \<and> belongs env did incoming \<and> er_seq existing = er_seq incoming \<and> er_id existing \<noteq> er_id incoming)"

definition ledger_ok :: "ael_env \<Rightarrow> ledger \<Rightarrow> bool" where
  "ledger_ok env l \<longleftrightarrow> (\<forall>did ch. l did = Some ch \<longrightarrow> active_ok env did ch \<or> frozen_ok env did ch)"

lemma states_differ: "ChainActive \<noteq> ChainQuarantined"
  by (simp add: ChainActive_def ChainQuarantined_def)

lemma chain_linked_one:
  "chain_linked env did [r] \<longleftrightarrow> belongs env did r \<and> er_seq r = 0 \<and> er_prev_id r = ae_genesis env"
  by (auto simp: chain_linked_def unat_eq_0)

lemma chain_linked_snoc:
  assumes "chain_linked env did evs" and "belongs env did r" and "unat (er_seq r) = length evs" and "er_prev_id r = er_id (last evs)"
  shows "chain_linked env did (evs @ [r])"
  using assms by (auto simp: chain_linked_def nth_append last_conv_nth less_Suc_eq)

lemma chain_linked_head: "chain_linked env did evs \<Longrightarrow> Suc (unat (er_seq (last evs))) = length evs"
  by (simp add: chain_linked_def last_conv_nth)

lemma unat_next: "(w :: u64) + 1 \<noteq> 0 \<Longrightarrow> unat (w + 1) = Suc (unat w)"
  using unatSuc [of w] by (simp add: add.commute)

lemma next_index: "Suc (unat (w :: u64)) = n \<Longrightarrow> w + 1 = word_of_nat n"
  by (auto simp: add.commute)

lemma next_seq:
  assumes "chain_linked env did evs" and "length evs \<le> unat k" and "k = er_seq (last evs) + 1"
  shows "unat k = length evs"
proof -
  have "k \<noteq> 0" using assms(1,2) by (auto simp: chain_linked_def)
  then show ?thesis using chain_linked_head [OF assms(1)] unat_next assms(3) by simp
qed

lemma set_delete: "(k', r) \<in> set (AList.delete k st) \<longleftrightarrow> k' \<noteq> k \<and> (k', r) \<in> set st"
  by (auto simp: AList.delete_eq)

lemma buffered_delete:
  assumes "buffered env did n st" and "\<And>k'. k' \<noteq> k \<Longrightarrow> n \<le> unat k' \<Longrightarrow> m \<le> unat k'"
  shows "buffered env did m (AList.delete k st)"
proof -
  have "distinct (map fst (AList.delete k st))" using assms(1) by (simp add: buffered_def AList.distinct_delete)
  moreover have "er_seq r = k' \<and> m \<le> unat k' \<and> belongs env did r" if "(k', r) \<in> set (AList.delete k st)" for k' r
    using that assms by (auto simp: set_delete buffered_def)
  ultimately show ?thesis by (auto simp: buffered_def)
qed

lemma buffered_entry: "buffered env did n st \<Longrightarrow> map_of st k = Some r \<Longrightarrow> er_seq r = k \<and> n \<le> unat k \<and> belongs env did r"
  by (auto simp: buffered_def dest: map_of_SomeD)

lemma buffered_absent:
  assumes "buffered env did n st" and "map_of st k = None"
    and "\<And>k'. k' \<noteq> k \<Longrightarrow> n \<le> unat k' \<Longrightarrow> m \<le> unat k'"
  shows "buffered env did m st"
proof -
  have "AList.delete k st = st" using assms(2) by (simp add: map_of_eq_None_iff)
  then show ?thesis using buffered_delete [OF assms(1), of k m] assms(3) by metis
qed

lemma drain_linked:
  assumes "chain_linked env did evs" and "buffered env did (length evs) st" and "drain evs st = (evs', st')"
  shows "\<exists>new. evs' = evs @ new \<and> chain_linked env did evs' \<and> buffered env did (Suc (length evs')) st' \<and> length st' \<le> length st"
  using assms
proof (induction evs st arbitrary: evs' st' rule: drain.induct)
  case (1 evs st)
  let ?k = "er_seq (last evs) + 1"
  have skip: "Suc (length evs) \<le> unat k'" if "k' \<noteq> ?k" "length evs \<le> unat k'" for k'
  proof (rule ccontr)
    assume "\<not> Suc (length evs) \<le> unat k'"
    then have u: "unat k' = length evs" using that by simp
    then have "length evs < 2 ^ 64" using unat_less_2p64 [of k'] by simp
    moreover have "unat ?k = length evs \<or> ?k = 0" using unat_next chain_linked_head [OF 1(3)] by metis
    ultimately show False
    proof (elim disjE)
      assume "unat ?k = length evs" then show False using u that(1) by (metis word_unat_eq_iff)
    next
      assume z: "?k = 0"
      have "?k = word_of_nat (length evs)"
        using next_index chain_linked_head [OF 1(3)] by blast
      then have "unat ?k = length evs" using \<open>length evs < 2 ^ 64\<close> by (simp add: unat_of_nat)
      then show False using z 1(3) by (simp add: chain_linked_def)
    qed
  qed
  show ?case
  proof (cases "map_of st ?k")
    case None
    then have "evs' = evs" "st' = st" using 1(5) by (simp_all add: drain.simps [of evs st])
    then show ?thesis using 1(3) buffered_absent [OF 1(4) None skip] by simp
  next
    case (Some nxt)
    have n: "er_seq nxt = ?k" "length evs \<le> unat ?k" "belongs env did nxt" using buffered_entry [OF 1(4) Some] by auto
    have u: "unat ?k = length evs" using next_seq [OF 1(3) n(2)] by simp
    have len: "length (AList.delete ?k st) \<le> length st" by (rule AList.length_delete_le)
    show ?thesis
    proof (cases "er_prev_id nxt \<noteq> er_id (last evs)")
      case True
      have b: "buffered env did (length evs) (AList.delete ?k st)" using 1(4) by (rule buffered_delete)
      have "drain evs (AList.delete ?k st) = (evs', st')" using 1(5) Some True by (simp add: drain.simps [of evs st])
      from 1(1) [OF refl Some True 1(3) b this] show ?thesis using len by auto
    next
      case False
      have l: "chain_linked env did (evs @ [nxt])" using chain_linked_snoc [OF 1(3) n(3)] n(1) u False by simp
      have b: "buffered env did (length (evs @ [nxt])) (AList.delete ?k st)"
        using buffered_delete [OF 1(4) skip] by simp
      have "drain (evs @ [nxt]) (AList.delete ?k st) = (evs', st')" using 1(5) Some False by (simp add: drain.simps [of evs st])
      from 1(2) [OF refl Some False l b this] show ?thesis using len by auto
    qed
  qed
qed

lemma drainStaged_ok:
  assumes "chain_linked env did (ch_events ch)" and "buffered env did (length (ch_events ch)) (ch_staged ch)"
    and "length (ch_staged ch) \<le> ImportBufferCap" and "ch_state ch = ChainActive"
  shows "active_ok env did (drainStaged ch) \<and> (\<exists>new. ch_events (drainStaged ch) = ch_events ch @ new)"
proof -
  obtain evs st where d: "drain (ch_events ch) (ch_staged ch) = (evs, st)" by (cases "drain (ch_events ch) (ch_staged ch)")
  from drain_linked [OF assms(1,2) d] assms(3,4) show ?thesis by (auto simp: drainStaged_def d active_ok_def)
qed

section \<open>Appending\<close>

lemma quarantine_ok:
  assumes "active_ok env did ch" and "belongs env did r" and "er_seq r \<le> er_seq (last (ch_events ch))"
    and "er_id (ch_events ch ! unat (er_seq r)) \<noteq> er_id r"
  shows "frozen_ok env did (fst (quarantine ch (ch_events ch ! unat (er_seq r)) r))"
proof -
  have l: "chain_linked env did (ch_events ch)" using assms(1) by (simp add: active_ok_def)
  have i: "unat (er_seq r) < length (ch_events ch)"
    using assms(3) chain_linked_head [OF l] by (simp add: word_le_nat_alt)
  then have "er_seq (ch_events ch ! unat (er_seq r)) = er_seq r" using l by (auto simp: chain_linked_def word_unat_eq_iff)
  then show ?thesis using assms l i unfolding frozen_ok_def quarantine_def by (auto intro!: exI)
qed

lemma appendToChain_ok:
  assumes "active_ok env did ch" and "belongs env did r" and "appendToChain ch r = (ch', res)"
  shows "active_ok env did ch' \<or> frozen_ok env did ch'" and "res \<noteq> Inl IndexPanic"
    and "res = Inl (Equivocation a b) \<Longrightarrow> b = r \<and> a \<in> set (ch_events ch) \<and> er_seq a = er_seq r \<and> er_id a \<noteq> er_id r
           \<and> frozen_ok env did ch' \<and> ch' = fst (quarantine ch a r)"
    and "active_ok env did ch' \<Longrightarrow> \<exists>new. ch_events ch' = ch_events ch @ new"
proof -
  let ?evs = "ch_events ch" let ?head = "last (ch_events ch)"
  have l: "chain_linked env did ?evs" and bf: "buffered env did (Suc (length ?evs)) (ch_staged ch)"
    and act: "ch_state ch = ChainActive" "length (ch_staged ch) \<le> ImportBufferCap" using assms(1) by (auto simp: active_ok_def)
  have no: "\<not> active_ok env did c" if "ch_state c = ChainQuarantined" for c
    using that states_differ by (auto simp: active_ok_def)
  have "(active_ok env did ch' \<or> frozen_ok env did ch') \<and> res \<noteq> Inl IndexPanic
    \<and> (res = Inl (Equivocation a b) \<longrightarrow> b = r \<and> a \<in> set ?evs \<and> er_seq a = er_seq r \<and> er_id a \<noteq> er_id r
         \<and> frozen_ok env did ch' \<and> ch' = fst (quarantine ch a r))
    \<and> (active_ok env did ch' \<longrightarrow> (\<exists>new. ch_events ch' = ?evs @ new))" (is ?goal)
  proof -
    consider (old) "er_seq r \<le> er_seq ?head" | (nxt) "\<not> er_seq r \<le> er_seq ?head" "er_seq r = er_seq ?head + 1"
      | (gap) "\<not> er_seq r \<le> er_seq ?head" "er_seq r \<noteq> er_seq ?head + 1" by blast
    then show ?goal
    proof cases
      case old
      have i: "unat (er_seq r) < length ?evs" using old chain_linked_head [OF l] by (simp add: word_le_nat_alt)
      let ?x = "?evs ! unat (er_seq r)"
      have x: "?x \<in> set ?evs" "er_seq ?x = er_seq r" using i l by (auto simp: chain_linked_def word_unat_eq_iff)
      show ?goal
      proof (cases "er_id ?x = er_id r")
        case True
        then show ?thesis using assms(1,3) old i by (auto simp: appendToChain_def Let_def)
      next
        case False
        have q: "(ch', res) = quarantine ch ?x r" using assms(3) old i False by (simp add: appendToChain_def Let_def)
        then have "ch' = fst (quarantine ch ?x r)" "res = Inl (Equivocation ?x r)" "ch_state ch' = ChainQuarantined"
          by (auto simp: quarantine_def)
        then show ?thesis using quarantine_ok [OF assms(1,2) old False] x False no by auto
      qed
    next
      case nxt
      show ?goal
      proof (cases "er_prev_id r = er_id ?head")
        case True
        have "unat (er_seq r) = length ?evs"
        proof -
          have "length ?evs \<le> unat (er_seq r)" using nxt(1) chain_linked_head [OF l] by (simp add: word_le_nat_alt)
          then show ?thesis using next_seq [OF l _ nxt(2)] by blast
        qed
        then have l': "chain_linked env did (?evs @ [r])" using chain_linked_snoc [OF l assms(2)] True by blast
        let ?ch = "ch \<lparr>ch_events := ?evs @ [r]\<rparr>"
        have "active_ok env did (drainStaged ?ch) \<and> (\<exists>new. ch_events (drainStaged ?ch) = (?evs @ [r]) @ new)"
          using drainStaged_ok [of env did ?ch] l' bf act by simp
        moreover have "ch' = drainStaged ?ch" "res = Inr ()" using assms(3) nxt True by (auto simp: appendToChain_def Let_def)
        ultimately show ?thesis by auto
      qed (use assms(1,3) nxt in \<open>auto simp: appendToChain_def Let_def\<close>)
    next
      case gap
      have far: "Suc (length ?evs) \<le> unat (er_seq r)"
      proof -
        have "length ?evs \<le> unat (er_seq r)" using gap(1) chain_linked_head [OF l] by (simp add: word_le_nat_alt)
        moreover have "unat (er_seq r) \<noteq> length ?evs"
        proof
          assume u: "unat (er_seq r) = length ?evs"
          have "word_of_nat (unat (er_seq r)) = er_seq r" by simp
          then have "er_seq ?head + 1 = er_seq r"
            unfolding next_index [OF chain_linked_head [OF l]] u .
          then show False using gap(2) by simp
        qed
        ultimately show ?thesis by simp
      qed
      let ?ch = "ch \<lparr>ch_staged := AList.update (er_seq r) r (ch_staged ch)\<rparr>"
      have upd: "active_ok env did ?ch" if "length (ch_staged ch) < ImportBufferCap"
      proof -
        have "set (AList.update k v st) \<subseteq> insert (k, v) (set st)" "length (AList.update k v st) \<le> Suc (length st)"
          for k :: u64 and v :: event_record and st by (induction st) auto
        then have "buffered env did (Suc (length ?evs)) (AList.update (er_seq r) r (ch_staged ch))"
          "length (AList.update (er_seq r) r (ch_staged ch)) \<le> ImportBufferCap"
          using bf assms(2) far that AList.distinct_update [of "ch_staged ch" "er_seq r" r]
          by (fastforce simp: buffered_def, metis Suc_leI le_trans)
        then show ?thesis using l act by (simp add: active_ok_def)
      qed
      show ?goal using assms(1,3) gap upd by (auto simp: appendToChain_def Let_def not_le split: if_splits)
    qed
  qed
  then show "active_ok env did ch' \<or> frozen_ok env did ch'" "res \<noteq> Inl IndexPanic"
    "res = Inl (Equivocation a b) \<Longrightarrow> b = r \<and> a \<in> set (ch_events ch) \<and> er_seq a = er_seq r \<and> er_id a \<noteq> er_id r
           \<and> frozen_ok env did ch' \<and> ch' = fst (quarantine ch a r)"
    "active_ok env did ch' \<Longrightarrow> \<exists>new. ch_events ch' = ch_events ch @ new" by blast+
qed

lemma genesis_ok:
  assumes "belongs env did r" and "er_seq r = 0" and "er_prev_id r = ae_genesis env"
  shows "active_ok env did (drainStaged \<lparr>ch_events = [r], ch_state = ChainActive, ch_staged = []\<rparr>)"
  using assms chain_linked_one drainStaged_ok [of env did "\<lparr>ch_events = [r], ch_state = ChainActive, ch_staged = []\<rparr>"]
  by (simp add: buffered_def)

text \<open>The cases of \<open>Append\<close>: nothing changes; a chain begins; an active chain takes the record.\<close>

lemma Append_cases:
  assumes "Append env l r kel = (l', res)" and "ledger_ok env l"
  obtains (refused) e where "l' = l" "res = Inl (AelError e)"
  | (genesis) ch' where "l (er_chain_did r) = None" "res = Inr ()" "l' = l (er_chain_did r \<mapsto> ch')"
      "active_ok env (er_chain_did r) ch'" "belongs env (er_chain_did r) r"
  | (chained) ch ch' where "l (er_chain_did r) = Some ch" "active_ok env (er_chain_did r) ch" "belongs env (er_chain_did r) r"
      "appendToChain ch r = (ch', res)" "l' = l (er_chain_did r \<mapsto> ch')"
proof -
  have fail: "\<exists>c. e = AelError c" if "record_Verify env kel r = Inl e" for e
  proof -
    have "\<exists>c. mapIdentityErr v = AelError c" for v by (cases v) auto
    then show ?thesis using that by (auto simp: record_Verify_def split: option.splits sum.splits if_splits)
  qed
  have bel: "belongs env (er_chain_did r) r" if "record_Verify env kel r = Inr ()" "er_version_major r = VersionMajor2"
    using that by (auto simp: belongs_def verified_def)
  show thesis
  proof (cases "l (er_chain_did r)")
    case None
    show thesis
    proof (cases "er_version_major r = VersionMajor2 \<and> record_Verify env kel r = Inr () \<and> er_seq r = 0 \<and> er_prev_id r = ae_genesis env")
      case True
      then show thesis using genesis [OF None] genesis_ok [OF bel] bel assms(1) None by (auto simp: Append_def)
    next
      case False
      have "\<exists>e. Append env l r kel = (l, Inl (AelError e))"
      proof (cases "record_Verify env kel r")
        case (Inl e)
        moreover obtain c where "e = AelError c" using fail [OF Inl] by blast
        ultimately show ?thesis using None by (simp add: Append_def)
      qed (use None False in \<open>auto simp: Append_def split: if_splits\<close>)
      then show thesis using refused assms(1) by auto
    qed
  next
    case (Some ch)
    show thesis
    proof (cases "ch_state ch \<noteq> ChainQuarantined \<and> er_version_major r = VersionMajor2 \<and> record_Verify env kel r = Inr ()")
      case True
      have act: "active_ok env (er_chain_did r) ch" using assms(2) Some True by (auto simp: ledger_ok_def frozen_ok_def)
      obtain ch' res' where a: "appendToChain ch r = (ch', res')" by (cases "appendToChain ch r")
      have "ch_events ch \<noteq> []" using act by (simp add: active_ok_def chain_linked_def)
      then show thesis using chained [OF Some act bel] a assms(1) Some True by (simp add: Append_def)
    next
      case False
      have "\<exists>e. Append env l r kel = (l, Inl (AelError e))"
      proof (cases "record_Verify env kel r")
        case (Inl e)
        moreover obtain c where "e = AelError c" using fail [OF Inl] by blast
        ultimately show ?thesis using Some by (simp add: Append_def Let_def)
      qed (use Some False in \<open>auto simp: Append_def Let_def\<close>)
      then show thesis using refused assms(1) by auto
    qed
  qed
qed

definition append_step :: "ael_env \<Rightarrow> ledger \<Rightarrow> event_record \<times> signed_event list \<Rightarrow> unit + ledger" where
  "append_step env l x = Inr (fst (Append env l (fst x) (snd x)))"

lemma append_step_inv:
  assumes "ledger_ok env l" and "append_step env l x = Inr l'"
  shows "ledger_ok env l'"
proof -
  obtain res where a: "Append env l (fst x) (snd x) = (l', res)"
    using assms(2) by (cases "Append env l (fst x) (snd x)") (auto simp: append_step_def)
  show ?thesis using a assms(1)
  proof (cases rule: Append_cases)
    case (chained ch ch')
    then show ?thesis using assms(1) appendToChain_ok(1) [OF chained(2,3,4)] by (auto simp: ledger_ok_def)
  qed (use assms(1) in \<open>auto simp: ledger_ok_def\<close>)
qed

interpretation ael: machine "append_step env" "ledger_ok env" for env
  by unfold_locales (rule append_step_inv)

lemma new_ledger_ok: "ledger_ok env NewLedger"
  by (simp add: ledger_ok_def NewLedger_def)

definition reaches :: "ael_env \<Rightarrow> (event_record \<times> signed_event list) list \<Rightarrow> ledger \<Rightarrow> bool" where
  "reaches env recs l \<longleftrightarrow> run (append_step env) NewLedger recs = Inr l"

lemma reaches_ok: "reaches env recs l \<Longrightarrow> ledger_ok env l"
  unfolding reaches_def using ael.run_inv [OF new_ledger_ok] .

text \<open>C21: every ledger that any sequence of records leads to holds, for each identity, a chain of verified records
  linked one to the next from the genesis sentinel, record \<open>i\<close> at sequence number \<open>i\<close>, with at most 1024
  verified records waiting beyond a gap; or a quarantined chain: such records, one competing record
  for a position they hold, and the anchor naming both. No append reads beyond the chain.\<close>

theorem ledger_invariant:
  assumes "reaches env recs l" and "l did = Some ch"
  shows "(active_ok env did ch \<or> frozen_ok env did ch) \<and> snd (Append env l r kel) \<noteq> Inl IndexPanic"
proof -
  have ok: "ledger_ok env l" using reaches_ok assms(1) .
  obtain l' res where a: "Append env l r kel = (l', res)" by (cases "Append env l r kel")
  then have "res \<noteq> Inl IndexPanic" using ok
  proof (cases rule: Append_cases)
    case (chained ch ch')
    then show ?thesis using appendToChain_ok(2) by blast
  qed auto
  then show ?thesis using ok assms(2) a by (auto simp: ledger_ok_def)
qed

definition record_id :: "ael_env \<Rightarrow> record_preimage \<Rightarrow> string option" where
  "record_id env p = Option.bind (ae_enc env p) (cid_sum (ae_crypto env))"

section \<open>An example ledger\<close>

definition demo_ael :: ael_env where
  "demo_ael = \<lparr>ae_crypto = demo_crypto, ae_enc = (\<lambda>p. Some (be_bytes 8 (er_seq p) @ be_bytes 8 (er_timestamp p))), ae_genesis = ''g''\<rparr>"

definition demo_rec :: "u64 \<Rightarrow> event_record" where
  "demo_rec ts = \<lparr>er_chain_did = ''d'', er_seq = 0, er_prev_id = ''g'', er_event_type = ''x'', er_version_major = 2,
     er_payload = Raw [], er_timestamp = ts, er_signer_aid = se_id demo_icp, er_key_state_seq = 0, er_critical = [],
     er_id = demo_cid (be_bytes 8 (0 :: u64) @ be_bytes 8 ts), er_sig = demo_key 9 @ demo_key 9, er_version_minor = 0, er_corr_id = []\<rparr>"

definition demo_ledger :: "u64 \<Rightarrow> ledger" where
  "demo_ledger ts = [''d'' \<mapsto> \<lparr>ch_events = [demo_rec ts], ch_state = ChainActive, ch_staged = []\<rparr>]"

lemma demo_rec_verified: "record_Verify demo_ael [demo_icp] (demo_rec ts) = Inr ()"
proof -
  have "kel_valid demo_crypto [demo_icp]"
    using demo_prefixes by blast
  then have "VerifyObject demo_crypto [demo_icp] (se_id demo_icp) 0 ts pre (demo_key 9 @ demo_key 9) = Inr ()" for pre
    by (simp add: VerifyObject_ok kel_aid_def is_dip_def) (simp add: demo_icp_def)
  then show ?thesis
    by (simp add: record_Verify_def Preimage_def preimageMap_def demo_ael_def demo_rec_def record_preimage.defs)
qed

lemma demo_append: "Append demo_ael NewLedger (demo_rec ts) [demo_icp] = (demo_ledger ts, Inr ())"
  using demo_rec_verified [of ts]
  by (simp add: Append_def NewLedger_def VersionMajor2_def demo_ledger_def drainStaged_def drain.simps)
    (simp add: demo_rec_def demo_ael_def VersionMajor2_def)

lemma demo_reaches: "reaches demo_ael [(demo_rec ts, [demo_icp])] (demo_ledger ts)"
  by (simp add: reaches_def append_step_def demo_append)

lemma demo_rec_ids: "er_id (demo_rec 5) \<noteq> er_id (demo_rec 6)"
    "record_id demo_ael (preimageMap (demo_rec 5)) \<noteq> record_id demo_ael (preimageMap (demo_rec 6))"
proof -
  have "demo_cid (be_bytes 8 (0 :: u64) @ be_bytes 8 (5 :: u64)) \<noteq> demo_cid (be_bytes 8 (0 :: u64) @ be_bytes 8 (6 :: u64))"
    using demo_cid_inj [of "be_bytes 8 (0 :: u64) @ be_bytes 8 (5 :: u64)" "be_bytes 8 (0 :: u64) @ be_bytes 8 (6 :: u64)"] by auto
  then show "er_id (demo_rec 5) \<noteq> er_id (demo_rec 6)"
    "record_id demo_ael (preimageMap (demo_rec 5)) \<noteq> record_id demo_ael (preimageMap (demo_rec 6))"
    by (simp_all add: demo_rec_def record_id_def preimageMap_def demo_ael_def record_preimage.defs)
qed

lemma demo_fork:
  "\<exists>l'. Append demo_ael (demo_ledger 5) (demo_rec 6) [demo_icp] = (l', Inl (Equivocation (demo_rec 5) (demo_rec 6)))"
proof -
  have "appendToChain \<lparr>ch_events = [demo_rec 5], ch_state = ChainActive, ch_staged = []\<rparr> (demo_rec 6)
      = quarantine \<lparr>ch_events = [demo_rec 5], ch_state = ChainActive, ch_staged = []\<rparr> (demo_rec 5) (demo_rec 6)"
    using demo_rec_ids(1) by (simp add: appendToChain_def Let_def) (simp add: demo_rec_def)
  moreover have "er_chain_did (demo_rec t) = ''d''" "er_version_major (demo_rec t) = VersionMajor2" for t
    by (simp_all add: demo_rec_def VersionMajor2_def)
  ultimately show ?thesis using demo_rec_verified [of 6] states_differ
    by (simp add: Append_def demo_ledger_def quarantine_def)
qed

theorem ledger_invariant_witness:
  "\<exists>ch. demo_ledger 5 ''d'' = Some ch \<and> (active_ok demo_ael ''d'' ch \<or> frozen_ok demo_ael ''d'' ch)"
  using ledger_invariant [OF demo_reaches, of 5 "''d''"] by (simp add: demo_ledger_def)

section \<open>Forks\<close>

lemma frozen_step:
  assumes "append_step env l x = Inr l'" and "l did = Some ch" and "ch_state ch = ChainQuarantined"
  shows "l' did = Some ch"
  using assms by (auto simp: append_step_def Append_def Let_def split: sum.splits prod.splits)

lemma frozen_run:
  "run (append_step env) l recs = Inr l' \<Longrightarrow> l did = Some ch \<Longrightarrow> ch_state ch = ChainQuarantined \<Longrightarrow> l' did = Some ch"
proof (induction recs arbitrary: l)
  case (Cons x recs)
  then obtain m where m: "append_step env l x = Inr m" "run (append_step env) m recs = Inr l'"
    by (auto split: sum.splits)
  show ?case using Cons.IH [OF m(2) frozen_step [OF m(1) Cons.prems(2,3)] Cons.prems(3)] .
qed simp

lemma quarantine_result:
  assumes "ledger_ok env l" and "Append env l r kel = (l', Inl (Equivocation a b))"
  obtains ch where "b = r" "l (er_chain_did r) = Some ch" "active_ok env (er_chain_did r) ch" "a \<in> set (ch_events ch)"
    "er_seq a = er_seq r" "er_id a \<noteq> er_id r" "belongs env (er_chain_did r) r"
    "l' (er_chain_did r) = Some (fst (quarantine ch a r))"
  using assms(2,1)
proof (cases rule: Append_cases)
  case (chained ch ch')
  from appendToChain_ok(3) [OF chained(2,3,4)] chained that show thesis by auto
qed auto

text \<open>C22: the fork trap. An append reports an equivocation only for two verified records of one chain at one sequence
  number with different identifiers, the one held and the one offered; and from then on the chain never
  changes, keeps both records, and refuses every append.\<close>

theorem equivocation_freezes:
  assumes "reaches env recs l" and "Append env l r kel = (l', Inl (Equivocation a b))"
    and "run (append_step env) l' later = Inr l''"
  shows "b = r \<and> a \<in> set (Events l (er_chain_did r)) \<and> verified env a \<and> verified env r
    \<and> er_chain_did a = er_chain_did r \<and> er_seq a = er_seq r \<and> er_id a \<noteq> er_id r
    \<and> State l'' (er_chain_did r) = ChainQuarantined \<and> {a, r} \<subseteq> set (Events l'' (er_chain_did r))
    \<and> (er_chain_did r2 = er_chain_did r \<longrightarrow> Append env l'' r2 kel2 = (l'', Inl (AelError CHAIN_QUARANTINED)))"
proof -
  obtain ch where q: "b = r" "l (er_chain_did r) = Some ch" "active_ok env (er_chain_did r) ch" "a \<in> set (ch_events ch)"
    "er_seq a = er_seq r" "er_id a \<noteq> er_id r" "belongs env (er_chain_did r) r"
    "l' (er_chain_did r) = Some (fst (quarantine ch a r))"
    using quarantine_result [OF reaches_ok [OF assms(1)] assms(2)] .
  let ?ch = "fst (quarantine ch a r)"
  have s: "ch_state ?ch = ChainQuarantined" by (simp add: quarantine_def)
  have l'': "l'' (er_chain_did r) = Some ?ch" using frozen_run [OF assms(3) q(8) s] .
  have "belongs env (er_chain_did r) a" using q(3,4) by (auto simp: active_ok_def chain_linked_def in_set_conv_nth)
  moreover have "{a, r} \<subseteq> set (ch_events ?ch)" using q(4) by (simp add: quarantine_def)
  moreover have "Append env l'' r2 kel2 = (l'', Inl (AelError CHAIN_QUARANTINED))" if "er_chain_did r2 = er_chain_did r"
    using l'' s that by (simp add: Append_def)
  ultimately show ?thesis using q l'' s by (auto simp: belongs_def Events_def State_def)
qed

theorem equivocation_freezes_witness:
  "\<exists>l'. Append demo_ael (demo_ledger 5) (demo_rec 6) [demo_icp] = (l', Inl (Equivocation (demo_rec 5) (demo_rec 6)))
     \<and> State l' (er_chain_did (demo_rec 6)) = ChainQuarantined"
proof -
  obtain l' where a: "Append demo_ael (demo_ledger 5) (demo_rec 6) [demo_icp] = (l', Inl (Equivocation (demo_rec 5) (demo_rec 6)))"
    using demo_fork by blast
  have "run (append_step demo_ael) l' [] = Inr l'" by simp
  from equivocation_freezes [OF demo_reaches a this] a show ?thesis by blast
qed

text \<open>After a fork \<open>Head\<close> names the competing record, not the one that was held.\<close>

lemma Head_after_fork:
  assumes "reaches env recs l" and "Append env l r kel = (l', Inl (Equivocation a b))" and "er_event_type r \<noteq> EvForkDetected"
  shows "Head l' (er_chain_did r) = Some (er_id r, er_seq r) \<and> er_id r \<noteq> er_id a"
proof -
  obtain ch where "l' (er_chain_did r) = Some (fst (quarantine ch a r))" "er_id a \<noteq> er_id r"
    using quarantine_result [OF reaches_ok [OF assms(1)] assms(2)] by metis
  then show ?thesis using assms(3) by (simp add: Head_def quarantine_def fork_anchor_def)
qed

text \<open>A record staged for a position replaces another one staged there, with no equivocation reported.\<close>

lemma staged_conflict:
  assumes "active_ok env did ch" and "belongs env did r" and "map_of (ch_staged ch) (er_seq r) = Some x" and "er_id x \<noteq> er_id r"
    and "length (ch_staged ch) < ImportBufferCap"
  shows "appendToChain ch r = (ch \<lparr>ch_staged := AList.update (er_seq r) r (ch_staged ch)\<rparr>, Inr ())"
proof -
  have l: "chain_linked env did (ch_events ch)" and bf: "buffered env did (Suc (length (ch_events ch))) (ch_staged ch)"
    using assms(1) by (auto simp: active_ok_def)
  have far: "Suc (length (ch_events ch)) \<le> unat (er_seq r)" using buffered_entry [OF bf assms(3)] by simp
  have "\<not> er_seq r \<le> er_seq (last (ch_events ch))" using far chain_linked_head [OF l] by (simp add: word_le_nat_alt)
  moreover have "er_seq r \<noteq> er_seq (last (ch_events ch)) + 1"
    using far next_seq [OF l, of "er_seq r"] by fastforce
  ultimately show ?thesis using assms(3-5) by (simp add: appendToChain_def Let_def)
qed

section \<open>One history per record\<close>

lemma record_Verify_ok:
  "record_Verify env kel r = Inr () \<longleftrightarrow> (\<exists>pre. Preimage env r = Some pre \<and> cid_sum (ae_crypto env) pre = Some (er_id r)
     \<and> VerifyObject (ae_crypto env) kel (er_signer_aid r) (er_key_state_seq r) (er_timestamp r) pre (er_sig r) = Inr ())"
  by (auto simp: record_Verify_def split: option.splits sum.splits)

lemma verified_id: "verified env r \<Longrightarrow> record_id env (preimageMap r) = Some (er_id r)"
  by (auto simp: verified_def record_Verify_ok record_id_def Preimage_def)

lemma preimage_fields: "er_seq (preimageMap r) = er_seq r" "er_prev_id (preimageMap r) = er_prev_id r"
  by (simp_all add: preimageMap_def record_preimage.defs)

lemma chain_linked_back:
  assumes "chain_linked env did a" and "chain_linked env did' b" and "inj_on (record_id env) (preimageMap ` (set a \<union> set b))"
    and "i < length a" and "j < length b" and "er_id (a ! i) = er_id (b ! j)"
  shows "i = j \<and> map preimageMap (take (Suc i) a) = map preimageMap (take (Suc i) b)"
  using assms(4-6)
proof (induction i arbitrary: j)
  case (0 j)
  have v: "verified env (a ! 0)" "verified env (b ! j)" using assms(1,2) 0 by (simp_all add: chain_linked_def belongs_def)
  have "preimageMap (a ! 0) = preimageMap (b ! j)"
    using inj_onD [OF assms(3)] verified_id [OF v(1)] verified_id [OF v(2)] 0 by (metis UnI1 UnI2 image_eqI nth_mem)
  moreover from this have "er_seq (a ! 0) = er_seq (b ! j)" by (metis preimage_fields(1))
  moreover have "unat (er_seq (a ! 0)) = 0" "unat (er_seq (b ! j)) = j" using assms(1,2) 0 by (simp_all add: chain_linked_def)
  moreover have "take (Suc 0) a = [a ! 0]" "take (Suc 0) b = [b ! 0]" using 0 by (cases a; cases b; simp)+
  ultimately show ?case by simp
next
  case (Suc i j)
  have v: "verified env (a ! Suc i)" "verified env (b ! j)" using assms(1,2) Suc.prems by (simp_all add: chain_linked_def belongs_def)
  have p: "preimageMap (a ! Suc i) = preimageMap (b ! j)"
    using inj_onD [OF assms(3)] verified_id [OF v(1)] verified_id [OF v(2)] Suc.prems by (metis UnI1 UnI2 image_eqI nth_mem)
  then have "er_seq (a ! Suc i) = er_seq (b ! j)" "er_prev_id (a ! Suc i) = er_prev_id (b ! j)" by (metis preimage_fields)+
  moreover have "unat (er_seq (a ! Suc i)) = Suc i" "unat (er_seq (b ! j)) = j" using assms(1,2) Suc.prems by (simp_all add: chain_linked_def)
  ultimately have j: "j = Suc i" and "er_prev_id (a ! Suc i) = er_prev_id (b ! Suc i)" by auto
  then have "er_id (a ! i) = er_id (b ! i)" using assms(1,2) Suc.prems by (simp add: chain_linked_def)
  then have "map preimageMap (take (Suc i) a) = map preimageMap (take (Suc i) b)" using Suc.IH [of i] Suc.prems j by simp
  then show ?case using p j Suc.prems by (simp add: take_Suc_conv_app_nth)
qed

end
