(* ===== verification/Ael_Supply.thy ===== *)
theory Ael_Supply
  imports Ael_Props Payment Liab_Wire "HOL-Library.List_Lexorder" "HOL-Library.Char_ord"
begin

text \<open>
  Supply epochs and head attestations (\<open>ael/supply.go\<close>, \<open>ael/witness.go\<close>): the record by which a hub publishes the
  root and total of its liability tree, and the statement by which a witness fixes the head of a chain. The
  CoreDet codec of a payload is the parameter \<open>supply_codec\<close>.
\<close>

section \<open>Supply epochs\<close>

definition EvSupplyEpoch :: string where "EvSupplyEpoch = ''anet.supply.epoch''"
definition SupplyEpochVersion :: u64 where "SupplyEpochVersion = 2"
definition SupplyMinDepth :: int where "SupplyMinDepth = 4"
definition SupplyMaxDepth :: int where "SupplyMaxDepth = 32"
definition MaxOutstanding :: u64 where "MaxOutstanding = 9223372036854775807"

record supply_epoch =
  se_from_day :: u64
  se_to_day :: u64
  se_root :: b32
  se_outstanding :: u64
  se_depth :: int

definition supplyMembers :: "string list" where
  "supplyMembers = [''depth'', ''from_day'', ''outstanding'', ''root'', ''to_day'', ''v'']"

record supply_codec =
  sc_enc_payload :: "payload \<Rightarrow> bytes option"
  sc_members :: "bytes \<Rightarrow> string list option"
  sc_dec :: "bytes \<Rightarrow> supply_payload option"
  sc_enc :: "supply_payload \<Rightarrow> bytes option"

datatype supply_err = ErrSupplyEpoch

definition supply_check :: "supply_epoch \<Rightarrow> supply_err + unit" where
  "supply_check p =
     (if se_from_day p > se_to_day p then Inl ErrSupplyEpoch
      else if se_outstanding p > MaxOutstanding then Inl ErrSupplyEpoch
      else if se_depth p < SupplyMinDepth \<or> se_depth p > SupplyMaxDepth then Inl ErrSupplyEpoch
      else Inr ())"

definition supply_item :: "supply_epoch \<Rightarrow> supply_payload" where
  "supply_item p = \<lparr>sp_v = SupplyEpochVersion, sp_from_day = se_from_day p, sp_to_day = se_to_day p,
     sp_root = Hex (se_root p), sp_outstanding = se_outstanding p, sp_depth = word_of_int (se_depth p)\<rparr>"

definition SupplyEpochRecord :: "string \<Rightarrow> supply_epoch \<Rightarrow> supply_err + event_record" where
  "SupplyEpochRecord hubAID p =
     (if hubAID = [] then Inl ErrSupplyEpoch
      else ebind (supply_check p) (\<lambda>_.
        Inr \<lparr>er_chain_did = hubAID, er_seq = 0, er_prev_id = [], er_event_type = EvSupplyEpoch,
             er_version_major = VersionMajor2, er_payload = SupplyItem (supply_item p), er_timestamp = 0,
             er_signer_aid = [], er_key_state_seq = 0, er_critical = [], er_id = [], er_sig = [],
             er_version_minor = 0, er_corr_id = []\<rparr>))"

definition join_comma :: "string list \<Rightarrow> string" where
  "join_comma names = concat (map (\<lambda>i. (if i = 0 then [] else '','') @ names ! i) [0..<length names])"

definition is_upper :: "char \<Rightarrow> bool" where
  "is_upper c \<longleftrightarrow> 65 \<le> (of_char c :: nat) \<and> (of_char c :: nat) \<le> 90"

text \<open>64 lower-case hexadecimal digits; a byte beyond ASCII is refused with the same error wherever it is noticed.\<close>

definition supply_root :: "string \<Rightarrow> supply_err + b32" where
  "supply_root s =
     (if length s \<noteq> 64 \<or> list_ex is_upper s then Inl ErrSupplyEpoch
      else case ParseHex s of Inl _ \<Rightarrow> Inl ErrSupplyEpoch | Inr r \<Rightarrow> Inr r)"

definition supply_payload_of :: "supply_codec \<Rightarrow> payload \<Rightarrow> supply_err + supply_payload" where
  "supply_payload_of K payload =
     (case sc_enc_payload K payload of
        None \<Rightarrow> Inl ErrSupplyEpoch
      | Some raw \<Rightarrow>
          (case sc_members K raw of
             None \<Rightarrow> Inl ErrSupplyEpoch
           | Some names \<Rightarrow>
               if join_comma (sort names) \<noteq> join_comma supplyMembers then Inl ErrSupplyEpoch
               else case sc_dec K raw of
                 None \<Rightarrow> Inl ErrSupplyEpoch
               | Some p \<Rightarrow> if sc_enc K p \<noteq> Some raw then Inl ErrSupplyEpoch else Inr p))"

definition ParseSupplyEpoch :: "supply_codec \<Rightarrow> event_record option \<Rightarrow> supply_err + supply_epoch" where
  "ParseSupplyEpoch K rec =
     (case rec of
        None \<Rightarrow> Inl ErrSupplyEpoch
      | Some r \<Rightarrow>
          if er_event_type r \<noteq> EvSupplyEpoch then Inl ErrSupplyEpoch
          else if er_version_major r \<noteq> VersionMajor2 \<or> er_version_minor r \<noteq> 0 then Inl ErrSupplyEpoch
          else if er_chain_did r = [] then Inl ErrSupplyEpoch
          else if length (er_critical r) > 0 \<or> er_corr_id r \<noteq> [] then Inl ErrSupplyEpoch
          else ebind (supply_payload_of K (er_payload r)) (\<lambda>p.
            if sp_v p \<noteq> SupplyEpochVersion then Inl ErrSupplyEpoch
            else ebind (supply_root (sp_root p)) (\<lambda>root.
              if sp_depth p > word_of_int SupplyMaxDepth then Inl ErrSupplyEpoch
              else let out = \<lparr>se_from_day = sp_from_day p, se_to_day = sp_to_day p, se_root = root,
                              se_outstanding = sp_outstanding p, se_depth = uint (sp_depth p)\<rparr> in
                ebind (supply_check out) (\<lambda>_. Inr out))))"

text \<open>A record as it travels; the codec of records is \<open>dec\<close> and \<open>enc\<close>.\<close>

datatype record_wire_err = RecordDecode | RecordNotCanonical

definition UnmarshalEventRecord ::
  "(bytes \<Rightarrow> event_record option) \<Rightarrow> (event_record \<Rightarrow> bytes option) \<Rightarrow> bytes \<Rightarrow> record_wire_err + event_record" where
  "UnmarshalEventRecord dec enc b =
     (case dec b of
        None \<Rightarrow> Inl RecordDecode
      | Some r \<Rightarrow> if enc r \<noteq> Some b then Inl RecordNotCanonical else Inr r)"

section \<open>Head attestations\<close>

record attestation_body =
  ha_chain_did :: string
  ha_seq :: u64
  ha_head_id :: string
  ha_observed_at :: u64

record head_attestation = attestation_body +
  ha_envelope :: "envelope option"

datatype attest_err =
    SelfWitness | NoHeadNamed | AttPreimage | AttCid | AttUnsigned | AttEnvelope | OtherWitness | AttNotVerified verr
  | AttDecode

definition att_canonical :: "head_attestation \<Rightarrow> attestation_body" where
  "att_canonical a = attestation_body.truncate a"

definition att_preimage :: "(attestation_body \<Rightarrow> bytes option) \<Rightarrow> head_attestation \<Rightarrow> bytes option" where
  "att_preimage enc a = enc (att_canonical a)"

definition att_ID :: "crypto \<Rightarrow> (attestation_body \<Rightarrow> bytes option) \<Rightarrow> head_attestation \<Rightarrow> attest_err + string" where
  "att_ID C enc a =
     (case att_preimage enc a of
        None \<Rightarrow> Inl AttPreimage
      | Some pre \<Rightarrow> (case cid_sum C pre of None \<Rightarrow> Inl AttCid | Some i \<Rightarrow> Inr i))"

definition WitnessAID :: "head_attestation \<Rightarrow> string" where
  "WitnessAID a = (case ha_envelope a of None \<Rightarrow> [] | Some e \<Rightarrow> en_signer_aid e)"

definition att_Sign :: "(attestation_body \<Rightarrow> bytes option) \<Rightarrow> signer \<Rightarrow> head_attestation \<Rightarrow> attest_err + head_attestation" where
  "att_Sign enc s a =
     (if ha_chain_did a = sg_aid s then Inl SelfWitness
      else if ha_head_id a = [] then Inl NoHeadNamed
      else case att_preimage enc a of
        None \<Rightarrow> Inl AttPreimage
      | Some pre \<Rightarrow> Inr (a \<lparr>ha_envelope := Some (attach s pre)\<rparr>))"

text \<open>The context is the witness expected (empty for any) and the time.\<close>

definition att_Verify ::
  "(attestation_body \<Rightarrow> bytes option) \<Rightarrow> crypto \<Rightarrow> signed_event list \<Rightarrow> string \<times> u64 \<Rightarrow> head_attestation \<Rightarrow> attest_err + unit" where
  "att_Verify enc C kel x a =
     (case ha_envelope a of
        None \<Rightarrow> Inl AttUnsigned
      | Some e \<Rightarrow>
          if \<not> envelope_Validate e then Inl AttEnvelope
          else if fst x \<noteq> [] \<and> en_signer_aid e \<noteq> fst x then Inl OtherWitness
          else if en_signer_aid e = ha_chain_did a then Inl SelfWitness
          else case att_preimage enc a of
            None \<Rightarrow> Inl AttPreimage
          | Some pre \<Rightarrow>
              (case VerifyObject C kel (en_signer_aid e) (en_key_state_seq e) (snd x) pre (en_sig e) of
                 Inl err \<Rightarrow> Inl (AttNotVerified err)
               | Inr _ \<Rightarrow> Inr ()))"

record wire_attestation =
  wt_body :: attestation_body
  wt_envelope :: "envelope option"

definition att_Marshal :: "(wire_attestation \<Rightarrow> bytes option) \<Rightarrow> head_attestation \<Rightarrow> bytes option" where
  "att_Marshal encw a = encw \<lparr>wt_body = att_canonical a, wt_envelope = ha_envelope a\<rparr>"

definition UnmarshalHeadAttestation :: "(bytes \<Rightarrow> wire_attestation option) \<Rightarrow> bytes \<Rightarrow> attest_err + head_attestation" where
  "UnmarshalHeadAttestation decw b =
     (case decw b of
        None \<Rightarrow> Inl AttDecode
      | Some w \<Rightarrow> Inr (attestation_body.extend (wt_body w) (head_attestation.fields (wt_envelope w))))"

definition ContradictedBy :: "head_attestation \<Rightarrow> event_record option \<Rightarrow> bool" where
  "ContradictedBy a rec =
     (case rec of
        None \<Rightarrow> False
      | Some r \<Rightarrow>
          if er_chain_did r \<noteq> ha_chain_did a \<or> er_seq r \<noteq> ha_seq a then False else er_id r \<noteq> ha_head_id a)"

section \<open>Published epochs\<close>

text \<open>What the code relies on of CoreDet for one payload: it encodes the same from either form, its members are the six,
  and it decodes to itself.\<close>

definition supply_coder :: "supply_codec \<Rightarrow> supply_payload \<Rightarrow> bool" where
  "supply_coder K p \<longleftrightarrow> (\<exists>b. sc_enc_payload K (SupplyItem p) = Some b \<and> sc_enc K p = Some b \<and> sc_dec K b = Some p
     \<and> (\<exists>names. sc_members K b = Some names \<and> sort names = supplyMembers))"

lemma no_upper: "\<not> list_ex is_upper (hex_pairs bs)"
proof (induction bs)
  case (Cons b bs)
  have "\<not> is_upper (hexDigits ! n)" if "n < 16" for n
    using hex_digit_nibble [OF that] by (auto simp: hex_nibble_def is_upper_def Let_def split: if_splits)
  then show ?case using Cons nibbles(1,2) by (simp add: hex_pairs_simps)
qed (simp add: hex_pairs_simps)

lemma supply_root_iff: "supply_root s = Inr r \<longleftrightarrow> s = Hex r"
proof
  assume "supply_root s = Inr r"
  then show "s = Hex r" by (auto simp: supply_root_def ParseHex_iff split: if_splits sum.splits)
next
  assume s: "s = Hex r"
  then have "ParseHex s = Inr r" by (simp add: ParseHex_iff)
  then show "supply_root s = Inr r" using s no_upper by (simp add: supply_root_def Hex_pairs)
qed

lemma parse_published:
  assumes "SupplyEpochRecord hub p = Inr r" and "supply_coder K (supply_item p)"
    and "er_event_type r' = er_event_type r" and "er_version_major r' = er_version_major r" and "er_version_minor r' = 0"
    and "er_chain_did r' = er_chain_did r" and "er_critical r' = []" and "er_corr_id r' = []" and "er_payload r' = er_payload r"
  shows "ParseSupplyEpoch K (Some r') = Inr p"
proof -
  have r: "hub \<noteq> []" "supply_check p = Inr ()" "er_payload r = SupplyItem (supply_item p)" "er_event_type r = EvSupplyEpoch"
    "er_version_major r = VersionMajor2" "er_chain_did r = hub"
    using assms(1) by (auto simp: SupplyEpochRecord_def ebind_Inr_iff split: if_splits)
  then have d: "4 \<le> se_depth p" "se_depth p \<le> 32"
    by (auto simp: supply_check_def SupplyMinDepth_def SupplyMaxDepth_def split: if_splits)
  have u: "uint (word_of_int (se_depth p) :: u64) = se_depth p"
    using d by (simp add: uint_word_of_int)
  then have le: "\<not> word_of_int (se_depth p) > (word_of_int SupplyMaxDepth :: u64)"
    using d by (simp add: word_less_def SupplyMaxDepth_def)
  have item: "supply_payload_of K (SupplyItem (supply_item p)) = Inr (supply_item p)"
    using assms(2) by (auto simp: supply_coder_def supply_payload_of_def)
  have out: "\<lparr>se_from_day = se_from_day p, se_to_day = se_to_day p, se_root = se_root p, se_outstanding = se_outstanding p,
      se_depth = se_depth p\<rparr> = p" by simp
  show ?thesis using r u le item assms(3-9) supply_root_iff [of "Hex (se_root p)" "se_root p"]
    by (simp add: ParseSupplyEpoch_def supply_item_def Let_def out)
qed

text \<open>C24: from the balances to each account's check. For the tree a hub builds over its accounts, the supply record always
  exists; whoever reads it from the hub's chain, signed and placed, recovers exactly the tree's root, total
  and depth; and against these every account's proof of its own balance verifies.\<close>

theorem epoch_accounts_verify:
  assumes "Build sha enc leaves toDay rand = Inr t" and "hub \<noteq> []" and "fromDay \<le> toDay"
    and "p = \<lparr>se_from_day = fromDay, se_to_day = toDay, se_root = Root t, se_outstanding = Outstanding t, se_depth = int (Depth t)\<rparr>"
    and "supply_coder K (supply_item p)"
  shows "\<exists>r. SupplyEpochRecord hub p = Inr r
    \<and> (\<forall>seq prev ts aid ks eid sig. ParseSupplyEpoch K (Some (r \<lparr>er_seq := seq, er_prev_id := prev, er_timestamp := ts,
           er_signer_aid := aid, er_key_state_seq := ks, er_id := eid, er_sig := sig\<rparr>)) = Inr p)
    \<and> (\<forall>l \<in> set leaves. \<exists>q. Proof t (l_aid l) = Some q \<and> p_balance q = l_balance l
         \<and> Verify sha enc q (se_root p) (se_outstanding p) (se_depth p) = Inr ())"
proof -
  obtain d where t: "built sha enc d t" using Build_built [OF assms(1)] by blast
  have "unat (Outstanding t) \<le> 2 ^ 63 - 1" "4 \<le> Depth t" "Depth t \<le> 32"
    using built_sum(2,3) [OF t] t by (auto simp: built_def MaxDepth_def)
  then have c: "supply_check p = Inr ()"
    using assms(3,4) by (simp add: supply_check_def SupplyMinDepth_def SupplyMaxDepth_def MaxOutstanding_def not_less word_le_nat_alt)
  then obtain r where r: "SupplyEpochRecord hub p = Inr r" "er_critical r = []" "er_corr_id r = []" "er_version_minor r = 0"
    using assms(2) by (simp add: SupplyEpochRecord_def)
  have "\<exists>q. Proof t (l_aid l) = Some q \<and> p_balance q = l_balance l \<and> Verify sha enc q (se_root p) (se_outstanding p) (se_depth p) = Inr ()"
    if "l \<in> set leaves" for l
    using account_verifies [OF assms(1) that] assms(4) by auto
  then show ?thesis using r parse_published [OF r(1) assms(5)] by auto
qed

theorem epoch_accounts_verify_witness:
  "\<exists>t (p :: supply_epoch) q. Build demo_sha demo_enc demo_leaves 1 (replicate 632 0) = Inr t \<and> Proof t ''b'' = Some q \<and> p_balance q = 7
     \<and> Verify demo_sha demo_enc q (se_root p) (se_outstanding p) (se_depth p) = Inr ()"
proof -
  obtain t where t: "Build demo_sha demo_enc demo_leaves 1 (replicate 632 0) = Inr t" using demo_Build by blast
  let ?p = "\<lparr>se_from_day = 1, se_to_day = 1, se_root = Root t, se_outstanding = Outstanding t, se_depth = int (Depth t)\<rparr>"
  let ?K = "\<lparr>sc_enc_payload = (\<lambda>_. Some [1]), sc_members = (\<lambda>_. Some supplyMembers), sc_dec = (\<lambda>_. Some (supply_item ?p)),
    sc_enc = (\<lambda>_. Some [1])\<rparr>"
  have "sort supplyMembers = supplyMembers"
    unfolding supplyMembers_def by (rule sort_key_id_if_sorted) (simp add: less_eq_char_def)
  then have K: "supply_coder ?K (supply_item ?p)" by (simp add: supply_coder_def)
  have "\<lparr>l_aid = ''b'', l_balance = 7\<rparr> \<in> set demo_leaves" by (simp add: demo_leaves_def)
  then have "\<exists>q. Proof t ''b'' = Some q \<and> p_balance q = 7
      \<and> Verify demo_sha demo_enc q (se_root ?p) (se_outstanding ?p) (se_depth ?p) = Inr ()"
    using epoch_accounts_verify [where hub = "''h''", OF t _ order_refl refl K] by fastforce
  then show ?thesis using t by blast
qed

section \<open>Witnessed history\<close>

lemma att_signed [simp]: "att_preimage enc (a \<lparr>ha_envelope := e\<rparr>) = att_preimage enc a"
  by (simp add: att_preimage_def att_canonical_def attestation_body.defs)

interpretation attestation: signed_object "att_Sign enc" "att_Verify enc" "att_preimage enc" ha_envelope
  "\<lambda>x a. \<exists>e. ha_envelope a = Some e \<and> (fst x = [] \<or> en_signer_aid e = fst x) \<and> en_signer_aid e \<noteq> ha_chain_did a"
  "\<lambda>x _. snd x" for enc
proof unfold_locales
  fix s v w assume "att_Sign enc s v = Inr w"
  then show "\<exists>b. att_preimage enc w = Some b \<and> ha_envelope w = Some (attach s b)"
    by (auto simp: att_Sign_def split: option.splits if_splits)
next
  fix C kel v and x :: "string \<times> u64"
  show "att_Verify enc C kel x v = Inr () \<longleftrightarrow>
      (\<exists>e. ha_envelope v = Some e \<and> (fst x = [] \<or> en_signer_aid e = fst x) \<and> en_signer_aid e \<noteq> ha_chain_did v)
      \<and> (\<exists>e b. ha_envelope v = Some e \<and> att_preimage enc v = Some b \<and> envelope_holds C kel (snd x) b e)"
    by (auto simp: att_Verify_def envelope_holds_def split: option.splits sum.splits if_splits)
qed

lemma att_roundtrip:
  assumes "att_Marshal encw a = Some b" and "coder_ok encw decw"
  shows "UnmarshalHeadAttestation decw b = Inr a"
  using coder_okD [OF assms(2) assms(1) [unfolded att_Marshal_def]]
  by (simp add: UnmarshalHeadAttestation_def att_canonical_def attestation_body.defs head_attestation.defs)

lemma active_chain:
  assumes "reaches env recs l" and "State l did = ChainActive"
  shows "chain_linked env did (Events l did) \<and> (\<exists>ch. l did = Some ch \<and> Events l did = ch_events ch \<and> ch_state ch = ChainActive)"
proof -
  obtain ch where ch: "l did = Some ch" "ch_state ch = ChainActive"
    using assms(2) by (auto simp: State_def ChainActive_def split: option.splits)
  then have "active_ok env did ch"
    using reaches_ok [OF assms(1)] states_differ unfolding ledger_ok_def frozen_ok_def by metis
  then show ?thesis using ch by (simp add: active_ok_def Events_def)
qed

text \<open>C23: what a head attestation is worth. When a witness attested the head of its copy of a chain, and its copy and another
  are both active and the other has grown past the attested position, then its record there contradicts the attestation exactly
  when it does not hold the very records the witness saw, from the first one up to the attested head; absent collisions among
  the records of the two copies. A shorter copy has no record to contradict the attestation with.\<close>

theorem attested_history:
  assumes "reaches env recs l" and "State l did = ChainActive" and "reaches env recs' w" and "State w did = ChainActive"
    and "Head w did = Some (ha_head_id a, ha_seq a)" and "ha_chain_did a = did"
    and "unat (ha_seq a) < length (Events l did)"
    and "inj_on (record_id env) (preimageMap ` (set (Events l did) \<union> set (Events w did)))"
  shows "ContradictedBy a (Some (Events l did ! unat (ha_seq a))) \<longleftrightarrow>
    map preimageMap (take (Suc (unat (ha_seq a))) (Events l did)) \<noteq> map preimageMap (Events w did)"
proof -
  let ?i = "unat (ha_seq a)" let ?l = "Events l did" let ?w = "Events w did"
  have l: "chain_linked env did ?l" and w: "chain_linked env did ?w" using active_chain assms(1-4) by blast+
  have ne: "?w \<noteq> []" using w by (simp add: chain_linked_def)
  have h: "ha_head_id a = er_id (last ?w)" "ha_seq a = er_seq (last ?w)"
    using active_chain [OF assms(3,4)] assms(5) ne states_differ by (auto simp: Head_def Let_def)
  then have len: "Suc ?i = length ?w" using chain_linked_head [OF w] by simp
  have last: "last ?w = ?w ! ?i" using len ne by (simp add: last_conv_nth flip: len)
  have r: "er_chain_did (?l ! ?i) = did" "unat (er_seq (?l ! ?i)) = ?i" "verified env (?l ! ?i)" "verified env (?w ! ?i)"
    using l w assms(7) len by (auto simp: chain_linked_def belongs_def)
  then have c: "ContradictedBy a (Some (?l ! ?i)) \<longleftrightarrow> er_id (?l ! ?i) \<noteq> er_id (?w ! ?i)"
    using assms(6) h(1) last by (simp add: ContradictedBy_def word_unat_eq_iff)
  have "er_id (?l ! ?i) = er_id (?w ! ?i) \<longleftrightarrow> map preimageMap (take (Suc ?i) ?l) = map preimageMap ?w"
  proof
    assume "er_id (?l ! ?i) = er_id (?w ! ?i)"
    then have "map preimageMap (take (Suc ?i) ?l) = map preimageMap (take (Suc ?i) ?w)"
      using chain_linked_back [OF l w assms(8,7), of ?i] len by simp
    then show "map preimageMap (take (Suc ?i) ?l) = map preimageMap ?w" using len by simp
  next
    assume "map preimageMap (take (Suc ?i) ?l) = map preimageMap ?w"
    then have "map preimageMap (take (Suc ?i) ?l) ! ?i = map preimageMap ?w ! ?i" by simp
    then have "preimageMap (?l ! ?i) = preimageMap (?w ! ?i)" using assms(7) len by simp
    then show "er_id (?l ! ?i) = er_id (?w ! ?i)" using verified_id [OF r(3)] verified_id [OF r(4)] by simp
  qed
  then show ?thesis using c by blast
qed

theorem attested_history_witness:
  "ContradictedBy \<lparr>ha_chain_did = ''d'', ha_seq = 0, ha_head_id = er_id (demo_rec 6), ha_observed_at = 0, ha_envelope = None\<rparr>
     (Some (demo_rec 5))"
proof -
  let ?a = "\<lparr>ha_chain_did = ''d'', ha_seq = 0, ha_head_id = er_id (demo_rec 6), ha_observed_at = 0, ha_envelope = None\<rparr>"
  have st: "State (demo_ledger t) ''d'' = ChainActive" "Events (demo_ledger t) ''d'' = [demo_rec t]" for t
    by (simp_all add: State_def Events_def demo_ledger_def)
  have h: "Head (demo_ledger 6) ''d'' = Some (ha_head_id ?a, ha_seq ?a)"
    using states_differ by (simp add: Head_def demo_ledger_def Let_def) (simp add: demo_rec_def)
  have i: "inj_on (record_id demo_ael) (preimageMap ` (set (Events (demo_ledger 5) ''d'') \<union> set (Events (demo_ledger 6) ''d'')))"
    using demo_rec_ids by (simp add: st inj_on_def)
  have d: "preimageMap (demo_rec 5) \<noteq> preimageMap (demo_rec 6)"
    by (simp add: preimageMap_def demo_rec_def record_preimage.defs)
  from attested_history [OF demo_reaches st(1) demo_reaches st(1) h _ _ i] d show ?thesis by (simp add: st)
qed

end
