(* ===== verification/Utf8.thy ===== *)
theory Utf8
  imports Prelude
begin

text \<open>
  The parts of Go's \<open>unicode/utf8\<close> the packages use: the width of the first rune of a string, \<open>ValidString\<close> and
  \<open>RuneCountInString\<close>, in which an invalid byte counts as one rune; and the test for U+0000 that every text
  field passes before it becomes part of a zero-separated hash input.
\<close>

section \<open>UTF-8\<close>

definition byte_in :: "nat \<Rightarrow> nat \<Rightarrow> string \<Rightarrow> nat \<Rightarrow> bool" where
  "byte_in lo hi s i \<longleftrightarrow> i < length s \<and> lo \<le> of_char (s ! i) \<and> of_char (s ! i) \<le> hi"

definition cont :: "string \<Rightarrow> nat \<Rightarrow> bool" where
  "cont s i = byte_in 0x80 0xBF s i"

text \<open>The width of the first rune, 0 when the bytes at the front are no rune.\<close>

definition rune_width :: "string \<Rightarrow> nat" where
  "rune_width s =
     (if byte_in 0 0x7F s 0 then 1
      else if byte_in 0xC2 0xDF s 0 then (if cont s 1 then 2 else 0)
      else if byte_in 0xE0 0xE0 s 0 then (if byte_in 0xA0 0xBF s 1 \<and> cont s 2 then 3 else 0)
      else if byte_in 0xED 0xED s 0 then (if byte_in 0x80 0x9F s 1 \<and> cont s 2 then 3 else 0)
      else if byte_in 0xE1 0xEF s 0 then (if cont s 1 \<and> cont s 2 then 3 else 0)
      else if byte_in 0xF0 0xF0 s 0 then (if byte_in 0x90 0xBF s 1 \<and> cont s 2 \<and> cont s 3 then 4 else 0)
      else if byte_in 0xF4 0xF4 s 0 then (if byte_in 0x80 0x8F s 1 \<and> cont s 2 \<and> cont s 3 then 4 else 0)
      else if byte_in 0xF1 0xF3 s 0 then (if cont s 1 \<and> cont s 2 \<and> cont s 3 then 4 else 0)
      else 0)"

function ValidString :: "string \<Rightarrow> bool" where
  "ValidString s = (if s = [] then True else if rune_width s = 0 then False else ValidString (drop (rune_width s) s))"
  by pat_completeness auto
termination by (relation "measure length") auto

function RuneCount :: "string \<Rightarrow> nat" where
  "RuneCount s = (if s = [] then 0 else Suc (RuneCount (drop (max 1 (rune_width s)) s)))"
  by pat_completeness auto
termination by (relation "measure length") auto

declare ValidString.simps [simp del] RuneCount.simps [simp del]

lemma RuneCount_le: "RuneCount s \<le> length s"
proof (induction s rule: RuneCount.induct)
  case (1 s)
  show ?case
  proof (cases "s = []")
    case False
    have "RuneCount (drop (max 1 (rune_width s)) s) \<le> length (drop (max 1 (rune_width s)) s)" using 1 False by blast
    also have "\<dots> < length s" using False by simp
    finally show ?thesis using False by (simp add: RuneCount.simps [of s])
  qed (simp add: RuneCount.simps)
qed

section \<open>Separated fields\<close>

definition has_nul :: "string \<Rightarrow> bool" where
  "has_nul s \<longleftrightarrow> CHR 0x00 \<in> set s"

lemma nul_free_ascii: "\<not> has_nul s \<Longrightarrow> 0 \<notin> set (ascii s)"
  by (simp add: has_nul_def zero_in_ascii)

lemma ascii_zero_unique:
  assumes "ascii a @ 0 # r = ascii b @ 0 # t" and "\<not> has_nul a" and "\<not> has_nul b"
  shows "a = b \<and> r = t"
  using zero_terminated_unique [OF assms(1)] nul_free_ascii assms(2,3) by auto

end
