(* ===== verification/Evidence_Commit.thy ===== *)
theory Evidence_Commit
  imports Signed_Object Utf8
begin

text \<open>
  The commitments and tags of the evidence objects (\<open>evidence/commit.go\<close>): hashes of a label and of fields
  separated by zero bytes. SHA-256 is the function of the \<open>crypto\<close> record; HMAC is built from it as in RFC 2104.
\<close>

datatype ev_err =
    EvMalformed | EvRating | EvComment | EvSigner | EvSignature "verr option" | EvNUL | EvEncode | EvCid
  | NotThisReceipt

definition CommitSize :: nat where "CommitSize = 32"
definition ReviewKeySize :: nat where "ReviewKeySize = 32"
definition RSaltSize :: nat where "RSaltSize = 32"
definition TagKeySize :: nat where "TagKeySize = 32"
definition TagSize :: nat where "TagSize = 16"
definition RatingMin :: u64 where "RatingMin = 1"
definition RatingMax :: u64 where "RatingMax = 5"
definition MaxCommentChars :: nat where "MaxCommentChars = 280"
definition DayMS :: u64 where "DayMS = 86400000"

definition labelIXCommit :: string where "labelIXCommit = ''anet-receipt-ix/v2''"
definition labelRequesterCommit :: string where "labelRequesterCommit = ''anet-receipt-requester/v2''"
definition labelReviewTag :: string where "labelReviewTag = ''anet-review-tag/v1''"
definition labelSettleGuard :: string where "labelSettleGuard = ''anet-settle-guard/v1''"

definition commitText :: "string \<Rightarrow> ev_err + unit" where
  "commitText v = (if v = [] then Inl EvNUL else if has_nul v then Inl EvNUL else Inr ())"

text \<open>What the four functions write into the hash, one after the other.\<close>

definition commit_input :: "string \<Rightarrow> string \<Rightarrow> bytes \<Rightarrow> bytes" where
  "commit_input label a b = ascii label @ [0] @ ascii a @ [0] @ b"

definition IXCommit :: "crypto \<Rightarrow> string \<Rightarrow> string \<Rightarrow> ev_err + bytes" where
  "IXCommit C ix nonce =
     ebind (commitText ix) (\<lambda>_.
     ebind (commitText nonce) (\<lambda>_.
       Inr (sha256 C (commit_input labelIXCommit ix (ascii nonce)))))"

definition RequesterCommit :: "crypto \<Rightarrow> string \<Rightarrow> bytes \<Rightarrow> ev_err + bytes" where
  "RequesterCommit C requesterAID rsalt =
     ebind (commitText requesterAID) (\<lambda>_.
       if length rsalt \<noteq> RSaltSize then Inl EvMalformed
       else Inr (sha256 C (commit_input labelRequesterCommit requesterAID rsalt)))"

text \<open>HMAC-SHA256: a key longer than a block is hashed, a shorter one filled up with zeros.\<close>

definition hmac_key :: "crypto \<Rightarrow> bytes \<Rightarrow> bytes" where
  "hmac_key C key = (let k = (if length key > 64 then sha256 C key else key) in k @ replicate (64 - length k) 0)"

definition hmac_sha256 :: "crypto \<Rightarrow> bytes \<Rightarrow> bytes \<Rightarrow> bytes" where
  "hmac_sha256 C key msg =
     (let k = hmac_key C key in
      sha256 C (map (\<lambda>b. xor b 0x5C) k @ sha256 C (map (\<lambda>b. xor b 0x36) k @ msg)))"

definition ReviewTag :: "crypto \<Rightarrow> bytes \<Rightarrow> string \<Rightarrow> string \<Rightarrow> ev_err + bytes" where
  "ReviewTag C tagKey reviewerAID subjectAID =
     (if length tagKey \<noteq> TagKeySize then Inl EvMalformed
      else ebind (commitText reviewerAID) (\<lambda>_.
      ebind (commitText subjectAID) (\<lambda>_.
        Inr (take TagSize (hmac_sha256 C tagKey (commit_input labelReviewTag reviewerAID (ascii subjectAID)))))))"

definition SettleGuard :: "crypto \<Rightarrow> string \<Rightarrow> string \<Rightarrow> ev_err + bytes" where
  "SettleGuard C payer payBind =
     ebind (commitText payer) (\<lambda>_.
     ebind (commitText payBind) (\<lambda>_.
       Inr (sha256 C (commit_input labelSettleGuard payer (ascii payBind)))))"

section \<open>A commitment fixes its fields\<close>

lemma commitText_ok: "commitText v = Inr u \<longleftrightarrow> v \<noteq> [] \<and> \<not> has_nul v"
  by (simp add: commitText_def)

lemmas label_defs = labelIXCommit_def labelRequesterCommit_def labelReviewTag_def labelSettleGuard_def

lemma labels_nul_free [simp]:
  "\<not> has_nul labelIXCommit" "\<not> has_nul labelRequesterCommit" "\<not> has_nul labelReviewTag" "\<not> has_nul labelSettleGuard"
  by (simp_all add: label_defs has_nul_def)

lemma labels_differ [simp]:
  "labelIXCommit \<noteq> labelRequesterCommit" "labelIXCommit \<noteq> labelSettleGuard" "labelRequesterCommit \<noteq> labelSettleGuard"
  "labelRequesterCommit \<noteq> labelIXCommit" "labelSettleGuard \<noteq> labelIXCommit" "labelSettleGuard \<noteq> labelRequesterCommit"
  by (simp_all add: label_defs)

lemma commit_input_inj:
  assumes "commit_input l a b = commit_input l' a' b'" and "\<not> has_nul l" "\<not> has_nul l'" "\<not> has_nul a" "\<not> has_nul a'"
  shows "l = l' \<and> a = a' \<and> b = b'"
proof -
  have "ascii l @ 0 # (ascii a @ 0 # b) = ascii l' @ 0 # (ascii a' @ 0 # b')"
    using assms(1) by (simp add: commit_input_def)
  from ascii_zero_unique [OF this assms(2,3)] have "l = l'" and r: "ascii a @ 0 # b = ascii a' @ 0 # b'" by auto
  then show ?thesis using ascii_zero_unique [OF r assms(4,5)] by auto
qed

text \<open>A commitment of one of the three kinds: what is hashed.\<close>

datatype commitment = OfInteraction string string | OfRequester string bytes | OfSettlement string string

fun commit :: "crypto \<Rightarrow> commitment \<Rightarrow> ev_err + bytes" where
  "commit C (OfInteraction ix nonce) = IXCommit C ix nonce"
| "commit C (OfRequester aid rsalt) = RequesterCommit C aid rsalt"
| "commit C (OfSettlement payer bind) = SettleGuard C payer bind"

fun hashed :: "commitment \<Rightarrow> bytes" where
  "hashed (OfInteraction ix nonce) = commit_input labelIXCommit ix (ascii nonce)"
| "hashed (OfRequester aid rsalt) = commit_input labelRequesterCommit aid rsalt"
| "hashed (OfSettlement payer bind) = commit_input labelSettleGuard payer (ascii bind)"

fun nul_free :: "commitment \<Rightarrow> bool" where
  "nul_free (OfInteraction ix nonce) \<longleftrightarrow> \<not> has_nul ix"
| "nul_free (OfRequester aid rsalt) \<longleftrightarrow> \<not> has_nul aid"
| "nul_free (OfSettlement payer bind) \<longleftrightarrow> \<not> has_nul payer"

lemma commit_hashes: "commit C x = Inr h \<Longrightarrow> h = sha256 C (hashed x) \<and> nul_free x"
  by (cases x) (auto simp: IXCommit_def RequesterCommit_def SettleGuard_def ebind_Inr_iff commitText_ok split: if_splits)

lemma hashed_inj: "hashed x = hashed y \<Longrightarrow> nul_free x \<Longrightarrow> nul_free y \<Longrightarrow> x = y"
  by (cases x; cases y) (use commit_input_inj in fastforce)+

text \<open>C27: an interaction commitment, a requester commitment and a settlement guard are three separate families, and
  within each the commitment fixes both fields: absent a SHA-256 collision between the two inputs hashed, equal
  commitments commit to the same thing. No choice of the fields can move the boundary between them.\<close>

theorem commitments_bind:
  assumes "commit C x = Inr h" and "commit C y = Inr h" and "inj_on (sha256 C) {hashed x, hashed y}"
  shows "x = y"
  using commit_hashes [OF assms(1)] commit_hashes [OF assms(2)] assms(3) hashed_inj by (metis inj_onD insertI1 insertI2)

theorem commitments_bind_witness:
  "\<exists>h. commit demo_crypto (OfInteraction ''ix'' ''n'') = Inr h \<and> commit demo_crypto (OfSettlement ''ix'' ''n'') \<noteq> Inr h"
proof -
  let ?h = "commit_input labelIXCommit ''ix'' (ascii ''n'')"
  have a: "commit demo_crypto (OfInteraction ''ix'' ''n'') = Inr ?h"
    by (simp add: IXCommit_def commitText_def has_nul_def)
  have "inj_on (sha256 demo_crypto) S" for S by (simp add: inj_on_def)
  then have "commit demo_crypto (OfSettlement ''ix'' ''n'') \<noteq> Inr ?h"
    using commitments_bind [OF a, of "OfSettlement ''ix'' ''n''"] by blast
  then show ?thesis using a by blast
qed

end
