(* ===== verification/Strict_Object.thy ===== *)
theory Strict_Object
  imports Signed_Object
begin

text \<open>
  Objects with one byte form: a structure behind a strict CoreDet codec (the record \<open>coder\<close>), read only when the
  bytes decode, re-encode to themselves and pass the object's check. The locale \<open>strict_object\<close> is what the packages
  with such objects promise of their \<open>Marshal\<close> and \<open>Unmarshal\<close>; in a \<open>checked_object\<close>, \<open>Marshal\<close> runs the check too.
\<close>

record 'v coder =
  enc :: "'v \<Rightarrow> bytes option"
  dec :: "bytes \<Rightarrow> 'v option"

text \<open>What the code relies on of CoreDet: an item has at least one byte, and the strict decoder reads it back.\<close>

definition strict_coder :: "'v coder \<Rightarrow> bool" where
  "strict_coder K \<longleftrightarrow> coder_ok (enc K) (dec K) \<and> (\<forall>v. enc K v \<noteq> Some [])"

locale strict_object =
  fixes K :: "'v coder" and check :: "'v \<Rightarrow> bool" and fill :: "'v \<Rightarrow> 'v"
    and marshal :: "'v \<Rightarrow> 'e + bytes" and unmarshal :: "bytes \<Rightarrow> 'f + 'v"
  assumes marshal_enc: "marshal v = Inr raw \<Longrightarrow> enc K (fill v) = Some raw"
    and marshal_ok: "check v \<Longrightarrow> enc K v = Some raw \<Longrightarrow> marshal v = Inr raw"
    and unmarshal_read: "unmarshal raw = Inr v \<Longrightarrow> dec K raw = Some v \<and> enc K v = Some raw \<and> check v"
    and unmarshal_ok: "raw \<noteq> [] \<Longrightarrow> dec K raw = Some v \<Longrightarrow> enc K v = Some raw \<Longrightarrow> check v \<Longrightarrow> unmarshal raw = Inr v"
begin

lemma written_is_read:
  assumes "strict_coder K" and "marshal v = Inr raw" and "check (fill v)"
  shows "unmarshal raw = Inr (fill v)"
proof -
  have e: "enc K (fill v) = Some raw" using marshal_enc [OF assms(2)] .
  then have "dec K raw = Some (fill v)" "raw \<noteq> []" using assms(1) by (auto simp: strict_coder_def coder_ok_def)
  then show ?thesis using unmarshal_ok e assms(3) by blast
qed

lemma read_is_written: "unmarshal raw = Inr v \<Longrightarrow> marshal v = Inr raw"
  using unmarshal_read marshal_ok by blast

lemma one_form: "unmarshal raw = Inr v \<Longrightarrow> unmarshal raw' = Inr v \<Longrightarrow> raw = raw'"
  using unmarshal_read by (metis option.inject)

end

locale checked_object = strict_object +
  assumes marshal_checked: "marshal v = Inr raw \<Longrightarrow> check (fill v)"
begin

lemma sent_is_read: "strict_coder K \<Longrightarrow> marshal v = Inr raw \<Longrightarrow> unmarshal raw = Inr (fill v)"
  using written_is_read marshal_checked by blast

lemma written_once: "strict_coder K \<Longrightarrow> marshal v = Inr raw \<Longrightarrow> marshal w = Inr raw \<Longrightarrow> fill v = fill w"
  using sent_is_read by (metis sum.inject(2))

end

text \<open>A coder with one value, for the examples.\<close>

definition one_coder :: "'v \<Rightarrow> bytes \<Rightarrow> 'v coder" where
  "one_coder v b = \<lparr>enc = (\<lambda>w. if w = v then Some b else None), dec = (\<lambda>_. Some v)\<rparr>"

lemma one_coder_ok: "b \<noteq> [] \<Longrightarrow> strict_coder (one_coder v b)"
  by (simp add: one_coder_def strict_coder_def coder_ok_one)

lemma one_coder_simps [simp]: "enc (one_coder v b) v = Some b" "dec (one_coder v b) b' = Some v"
  by (simp_all add: one_coder_def)

end
