(* ===== verification/Evidence.thy ===== *)
theory Evidence
  imports Evidence_Commit Strict_Object
begin

text \<open>
  The evidence objects (\<open>evidence/evidence.go\<close>, \<open>evidence/interlock.go\<close>): receipts, reviews and review
  attestations, their bodies and wire forms, and the interlock of a receipt with its review. The CoreDet codec of
  each structure is a field of \<open>evidence_codec\<close>.
\<close>

section \<open>Checks the objects share\<close>

definition decodeExact :: "'v coder \<Rightarrow> bytes \<Rightarrow> ev_err + 'v" where
  "decodeExact K raw =
     (if length raw = 0 then Inl EvMalformed
      else case dec K raw of
        None \<Rightarrow> Inl EvMalformed
      | Some v \<Rightarrow> if enc K v \<noteq> Some raw then Inl EvMalformed else Inr v)"

definition encode :: "'v coder \<Rightarrow> 'v \<Rightarrow> ev_err + bytes" where
  "encode K v = (case enc K v of None \<Rightarrow> Inl EvEncode | Some raw \<Rightarrow> Inr raw)"

definition textField :: "string \<Rightarrow> ev_err + unit" where
  "textField v = (if v = [] then Inl EvMalformed else if has_nul v then Inl EvMalformed else Inr ())"

definition sizedField :: "bytes \<Rightarrow> nat \<Rightarrow> ev_err + unit" where
  "sizedField b n = (if length b \<noteq> n then Inl EvMalformed else Inr ())"

definition envelopeOf :: "envelope option \<Rightarrow> ev_err + unit" where
  "envelopeOf env =
     (case env of
        None \<Rightarrow> Inl EvMalformed
      | Some e \<Rightarrow>
          if \<not> envelope_Validate e then Inl EvMalformed
          else ebind (textField (en_signer_aid e)) (\<lambda>_.
            if en_preimage_ref e \<noteq> [] then Inl EvMalformed else Inr ()))"

definition sum_cid :: "crypto \<Rightarrow> bytes \<Rightarrow> ev_err + string" where
  "sum_cid C raw = (case cid_sum C raw of None \<Rightarrow> Inl EvCid | Some c \<Rightarrow> Inr c)"

text \<open>\<open>aobj.Verify\<close>\<close>

definition aobj_Verify :: "crypto \<Rightarrow> bytes \<Rightarrow> bytes \<Rightarrow> bytes \<Rightarrow> bool" where
  "aobj_Verify C pub preimage sig =
     (if length pub \<noteq> 32 then False else if length sig \<noteq> 64 then False else ed_verify C pub preimage sig)"

definition DayStart :: "u64 \<Rightarrow> u64 option" where
  "DayStart day = (if day > (-1) div DayMS then None else Some (day * DayMS))"

section \<open>Receipts\<close>

definition ReceiptType :: string where "ReceiptType = ''anet.receipt/2''"
definition ReviewType :: string where "ReviewType = ''anet.review/2''"
definition ReviewAttType :: string where "ReviewAttType = ''anet.review-att/1''"

record receipt_body =
  rb_type :: string
  rb_ix_commit :: bytes
  rb_requester_commit :: bytes
  rb_review_key :: bytes
  rb_provider :: string
  rb_request_cid :: string
  rb_result_cid :: string
  rb_completed_day :: u64

text \<open>A receipt and an attestation travel in the same shape: the body and an envelope.\<close>

record enveloped =
  ew_body :: bytes
  ew_env :: "envelope option"

record review_body =
  vb_type :: string
  vb_receipt_cid :: string
  vb_subject :: string
  vb_rating :: u64
  vb_comment :: string
  vb_created_day :: u64

record review_wire =
  vw_body :: bytes
  vw_pub :: bytes
  vw_sig :: bytes

record att_body =
  ab_type :: string
  ab_review_cid :: string
  ab_receipt_cid :: string
  ab_subject :: string
  ab_tag :: bytes
  ab_tag_key_id :: u64
  ab_day :: u64
  ab_hub :: string

record evidence_codec =
  ek_receipt :: "receipt_body coder"
  ek_receipt_wire :: "enveloped coder"
  ek_review :: "review_body coder"
  ek_review_wire :: "review_wire coder"
  ek_att :: "att_body coder"
  ek_att_wire :: "enveloped coder"

definition rb_check :: "receipt_body \<Rightarrow> ev_err + unit" where
  "rb_check b =
     (if rb_type b \<noteq> ReceiptType then Inl EvMalformed
      else ebind (sizedField (rb_ix_commit b) CommitSize) (\<lambda>_.
        ebind (sizedField (rb_requester_commit b) CommitSize) (\<lambda>_.
        ebind (sizedField (rb_review_key b) ReviewKeySize) (\<lambda>_.
        ebind (textField (rb_provider b)) (\<lambda>_.
        ebind (textField (rb_request_cid b)) (\<lambda>_.
          textField (rb_result_cid b)))))))"

definition rb_withType :: "receipt_body \<Rightarrow> receipt_body" where
  "rb_withType b = (if rb_type b = [] then b \<lparr>rb_type := ReceiptType\<rparr> else b)"

definition rb_Marshal :: "evidence_codec \<Rightarrow> receipt_body \<Rightarrow> ev_err + bytes" where
  "rb_Marshal K b = (let out = rb_withType b in ebind (rb_check out) (\<lambda>_. encode (ek_receipt K) out))"

definition UnmarshalReceiptBody :: "evidence_codec \<Rightarrow> bytes \<Rightarrow> ev_err + receipt_body" where
  "UnmarshalReceiptBody K raw =
     ebind (decodeExact (ek_receipt K) raw) (\<lambda>b. ebind (rb_check b) (\<lambda>_. Inr b))"

definition rb_CID :: "crypto \<Rightarrow> evidence_codec \<Rightarrow> receipt_body \<Rightarrow> ev_err + string" where
  "rb_CID C K b = ebind (rb_Marshal K b) (sum_cid C)"

definition rb_Sign :: "evidence_codec \<Rightarrow> signer \<Rightarrow> receipt_body \<Rightarrow> ev_err + enveloped" where
  "rb_Sign K s b =
     (let body = rb_withType b in
      if rb_provider body \<noteq> [] \<and> rb_provider body \<noteq> sg_aid s then Inl EvSigner
      else ebind (rb_Marshal K (if rb_provider body = [] then body \<lparr>rb_provider := sg_aid s\<rparr> else body)) (\<lambda>raw.
        Inr \<lparr>ew_body = raw, ew_env = Some (attach s raw)\<rparr>))"

definition rw_check :: "evidence_codec \<Rightarrow> enveloped \<Rightarrow> ev_err + unit" where
  "rw_check K w = ebind (UnmarshalReceiptBody K (ew_body w)) (\<lambda>_. envelopeOf (ew_env w))"

definition rw_Marshal :: "evidence_codec \<Rightarrow> enveloped \<Rightarrow> ev_err + bytes" where
  "rw_Marshal K w = ebind (rw_check K w) (\<lambda>_. encode (ek_receipt_wire K) w)"

definition UnmarshalReceiptWire :: "evidence_codec \<Rightarrow> bytes \<Rightarrow> ev_err + enveloped" where
  "UnmarshalReceiptWire K raw =
     ebind (decodeExact (ek_receipt_wire K) raw) (\<lambda>w. ebind (rw_check K w) (\<lambda>_. Inr w))"

definition rw_Open :: "evidence_codec \<Rightarrow> enveloped \<Rightarrow> ev_err + receipt_body" where
  "rw_Open K w = UnmarshalReceiptBody K (ew_body w)"

definition rw_CID :: "crypto \<Rightarrow> enveloped \<Rightarrow> ev_err + string" where
  "rw_CID C w = (if length (ew_body w) = 0 then Inl EvMalformed else sum_cid C (ew_body w))"

definition rw_Verify ::
  "crypto \<Rightarrow> evidence_codec \<Rightarrow> enveloped option \<Rightarrow> signed_event list \<Rightarrow> u64 \<Rightarrow> ev_err + receipt_body" where
  "rw_Verify C K w0 providerKEL msgTime =
     (case w0 of
        None \<Rightarrow> Inl EvMalformed
      | Some w \<Rightarrow>
          ebind (rw_Open K w) (\<lambda>body.
          ebind (envelopeOf (ew_env w)) (\<lambda>_.
            let e = the (ew_env w) in
            if en_signer_aid e \<noteq> rb_provider body then Inl EvSigner
            else case VerifyObject C providerKEL (en_signer_aid e) (en_key_state_seq e) msgTime (ew_body w) (en_sig e) of
              Inl err \<Rightarrow> Inl (EvSignature (Some err))
            | Inr _ \<Rightarrow> Inr body)))"

section \<open>Reviews\<close>

definition vb_check :: "review_body \<Rightarrow> ev_err + unit" where
  "vb_check b =
     (if vb_type b \<noteq> ReviewType then Inl EvMalformed
      else ebind (textField (vb_receipt_cid b)) (\<lambda>_.
        if has_nul (vb_subject b) then Inl EvNUL
        else ebind (textField (vb_subject b)) (\<lambda>_.
          if vb_rating b < RatingMin \<or> vb_rating b > RatingMax then Inl EvRating
          else if RuneCount (vb_comment b) > MaxCommentChars then Inl EvComment
          else Inr ())))"

definition vb_withType :: "review_body \<Rightarrow> review_body" where
  "vb_withType b = (if vb_type b = [] then b \<lparr>vb_type := ReviewType\<rparr> else b)"

definition vb_Marshal :: "evidence_codec \<Rightarrow> review_body \<Rightarrow> ev_err + bytes" where
  "vb_Marshal K b = (let out = vb_withType b in ebind (vb_check out) (\<lambda>_. encode (ek_review K) out))"

definition UnmarshalReviewBody :: "evidence_codec \<Rightarrow> bytes \<Rightarrow> ev_err + review_body" where
  "UnmarshalReviewBody K raw =
     ebind (decodeExact (ek_review K) raw) (\<lambda>b. ebind (vb_check b) (\<lambda>_. Inr b))"

definition vb_CID :: "crypto \<Rightarrow> evidence_codec \<Rightarrow> review_body \<Rightarrow> ev_err + string" where
  "vb_CID C K b = ebind (vb_Marshal K b) (sum_cid C)"

definition vb_Sign :: "sign_env \<Rightarrow> evidence_codec \<Rightarrow> bytes \<Rightarrow> review_body \<Rightarrow> ev_err + review_wire" where
  "vb_Sign E K reviewKey b =
     (if length reviewKey \<noteq> 64 then Inl EvMalformed
      else ebind (vb_Marshal K b) (\<lambda>raw.
        Inr \<lparr>vw_body = raw, vw_pub = publicOf reviewKey, vw_sig = ed_sign E reviewKey raw\<rparr>))"

definition vw_check :: "evidence_codec \<Rightarrow> review_wire \<Rightarrow> ev_err + unit" where
  "vw_check K w =
     ebind (UnmarshalReviewBody K (vw_body w)) (\<lambda>_.
     ebind (sizedField (vw_pub w) ReviewKeySize) (\<lambda>_.
       sizedField (vw_sig w) 64))"

definition vw_Marshal :: "evidence_codec \<Rightarrow> review_wire \<Rightarrow> ev_err + bytes" where
  "vw_Marshal K w = ebind (vw_check K w) (\<lambda>_. encode (ek_review_wire K) w)"

definition UnmarshalReviewWire :: "evidence_codec \<Rightarrow> bytes \<Rightarrow> ev_err + review_wire" where
  "UnmarshalReviewWire K raw =
     ebind (decodeExact (ek_review_wire K) raw) (\<lambda>w. ebind (vw_check K w) (\<lambda>_. Inr w))"

definition vw_Open :: "evidence_codec \<Rightarrow> review_wire \<Rightarrow> ev_err + review_body" where
  "vw_Open K w = UnmarshalReviewBody K (vw_body w)"

definition vw_CID :: "crypto \<Rightarrow> review_wire \<Rightarrow> ev_err + string" where
  "vw_CID C w = (if length (vw_body w) = 0 then Inl EvMalformed else sum_cid C (vw_body w))"

definition vw_Verify :: "crypto \<Rightarrow> evidence_codec \<Rightarrow> review_wire option \<Rightarrow> bytes \<Rightarrow> ev_err + review_body" where
  "vw_Verify C K w0 reviewKey =
     (case w0 of
        None \<Rightarrow> Inl EvMalformed
      | Some w \<Rightarrow>
          if length reviewKey \<noteq> ReviewKeySize then Inl EvMalformed
          else ebind (vw_Open K w) (\<lambda>body.
            if vw_pub w \<noteq> reviewKey then Inl EvSigner
            else if \<not> aobj_Verify C (vw_pub w) (vw_body w) (vw_sig w) then Inl (EvSignature None)
            else Inr body))"

section \<open>Review attestations\<close>

definition ab_check :: "att_body \<Rightarrow> ev_err + unit" where
  "ab_check b =
     (if ab_type b \<noteq> ReviewAttType then Inl EvMalformed
      else ebind (textField (ab_review_cid b)) (\<lambda>_.
        ebind (textField (ab_receipt_cid b)) (\<lambda>_.
        ebind (textField (ab_subject b)) (\<lambda>_.
        ebind (sizedField (ab_tag b) TagSize) (\<lambda>_.
          textField (ab_hub b))))))"

definition ab_withType :: "att_body \<Rightarrow> att_body" where
  "ab_withType b = (if ab_type b = [] then b \<lparr>ab_type := ReviewAttType\<rparr> else b)"

definition ab_Marshal :: "evidence_codec \<Rightarrow> att_body \<Rightarrow> ev_err + bytes" where
  "ab_Marshal K b = (let out = ab_withType b in ebind (ab_check out) (\<lambda>_. encode (ek_att K) out))"

definition UnmarshalReviewAttBody :: "evidence_codec \<Rightarrow> bytes \<Rightarrow> ev_err + att_body" where
  "UnmarshalReviewAttBody K raw =
     ebind (decodeExact (ek_att K) raw) (\<lambda>b. ebind (ab_check b) (\<lambda>_. Inr b))"

definition ab_CID :: "crypto \<Rightarrow> evidence_codec \<Rightarrow> att_body \<Rightarrow> ev_err + string" where
  "ab_CID C K b = ebind (ab_Marshal K b) (sum_cid C)"

definition ab_Sign :: "evidence_codec \<Rightarrow> signer \<Rightarrow> att_body \<Rightarrow> ev_err + enveloped" where
  "ab_Sign K s b =
     (let body = ab_withType b in
      if ab_hub body \<noteq> [] \<and> ab_hub body \<noteq> sg_aid s then Inl EvSigner
      else ebind (ab_Marshal K (if ab_hub body = [] then body \<lparr>ab_hub := sg_aid s\<rparr> else body)) (\<lambda>raw.
        Inr \<lparr>ew_body = raw, ew_env = Some (attach s raw)\<rparr>))"

definition aw_check :: "evidence_codec \<Rightarrow> enveloped \<Rightarrow> ev_err + unit" where
  "aw_check K w = ebind (UnmarshalReviewAttBody K (ew_body w)) (\<lambda>_. envelopeOf (ew_env w))"

definition aw_Marshal :: "evidence_codec \<Rightarrow> enveloped \<Rightarrow> ev_err + bytes" where
  "aw_Marshal K w = ebind (aw_check K w) (\<lambda>_. encode (ek_att_wire K) w)"

definition UnmarshalReviewAttWire :: "evidence_codec \<Rightarrow> bytes \<Rightarrow> ev_err + enveloped" where
  "UnmarshalReviewAttWire K raw =
     ebind (decodeExact (ek_att_wire K) raw) (\<lambda>w. ebind (aw_check K w) (\<lambda>_. Inr w))"

definition aw_Open :: "evidence_codec \<Rightarrow> enveloped \<Rightarrow> ev_err + att_body" where
  "aw_Open K w = UnmarshalReviewAttBody K (ew_body w)"

definition aw_Verify ::
  "crypto \<Rightarrow> evidence_codec \<Rightarrow> enveloped option \<Rightarrow> signed_event list \<Rightarrow> u64 \<Rightarrow> ev_err + att_body" where
  "aw_Verify C K w0 hubKEL msgTime =
     (case w0 of
        None \<Rightarrow> Inl EvMalformed
      | Some w \<Rightarrow>
          ebind (aw_Open K w) (\<lambda>body.
          ebind (envelopeOf (ew_env w)) (\<lambda>_.
            let e = the (ew_env w) in
            if en_signer_aid e \<noteq> ab_hub body then Inl EvSigner
            else case VerifyObject C hubKEL (en_signer_aid e) (en_key_state_seq e) msgTime (ew_body w) (en_sig e) of
              Inl err \<Rightarrow> Inl (EvSignature (Some err))
            | Inr _ \<Rightarrow> Inr body)))"

section \<open>The interlock\<close>

definition CheckV2 ::
  "crypto \<Rightarrow> evidence_codec \<Rightarrow> enveloped option \<Rightarrow> review_wire option \<Rightarrow> signed_event list
     \<Rightarrow> ev_err + (receipt_body \<times> review_body)" where
  "CheckV2 C K receipt0 review0 providerKEL =
     (case (receipt0, review0) of
        (Some receipt, Some review) \<Rightarrow>
          ebind (rw_Open K receipt) (\<lambda>rc.
            case DayStart (rb_completed_day rc) of
              None \<Rightarrow> Inl EvMalformed
            | Some at \<Rightarrow>
                ebind (rw_Verify C K (Some receipt) providerKEL at) (\<lambda>_.
                ebind (vw_Verify C K (Some review) (rb_review_key rc)) (\<lambda>rv.
                ebind (rw_CID C receipt) (\<lambda>receiptCID.
                  if vb_receipt_cid rv \<noteq> receiptCID then Inl NotThisReceipt
                  else if vb_subject rv \<noteq> rb_provider rc then Inl NotThisReceipt
                  else Inr (rc, rv)))))
      | _ \<Rightarrow> Inl EvMalformed)"

end
