(* ===== verification/Evidence_Props.thy ===== *)
theory Evidence_Props
  imports Evidence
begin

text \<open>
  What the evidence objects promise. Each of the six structures is a \<open>checked_object\<close>, receipts and attestations are
  \<open>signed_object\<close>s; the interlock accepts exactly the pairs that name each other under the right keys.
\<close>

section \<open>Strict objects\<close>

lemma decodeExact_ok: "decodeExact K raw = Inr v \<longleftrightarrow> raw \<noteq> [] \<and> dec K raw = Some v \<and> enc K v = Some raw"
  by (auto simp: decodeExact_def split: option.splits if_splits)

lemma encode_ok: "encode K v = Inr raw \<longleftrightarrow> enc K v = Some raw"
  by (simp add: encode_def split: option.splits)

lemma withType_checked:
  "rb_check b = Inr () \<Longrightarrow> rb_withType b = b" "vb_check v = Inr () \<Longrightarrow> vb_withType v = v"
  "ab_check a = Inr () \<Longrightarrow> ab_withType a = a"
  by (auto simp: rb_check_def rb_withType_def ReceiptType_def vb_check_def vb_withType_def ReviewType_def
      ab_check_def ab_withType_def ReviewAttType_def split: if_splits)

interpretation receipt_body: checked_object "ek_receipt K" "\<lambda>b. rb_check b = Inr ()" rb_withType "rb_Marshal K"
  "UnmarshalReceiptBody K" for K
  by unfold_locales
    (auto simp: rb_Marshal_def UnmarshalReceiptBody_def Let_def ebind_Inr_iff decodeExact_ok encode_ok withType_checked)

interpretation review_body: checked_object "ek_review K" "\<lambda>b. vb_check b = Inr ()" vb_withType "vb_Marshal K"
  "UnmarshalReviewBody K" for K
  by unfold_locales
    (auto simp: vb_Marshal_def UnmarshalReviewBody_def Let_def ebind_Inr_iff decodeExact_ok encode_ok withType_checked)

interpretation att_body: checked_object "ek_att K" "\<lambda>b. ab_check b = Inr ()" ab_withType "ab_Marshal K"
  "UnmarshalReviewAttBody K" for K
  by unfold_locales
    (auto simp: ab_Marshal_def UnmarshalReviewAttBody_def Let_def ebind_Inr_iff decodeExact_ok encode_ok withType_checked)

interpretation receipt_wire: checked_object "ek_receipt_wire K" "\<lambda>w. rw_check K w = Inr ()" "\<lambda>w. w" "rw_Marshal K"
  "UnmarshalReceiptWire K" for K
  by unfold_locales (auto simp: rw_Marshal_def UnmarshalReceiptWire_def ebind_Inr_iff decodeExact_ok encode_ok)

interpretation review_wire: checked_object "ek_review_wire K" "\<lambda>w. vw_check K w = Inr ()" "\<lambda>w. w" "vw_Marshal K"
  "UnmarshalReviewWire K" for K
  by unfold_locales (auto simp: vw_Marshal_def UnmarshalReviewWire_def ebind_Inr_iff decodeExact_ok encode_ok)

interpretation att_wire: checked_object "ek_att_wire K" "\<lambda>w. aw_check K w = Inr ()" "\<lambda>w. w" "aw_Marshal K"
  "UnmarshalReviewAttWire K" for K
  by unfold_locales (auto simp: aw_Marshal_def UnmarshalReviewAttWire_def ebind_Inr_iff decodeExact_ok encode_ok)

section \<open>Signed objects\<close>

lemma textField_ok: "textField v = Inr u \<longleftrightarrow> v \<noteq> [] \<and> \<not> has_nul v"
  by (simp add: textField_def)

lemma sizedField_ok: "sizedField b n = Inr u \<longleftrightarrow> length b = n"
  by (simp add: sizedField_def)

lemma envelopeOf_ok:
  "envelopeOf env = Inr u \<longleftrightarrow> (\<exists>e. env = Some e \<and> envelope_Validate e \<and> en_signer_aid e \<noteq> [] \<and> \<not> has_nul (en_signer_aid e)
     \<and> en_preimage_ref e = [])"
  by (auto simp: envelopeOf_def ebind_Inr_iff textField_ok split: option.splits if_splits)

definition signed_by :: "string \<Rightarrow> enveloped \<Rightarrow> bool" where
  "signed_by who w \<longleftrightarrow> (\<exists>e. ew_env w = Some e \<and> en_signer_aid e = who \<and> en_preimage_ref e = [])"

definition env_holds :: "crypto \<Rightarrow> signed_event list \<Rightarrow> u64 \<Rightarrow> enveloped \<Rightarrow> bool" where
  "env_holds C kel t w \<longleftrightarrow> (\<exists>e. ew_env w = Some e \<and> envelope_holds C kel t (ew_body w) e)"

lemma receipt_read: "UnmarshalReceiptBody K raw = Inr b \<Longrightarrow> raw \<noteq> [] \<and> rb_check b = Inr ()"
  by (auto simp: UnmarshalReceiptBody_def ebind_Inr_iff decodeExact_ok)

lemma provider_text: "rb_check b = Inr () \<Longrightarrow> rb_provider b \<noteq> [] \<and> \<not> has_nul (rb_provider b) \<and> length (rb_review_key b) = 32"
  by (auto simp: rb_check_def ebind_Inr_iff textField_ok sizedField_ok ReviewKeySize_def split: if_splits)

lemma hub_text: "ab_check b = Inr () \<Longrightarrow> ab_hub b \<noteq> [] \<and> \<not> has_nul (ab_hub b)"
  by (auto simp: ab_check_def ebind_Inr_iff textField_ok split: if_splits)

lemma verified_Inr: "(case r of Inl e \<Rightarrow> Inl (f e) | Inr _ \<Rightarrow> Inr y) = Inr z \<longleftrightarrow> r = Inr () \<and> y = z"
  by (cases r) auto

lemma rw_Verify_ok:
  "rw_Verify C K (Some w) kel t = Inr body \<longleftrightarrow>
     UnmarshalReceiptBody K (ew_body w) = Inr body \<and> signed_by (rb_provider body) w \<and> env_holds C kel t w"
proof -
  have "rb_provider body \<noteq> [] \<and> \<not> has_nul (rb_provider body)" if "UnmarshalReceiptBody K (ew_body w) = Inr body"
    using provider_text receipt_read [OF that] by blast
  then show ?thesis
    unfolding rw_Verify_def rw_Open_def option.case ebind_Inr_iff envelopeOf_ok signed_by_def env_holds_def
      envelope_holds_def Let_def if_Inl_iff verified_Inr not_not
    by fastforce
qed

lemma aw_Verify_ok:
  "aw_Verify C K (Some w) kel t = Inr body \<longleftrightarrow>
     UnmarshalReviewAttBody K (ew_body w) = Inr body \<and> signed_by (ab_hub body) w \<and> env_holds C kel t w"
proof -
  have "ab_hub body \<noteq> [] \<and> \<not> has_nul (ab_hub body)" if "UnmarshalReviewAttBody K (ew_body w) = Inr body"
    using hub_text att_body.unmarshal_read [OF that] by blast
  then show ?thesis
    unfolding aw_Verify_def aw_Open_def option.case ebind_Inr_iff envelopeOf_ok signed_by_def env_holds_def
      envelope_holds_def Let_def if_Inl_iff verified_Inr not_not
    by fastforce
qed

definition forget :: "'e + 'r \<Rightarrow> 'e + unit" where
  "forget r = map_sum id (\<lambda>_. ()) r"

lemma forget_ok: "forget r = Inr u \<longleftrightarrow> (\<exists>v. r = Inr v)"
  by (cases r) (simp_all add: forget_def)

interpretation receipt_sig: signed_object "rb_Sign K" "\<lambda>C kel t w. forget (rw_Verify C K (Some w) kel t)"
  "\<lambda>w. Some (ew_body w)" ew_env
  "\<lambda>_ w. \<exists>body. UnmarshalReceiptBody K (ew_body w) = Inr body \<and> signed_by (rb_provider body) w" "\<lambda>t _. t" for K
proof unfold_locales
  fix s v w assume "rb_Sign K s v = Inr w"
  then show "\<exists>b. Some (ew_body w) = Some b \<and> ew_env w = Some (attach s b)"
    by (auto simp: rb_Sign_def Let_def ebind_Inr_iff split: if_splits)
qed (auto simp: forget_ok rw_Verify_ok env_holds_def)

interpretation att_sig: signed_object "ab_Sign K" "\<lambda>C kel t w. forget (aw_Verify C K (Some w) kel t)"
  "\<lambda>w. Some (ew_body w)" ew_env
  "\<lambda>_ w. \<exists>body. UnmarshalReviewAttBody K (ew_body w) = Inr body \<and> signed_by (ab_hub body) w" "\<lambda>t _. t" for K
proof unfold_locales
  fix s v w assume "ab_Sign K s v = Inr w"
  then show "\<exists>b. Some (ew_body w) = Some b \<and> ew_env w = Some (attach s b)"
    by (auto simp: ab_Sign_def Let_def ebind_Inr_iff split: if_splits)
qed (auto simp: forget_ok aw_Verify_ok env_holds_def)

section \<open>Identifiers are text\<close>

lemma bits_nat_less: "bits_nat bs < 2 ^ length bs"
proof (induction bs rule: rev_induct)
  case (snoc b bs)
  have "of_bool b \<le> (1 :: nat)" by simp
  with snoc show ?case by (simp add: bits_nat_def)
qed (simp add: bits_nat_def)

lemma enc_bits_chars: "set (enc_bits bs) \<subseteq> set b32_alphabet"
proof (induction bs rule: enc_bits.induct)
  case (1 bs)
  show ?case
  proof (cases "bs = []")
    case False
    have l: "length (take 5 (bs @ replicate 4 False)) = 5" using False by (cases bs) auto
    have "length b32_alphabet = 2 ^ 5" by (simp add: b32_alphabet_def)
    then have "bits_nat (take 5 (bs @ replicate 4 False)) < length b32_alphabet"
      using bits_nat_less [of "take 5 (bs @ replicate 4 False)"] l by argo
    then show ?thesis using 1 [OF False] False by (simp add: enc_bits.simps [of bs])
  qed (simp add: enc_bits.simps)
qed

lemma ValidAID_text: "ValidAID s \<Longrightarrow> s \<noteq> [] \<and> \<not> has_nul s"
proof -
  assume "ValidAID s"
  then obtain d where s: "s = CHR ''b'' # b32_encode (aidPrefix @ d)" unfolding ValidAID_accepts by blast
  moreover have "CHR 0x00 \<notin> set b32_alphabet" by (simp add: b32_alphabet_def)
  ultimately show ?thesis using enc_bits_chars by (auto simp: has_nul_def b32_encode_def)
qed

section \<open>The interlock\<close>

lemma vw_Verify_ok:
  "vw_Verify C K (Some w) key = Inr body \<longleftrightarrow>
     length key = 32 \<and> UnmarshalReviewBody K (vw_body w) = Inr body \<and> vw_pub w = key \<and> length (vw_sig w) = 64
     \<and> ed_verify C key (vw_body w) (vw_sig w)"
  unfolding vw_Verify_def vw_Open_def option.case ebind_Inr_iff if_Inl_iff aobj_Verify_def ReviewKeySize_def by auto

text \<open>\<open>interlocked\<close> is what the accepted pair proves: the provider's signature at the start of the completed day, the
  review key's signature, and that the review names this receipt and its provider.\<close>

definition interlocked ::
  "crypto \<Rightarrow> evidence_codec \<Rightarrow> signed_event list \<Rightarrow> enveloped \<Rightarrow> review_wire \<Rightarrow> receipt_body \<Rightarrow> review_body \<Rightarrow> bool" where
  "interlocked C K kel r v rc rv \<longleftrightarrow>
     UnmarshalReceiptBody K (ew_body r) = Inr rc \<and> UnmarshalReviewBody K (vw_body v) = Inr rv
     \<and> signed_by (rb_provider rc) r \<and> (\<exists>t. DayStart (rb_completed_day rc) = Some t \<and> env_holds C kel t r)
     \<and> vw_pub v = rb_review_key rc \<and> length (vw_sig v) = 64 \<and> ed_verify C (rb_review_key rc) (vw_body v) (vw_sig v)
     \<and> cid_sum C (ew_body r) = Some (vb_receipt_cid rv) \<and> vb_subject rv = rb_provider rc"

lemma rw_CID_ok: "rw_CID C w = Inr c \<longleftrightarrow> ew_body w \<noteq> [] \<and> cid_sum C (ew_body w) = Some c"
  by (auto simp: rw_CID_def sum_cid_def split: option.splits)

lemma CheckV2_ok: "CheckV2 C K (Some r) (Some v) kel = Inr (rc, rv) \<longleftrightarrow> interlocked C K kel r v rc rv"
proof (cases "UnmarshalReceiptBody K (ew_body r)")
  case (Inl e)
  then show ?thesis by (simp add: CheckV2_def rw_Open_def interlocked_def)
next
  case (Inr b)
  have b: "ew_body r \<noteq> []" "length (rb_review_key b) = 32" using receipt_read [OF Inr] provider_text by blast+
  have "CheckV2 C K (Some r) (Some v) kel = Inr (rc, rv) \<longleftrightarrow> b = rc \<and>
      (\<exists>t. DayStart (rb_completed_day b) = Some t \<and> signed_by (rb_provider b) r \<and> env_holds C kel t r
        \<and> UnmarshalReviewBody K (vw_body v) = Inr rv \<and> vw_pub v = rb_review_key b \<and> length (vw_sig v) = 64
        \<and> ed_verify C (rb_review_key b) (vw_body v) (vw_sig v)
        \<and> cid_sum C (ew_body r) = Some (vb_receipt_cid rv) \<and> vb_subject rv = rb_provider b)"
    unfolding CheckV2_def prod.case option.case rw_Open_def Inr ebind_simps option_Inl_iff ebind_Inr_iff rw_Verify_ok
      vw_Verify_ok rw_CID_ok if_Inl_iff
    using b by fastforce
  then show ?thesis using Inr by (auto simp: interlocked_def)
qed

lemma receipt_signed:
  assumes h: "honest_signer C s" and r: "rb_Sign K s b = Inr r" and k: "strict_coder (ek_receipt K)"
  obtains rc where "UnmarshalReceiptBody K (ew_body r) = Inr rc" "signed_by (sg_aid s) r" "env_holds C (sg_kel s) t r"
    "rc = b \<lparr>rb_type := ReceiptType, rb_provider := sg_aid s\<rparr>"
proof -
  define body where "body = (let b = rb_withType b in if rb_provider b = [] then b \<lparr>rb_provider := sg_aid s\<rparr> else b)"
  have m: "rb_Marshal K body = Inr (ew_body r)" and e: "ew_env r = Some (attach s (ew_body r))" and p: "rb_provider body = sg_aid s"
    using r by (auto simp: rb_Sign_def body_def Let_def ebind_Inr_iff split: if_splits)
  have u: "UnmarshalReceiptBody K (ew_body r) = Inr (rb_withType body)" using receipt_body.sent_is_read [OF k m] .
  have "rb_type (rb_withType body) = ReceiptType"
    using receipt_read [OF u] by (auto simp: rb_check_def split: if_splits)
  then have "rb_withType body = body \<lparr>rb_type := ReceiptType\<rparr>" by (cases body) (simp add: rb_withType_def split: if_splits)
  also have "\<dots> = b \<lparr>rb_type := ReceiptType, rb_provider := sg_aid s\<rparr>"
    using p by (cases b) (simp add: body_def rb_withType_def Let_def split: if_splits)
  finally have f: "rb_withType body = b \<lparr>rb_type := ReceiptType, rb_provider := sg_aid s\<rparr>" .
  have "env_holds C (sg_kel s) t r" "signed_by (sg_aid s) r"
    using e attach_honest [OF h] by (auto simp: env_holds_def envelope_holds_def signed_by_def)
  then show ?thesis using that u f by blast
qed

lemma review_signed:
  assumes w: "vb_Sign E K k v = Inr w" and kp: "key_pair E k" "\<And>m. length (ed_sign E k m) = 64" and c: "strict_coder (ek_review K)"
  shows "UnmarshalReviewBody K (vw_body w) = Inr (vb_withType v) \<and> vw_pub w = publicOf k \<and> length (vw_sig w) = 64
    \<and> ed_verify (cr E) (publicOf k) (vw_body w) (vw_sig w)"
proof -
  have m: "vb_Marshal K v = Inr (vw_body w)" and "vw_pub w = publicOf k" "vw_sig w = ed_sign E k (vw_body w)"
    using w by (auto simp: vb_Sign_def ebind_Inr_iff split: if_splits)
  then show ?thesis using review_body.sent_is_read [OF c m] kp by (simp add: key_pair_def)
qed

definition evidence_coders :: "evidence_codec \<Rightarrow> bool" where
  "evidence_coders K \<longleftrightarrow> strict_coder (ek_receipt K) \<and> strict_coder (ek_receipt_wire K)
     \<and> strict_coder (ek_review K) \<and> strict_coder (ek_review_wire K)"

text \<open>C25: every honestly made pair is accepted by everyone. A provider signs a receipt that carries the requester's
  review key; the requester signs a review of that receipt's CID and provider with the key; both travel in their wire
  forms; then whoever reads them, holding the provider's log, finds the interlock in order and sees the provider and
  the rating as they were written.\<close>

theorem interlock_accepts:
  assumes "inceptWith E k0 k1 ts toad = Inr c0" and "run (ctl_step E) c0 ops = Inr c" and "live E c"
    and key: "key_pair E k" "\<And>m. length (ed_sign E k m) = 64"
    and codec: "evidence_coders K"
    and r: "rb_Sign K (controller_signer E c) b = Inr r" "rb_review_key b = publicOf k" "DayStart (rb_completed_day b) = Some t"
    and w: "vb_Sign E K k v = Inr w" "rw_CID (cr E) r = Inr (vb_receipt_cid v)" "vb_subject v = c_aid c"
    and wire: "rw_Marshal K r = Inr wr" "vw_Marshal K w = Inr ww"
  shows "\<exists>r' w' rc rv. UnmarshalReceiptWire K wr = Inr r' \<and> UnmarshalReviewWire K ww = Inr w'
    \<and> CheckV2 (cr E) K (Some r') (Some w') (kelLocked c) = Inr (rc, rv) \<and> rb_provider rc = c_aid c
    \<and> vb_rating rv = vb_rating v \<and> vb_comment rv = vb_comment v"
proof -
  note k = codec [unfolded evidence_coders_def]
  have h: "honest_signer (cr E) (controller_signer E c)"
    using controller_honest(1) [OF ctl.run_inv [OF incept_inv [OF assms(1)] assms(2)] assms(3)] .
  have kr: "strict_coder (ek_receipt K)" using k by blast
  obtain rc where u: "UnmarshalReceiptBody K (ew_body r) = Inr rc" "signed_by (sg_aid (controller_signer E c)) r"
    "env_holds (cr E) (sg_kel (controller_signer E c)) t r"
    "rc = b \<lparr>rb_type := ReceiptType, rb_provider := sg_aid (controller_signer E c)\<rparr>"
    by (rule receipt_signed [OF h r(1) kr, of t])
  have sg: "sg_aid (controller_signer E c) = c_aid c" "sg_kel (controller_signer E c) = kelLocked c"
    by (simp_all add: controller_signer_def)
  have rc: "UnmarshalReceiptBody K (ew_body r) = Inr rc" "signed_by (c_aid c) r" "rb_provider rc = c_aid c"
    "env_holds (cr E) (kelLocked c) t r" "rb_review_key rc = publicOf k" "rb_completed_day rc = rb_completed_day b"
    using u(1-3) r(2) unfolding sg by (simp_all add: u(4) sg)
  have rv: "UnmarshalReviewBody K (vw_body w) = Inr (vb_withType v) \<and> vw_pub w = publicOf k \<and> length (vw_sig w) = 64
    \<and> ed_verify (cr E) (publicOf k) (vw_body w) (vw_sig w)"
    using review_signed [OF w(1) key] k by blast
  have f: "vb_receipt_cid (vb_withType v) = vb_receipt_cid v" "vb_subject (vb_withType v) = vb_subject v"
    "vb_rating (vb_withType v) = vb_rating v" "vb_comment (vb_withType v) = vb_comment v"
    by (simp_all add: vb_withType_def)
  have "interlocked (cr E) K (kelLocked c) r w rc (vb_withType v)"
    using rc rv w(2,3) r(3) f by (simp add: interlocked_def rw_CID_ok)
  then have "CheckV2 (cr E) K (Some r) (Some w) (kelLocked c) = Inr (rc, vb_withType v)" by (simp only: CheckV2_ok)
  moreover have "UnmarshalReceiptWire K wr = Inr r" using receipt_wire.sent_is_read [OF _ wire(1)] k by blast
  moreover have "UnmarshalReviewWire K ww = Inr w" using review_wire.sent_is_read [OF _ wire(2)] k by blast
  ultimately show ?thesis using rc(3) f by blast
qed

text \<open>C26: a review counts for one receipt. When the same review interlocks with two receipts, under whatever logs, the
  two are one receipt, completed by the provider the review rates, and carry the key that signed the review,
  provided the two bodies do not collide in their content identifier.\<close>

theorem review_rates_one_receipt:
  assumes "CheckV2 C K (Some r) (Some v) kel = Inr (rc, rv)" and "CheckV2 C K (Some r') (Some v) kel' = Inr (rc', rv')"
    and "inj_on (cid_sum C) {ew_body r, ew_body r'}"
  shows "ew_body r = ew_body r' \<and> rc = rc' \<and> rv = rv' \<and> vb_subject rv = rb_provider rc
    \<and> ed_verify C (rb_review_key rc) (vw_body v) (vw_sig v)"
proof -
  have i: "interlocked C K kel r v rc rv" "interlocked C K kel' r' v rc' rv'" using assms(1,2) by (simp_all only: CheckV2_ok)
  have v: "UnmarshalReviewBody K (vw_body v) = Inr rv" "UnmarshalReviewBody K (vw_body v) = Inr rv'"
    and c: "cid_sum C (ew_body r) = Some (vb_receipt_cid rv)" "cid_sum C (ew_body r') = Some (vb_receipt_cid rv')"
    and u: "UnmarshalReceiptBody K (ew_body r) = Inr rc" "UnmarshalReceiptBody K (ew_body r') = Inr rc'"
    and s: "vb_subject rv = rb_provider rc" "ed_verify C (rb_review_key rc) (vw_body v) (vw_sig v)"
    using i unfolding interlocked_def by blast+
  have rv: "rv = rv'" using v by simp
  then have b: "ew_body r = ew_body r'" using c assms(3) by (auto dest: inj_onD)
  then have "rc = rc'" using u by simp
  then show ?thesis using rv b s by blast
qed

section \<open>An example\<close>

definition demo_receipt :: receipt_body where
  "demo_receipt = \<lparr>rb_type = ReceiptType, rb_ix_commit = commit_input labelIXCommit ''ix-000'' (ascii ''n-0000''), rb_requester_commit = replicate 32 2,
     rb_review_key = demo_key 7, rb_provider = se_id demo_icp, rb_request_cid = demo_cid [5], rb_result_cid = demo_cid [6],
     rb_completed_day = 19000\<rparr>"

definition demo_review :: review_body where
  "demo_review = \<lparr>vb_type = ReviewType, vb_receipt_cid = demo_cid [1], vb_subject = se_id demo_icp, vb_rating = 5,
     vb_comment = [], vb_created_day = 19001\<rparr>"

definition demo_receipt_wire :: enveloped where
  "demo_receipt_wire = \<lparr>ew_body = [1], ew_env = Some (attach demo_signer [1])\<rparr>"

definition demo_review_wire :: review_wire where
  "demo_review_wire = \<lparr>vw_body = [3], vw_pub = demo_key 7, vw_sig = demo_key 7 @ demo_key 7\<rparr>"

definition demo_codec :: evidence_codec where
  "demo_codec = \<lparr>ek_receipt = one_coder demo_receipt [1], ek_receipt_wire = one_coder demo_receipt_wire [2],
     ek_review = one_coder demo_review [3], ek_review_wire = one_coder demo_review_wire [4],
     ek_att = \<lparr>enc = (\<lambda>_. None), dec = (\<lambda>_. None)\<rparr>, ek_att_wire = \<lparr>enc = (\<lambda>_. None), dec = (\<lambda>_. None)\<rparr>\<rparr>"

lemma demo_coders: "evidence_coders demo_codec"
  by (simp add: evidence_coders_def demo_codec_def one_coder_ok)

lemma demo_aid_text [simp]: "se_id demo_icp \<noteq> []" "\<not> has_nul (se_id demo_icp)" "demo_cid b \<noteq> []" "\<not> has_nul (demo_cid b)"
proof -
  have "ValidAID (se_id demo_icp)" by (simp add: demo_icp_def demo_sign_def demo_cid_valid)
  then show "se_id demo_icp \<noteq> []" "\<not> has_nul (se_id demo_icp)" using ValidAID_text by blast+
  show "demo_cid b \<noteq> []" "\<not> has_nul (demo_cid b)" using ValidAID_text [OF demo_cid_valid] by blast+
qed

lemma demo_made:
  "rb_Marshal demo_codec demo_receipt = Inr [1]" "vb_Marshal demo_codec demo_review = Inr [3]"
  "rb_Sign demo_codec demo_signer demo_receipt = Inr demo_receipt_wire"
  "vb_Sign demo_env demo_codec (demo_priv 7) demo_review = Inr demo_review_wire"
proof -
  have t: "length (commit_input labelIXCommit ''ix-000'' (ascii ''n-0000'')) = 32"
    by (simp add: commit_input_def labelIXCommit_def)
  have c: "rb_check demo_receipt = Inr ()"
    using t by (simp add: rb_check_def demo_receipt_def textField_def sizedField_def CommitSize_def ReviewKeySize_def)
  have v: "vb_check demo_review = Inr ()"
    by (simp add: vb_check_def demo_review_def textField_def RatingMin_def RatingMax_def RuneCount.simps MaxCommentChars_def)
  show r: "rb_Marshal demo_codec demo_receipt = Inr [1]"
    using c by (simp add: rb_Marshal_def Let_def withType_checked encode_def demo_codec_def)
  show w: "vb_Marshal demo_codec demo_review = Inr [3]"
    using v by (simp add: vb_Marshal_def Let_def withType_checked encode_def demo_codec_def)
  have p: "rb_provider demo_receipt = se_id demo_icp" by (simp add: demo_receipt_def)
  show "rb_Sign demo_codec demo_signer demo_receipt = Inr demo_receipt_wire"
    using r p by (simp add: rb_Sign_def Let_def withType_checked(1) [OF c] demo_receipt_wire_def)
  have "length (demo_priv 7) = 64" by (simp add: demo_priv_def)
  then show "vb_Sign demo_env demo_codec (demo_priv 7) demo_review = Inr demo_review_wire"
    using w by (simp add: vb_Sign_def demo_review_wire_def)
qed

lemma demo_wires: "rw_Marshal demo_codec demo_receipt_wire = Inr [2]" "vw_Marshal demo_codec demo_review_wire = Inr [4]"
proof -
  have k: "strict_coder (ek_receipt demo_codec)" "strict_coder (ek_review demo_codec)"
    using demo_coders by (simp_all add: evidence_coders_def)
  have r: "UnmarshalReceiptBody demo_codec [1] = Inr (rb_withType demo_receipt)"
    using receipt_body.sent_is_read [OF k(1) demo_made(1)] .
  have v: "UnmarshalReviewBody demo_codec [3] = Inr (vb_withType demo_review)"
    using review_body.sent_is_read [OF k(2) demo_made(2)] .
  have "envelopeOf (Some (attach demo_signer [1])) = Inr ()"
    using attach_honest(1) [OF demo_honest] by (simp add: envelopeOf_ok)
  then have "rw_check demo_codec demo_receipt_wire = Inr ()" using r by (simp add: rw_check_def demo_receipt_wire_def)
  then show "rw_Marshal demo_codec demo_receipt_wire = Inr [2]"
    by (simp add: rw_Marshal_def encode_def demo_codec_def)
  have "vw_check demo_codec demo_review_wire = Inr ()"
    using v by (simp add: vw_check_def demo_review_wire_def sizedField_def ReviewKeySize_def)
  then show "vw_Marshal demo_codec demo_review_wire = Inr [4]"
    by (simp add: vw_Marshal_def encode_def demo_codec_def)
qed

lemma demo_day: "DayStart (rb_completed_day demo_receipt) = Some (19000 * DayMS)"
  by (simp add: DayStart_def demo_receipt_def DayMS_def)

lemma demo_interlocked:
  "CheckV2 demo_crypto demo_codec (Some demo_receipt_wire) (Some demo_review_wire) [demo_icp] = Inr (demo_receipt, demo_review)"
proof -
  have k: "strict_coder (ek_receipt demo_codec)" "strict_coder (ek_review demo_codec)"
    using demo_coders by (simp_all add: evidence_coders_def)
  have "rb_withType demo_receipt = demo_receipt" "vb_withType demo_review = demo_review"
    by (simp_all add: rb_withType_def vb_withType_def demo_receipt_def demo_review_def ReceiptType_def ReviewType_def)
  then have u: "UnmarshalReceiptBody demo_codec [1] = Inr demo_receipt" "UnmarshalReviewBody demo_codec [3] = Inr demo_review"
    using receipt_body.sent_is_read [OF k(1) demo_made(1)] review_body.sent_is_read [OF k(2) demo_made(2)] by simp_all
  have "env_holds demo_crypto [demo_icp] t demo_receipt_wire" "signed_by (se_id demo_icp) demo_receipt_wire" for t
    using attach_honest [OF demo_honest, of "[1]"]
    by (auto simp: env_holds_def envelope_holds_def signed_by_def demo_receipt_wire_def)
  then have "interlocked demo_crypto demo_codec [demo_icp] demo_receipt_wire demo_review_wire demo_receipt demo_review"
    using u demo_day
    by (simp add: interlocked_def demo_receipt_wire_def demo_review_wire_def) (simp add: demo_receipt_def demo_review_def)
  then show ?thesis by (simp only: CheckV2_ok)
qed

theorem interlock_accepts_witness:
  "\<exists>r' w' rc rv. UnmarshalReceiptWire demo_codec [2] = Inr r' \<and> UnmarshalReviewWire demo_codec [4] = Inr w'
    \<and> CheckV2 (cr demo_env) demo_codec (Some r') (Some w') (kelLocked demo_ctl) = Inr (rc, rv)"
proof -
  have s: "rb_Sign demo_codec (controller_signer demo_env demo_ctl) demo_receipt = Inr demo_receipt_wire"
    using demo_made(3) by (simp add: demo_signer_def)
  have c: "rw_CID (cr demo_env) demo_receipt_wire = Inr (vb_receipt_cid demo_review)"
    by (simp add: rw_CID_ok demo_receipt_wire_def demo_review_def)
  have f: "rb_review_key demo_receipt = publicOf (demo_priv 7)" "vb_subject demo_review = c_aid demo_ctl"
    by (simp_all add: demo_receipt_def demo_review_def) (simp add: demo_ctl_def)
  have r: "run (ctl_step demo_env) demo_ctl [] = Inr demo_ctl" by simp
  have l: "\<And>m. length (ed_sign demo_env (demo_priv 7) m) = 64" by simp
  show ?thesis
    using interlock_accepts [OF demo_incept r demo_live demo_key_pair l demo_coders s f(1) demo_day demo_made(4) c f(2) demo_wires]
    by blast
qed

theorem review_rates_one_receipt_witness:
  "CheckV2 demo_crypto demo_codec (Some demo_receipt_wire) (Some demo_review_wire) [demo_icp] = Inr (demo_receipt, demo_review)
   \<and> vb_subject demo_review = rb_provider demo_receipt"
  using review_rates_one_receipt [OF demo_interlocked demo_interlocked] demo_interlocked by simp

end
