(* ===== verification/Base64.thy ===== *)
theory Base64
  imports Aid
begin

text \<open>
  Go's unpadded base64 with a strict decoder (\<open>base64.RawURLEncoding.Strict()\<close>, used by \<open>delegation/binding.go\<close>,
  \<open>relayauth/relayauth.go\<close> and \<open>a2acard/jws.go\<close>): line ends are skipped, and the bits left over must be zero.
\<close>

definition b64_alphabet :: string where
  "b64_alphabet = ''ABCDEFGHIJKLMNOPQRSTUVWXYZabcdefghijklmnopqrstuvwxyz0123456789-_''"

function enc_sextets :: "bool list \<Rightarrow> string" where
  "enc_sextets bs =
     (if bs = [] then []
      else b64_alphabet ! bits_nat (take 6 (bs @ replicate 5 False)) # enc_sextets (drop 6 bs))"
  by pat_completeness auto
termination by (relation "measure length") auto

declare enc_sextets.simps [simp del]

definition b64_encode :: "bytes \<Rightarrow> string" where
  "b64_encode bs = enc_sextets (concat (map byte_bits bs))"

text \<open>The decoding table is the alphabet read backwards.\<close>

definition b64_value :: "char \<Rightarrow> nat option" where
  "b64_value c = map_of (zip b64_alphabet [0..<64]) c"

definition sextet :: "nat \<Rightarrow> bool list" where
  "sextet n = map (\<lambda>i. bit n (5 - i)) [0..<6]"

definition b64_decode :: "string \<Rightarrow> bytes option" where
  "b64_decode s =
     (let t = filter (\<lambda>c. \<not> newline c) s; vs = map b64_value t in
      if None \<in> set vs then None
      else if length t mod 4 = 1 then None
      else let bits = concat (map (\<lambda>v. sextet (the v)) vs); n = length bits div 8 in
        if True \<in> set (drop (8 * n) bits) then None else Some (dec_bytes n bits))"

section \<open>The decoder reads exactly the encodings\<close>

lemma length_sextet [simp]: "length (sextet n) = 6"
  by (simp add: sextet_def)

lemma alphabet: "length b64_alphabet = 64" "distinct b64_alphabet" "CHR 0x0A \<notin> set b64_alphabet" "CHR 0x0D \<notin> set b64_alphabet"
  by (simp_all add: b64_alphabet_def)

lemma alphabet_values: "n < 64 \<Longrightarrow> b64_value (b64_alphabet ! n) = Some n \<and> \<not> newline (b64_alphabet ! n)"
proof -
  assume n: "n < 64"
  have "map_of (zip b64_alphabet [0..<64]) (b64_alphabet ! n) = Some ([0..<64] ! n)"
    using alphabet n by (intro map_of_zip_nth) simp_all
  moreover have "b64_alphabet ! n \<in> set b64_alphabet" using n alphabet(1) by simp
  ultimately show "b64_value (b64_alphabet ! n) = Some n \<and> \<not> newline (b64_alphabet ! n)"
    using n alphabet(3,4) by (auto simp: b64_value_def newline_def)
qed

lemma value_alphabet:
  assumes "b64_value c = Some n"
  shows "n < 64 \<and> b64_alphabet ! n = c"
  using map_of_SomeD [OF assms [unfolded b64_value_def]] alphabet(1) by (auto simp: in_set_zip)

lemma bits_nat_sextet: "n < 64 \<Longrightarrow> bits_nat (sextet n) = n"
proof -
  assume "n < 64"
  have "bits_nat (sextet n) = take_bit 6 n" unfolding sextet_def using bits_nat_take_bit [of n 6] by simp
  also have "\<dots> = n" using \<open>n < 64\<close> by (simp add: take_bit_eq_mod)
  finally show ?thesis .
qed

lemma bits_nat_below: "bits_nat bs < 2 ^ length bs"
proof (induction bs rule: rev_induct)
  case (snoc b bs)
  have "of_bool b \<le> (1 :: nat)" by simp
  with snoc show ?case by (simp add: bits_nat_def)
qed (simp add: bits_nat_def)

lemma sextet_bits_nat: "length g = 6 \<Longrightarrow> sextet (bits_nat g) = g"
proof -
  have "\<forall>g \<in> set (List.n_lists 6 [False, True]). sextet (bits_nat g) = g" by code_simp
  moreover assume "length g = 6"
  then have "g \<in> set (List.n_lists 6 [False, True])" by (auto simp: set_n_lists)
  ultimately show ?thesis by blast
qed

text \<open>Sextets whose bits are \<open>bs\<close> and at most five zeros are what the encoder writes for \<open>bs\<close>.\<close>

lemma enc_sextets_of:
  assumes "concat (map sextet vs) = bs @ replicate k False" and "k \<le> 5" and "\<forall>v \<in> set vs. v < 64"
  shows "enc_sextets bs = map ((!) b64_alphabet) vs"
  using assms
proof (induction vs arbitrary: bs)
  case Nil
  then show ?case by (simp add: enc_sextets.simps)
next
  case (Cons v vs)
  have l: "6 + length (concat (map sextet vs)) = length bs + k"
    using arg_cong [OF Cons.prems(1), of length] by simp
  have ne: "bs \<noteq> []"
  proof
    assume "bs = []"
    then have "6 + length (concat (map sextet vs)) = k" using l by simp
    then show False using Cons.prems(2) by linarith
  qed
  have t: "take 6 (bs @ replicate 5 False) = sextet v"
  proof -
    have "sextet v = take 6 (bs @ replicate k False)" using arg_cong [OF Cons.prems(1), of "take 6"] by simp
    also have "\<dots> = take 6 (bs @ replicate 5 False)"
    proof (cases "length bs \<ge> 6")
      case False
      then have "6 - length bs \<le> k" using l by linarith
      then show ?thesis using Cons.prems(2) ne by (cases bs) (auto simp: min_def)
    qed simp
    finally show ?thesis by simp
  qed
  have "enc_sextets (drop 6 bs) = map ((!) b64_alphabet) vs"
  proof (cases "length bs \<ge> 6")
    case True
    have "concat (map sextet vs) = drop 6 bs @ replicate k False"
      using arg_cong [OF Cons.prems(1), of "drop 6"] True by simp
    then show ?thesis using Cons.IH Cons.prems(2,3) by simp
  next
    case False
    then have "length (concat (map sextet vs)) < 6" using l Cons.prems(2) by linarith
    then have "vs = []" by (cases vs) simp_all
    then show ?thesis using False by (simp add: enc_sextets.simps)
  qed
  then show ?case using ne t Cons.prems(3) by (simp add: enc_sextets.simps [of bs] bits_nat_sextet)
qed

lemma enc_sextets_exists: "\<exists>vs k. k \<le> 5 \<and> (\<forall>v \<in> set vs. v < 64) \<and> concat (map sextet vs) = bs @ replicate k False
    \<and> enc_sextets bs = map ((!) b64_alphabet) vs"
proof (induction bs rule: enc_sextets.induct)
  case (1 bs)
  show ?case
  proof (cases "bs = []")
    case True
    then show ?thesis by (intro exI [of _ "[]"] exI [of _ 0]) (simp add: enc_sextets.simps)
  next
    case False
    define g where "g = take 6 (bs @ replicate 5 False)"
    have g: "length g = 6" using False by (cases bs) (auto simp: g_def)
    have v: "sextet (bits_nat g) = g" "bits_nat g < 64" using sextet_bits_nat [OF g] bits_nat_below [of g] g by simp_all
    have e: "enc_sextets bs = b64_alphabet ! bits_nat g # enc_sextets (drop 6 bs)"
      using False by (simp add: enc_sextets.simps [of bs] g_def)
    show ?thesis
    proof (cases "length bs \<ge> 6")
      case True
      obtain vs k where vs: "k \<le> 5" "\<forall>v \<in> set vs. v < 64" "concat (map sextet vs) = drop 6 bs @ replicate k False"
        "enc_sextets (drop 6 bs) = map ((!) b64_alphabet) vs" using 1 [OF False] by blast
      have "g = take 6 bs" using True by (simp add: g_def)
      then show ?thesis using vs v e by (intro exI [of _ "bits_nat g # vs"] exI [of _ k]) simp
    next
      case no: False
      have d: "enc_sextets (drop 6 bs) = []" using no by (simp add: enc_sextets.simps)
      have "g = bs @ replicate (6 - length bs) False" using no False by (cases bs) (auto simp: g_def min_def)
      moreover have "6 - length bs \<le> 5" using False by (cases bs) auto
      ultimately show ?thesis using v e d
        by (intro exI [of _ "[bits_nat g]"] exI [of _ "6 - length bs"]) simp
    qed
  qed
qed

lemma bits_nat_snoc: "bits_nat (bs @ [x]) = 2 * bits_nat bs + of_bool x"
  by (simp add: bits_nat_def)

lemma bits_nat_inj: "length as = length bs \<Longrightarrow> bits_nat as = bits_nat bs \<Longrightarrow> as = bs"
proof (induction as arbitrary: bs rule: rev_induct)
  case (snoc a as)
  then obtain b cs where bs: "bs = cs @ [b]" by (cases bs rule: rev_cases) auto
  have eq: "2 * bits_nat as + of_bool a = 2 * bits_nat cs + of_bool b" using snoc.prems(2) bs by (simp add: bits_nat_snoc)
  have "(2 * x + of_bool a) mod 2 = (of_bool a :: nat)" "(2 * x + of_bool a) div 2 = x" for x a by (cases a; simp)+
  then have "(of_bool a :: nat) = of_bool b" "bits_nat as = bits_nat cs" using eq by metis+
  then show ?case using snoc.IH [of cs] snoc.prems(1) bs by (cases a; cases b) simp_all
qed simp

lemma byte_bits_nat: "length g = 8 \<Longrightarrow> byte_bits (of_nat (bits_nat g)) = g"
proof (rule bits_nat_inj)
  assume g: "length g = 8"
  show "length (byte_bits (of_nat (bits_nat g))) = length g" using g by simp
  have u: "unat (of_nat (bits_nat h) :: byte) = bits_nat h" if "length h = 8" for h
    using bits_nat_below [of h] that by (intro unat_of_nat_less) simp
  show "bits_nat (byte_bits (of_nat (bits_nat g))) = bits_nat g"
    using bits_byte [of "of_nat (bits_nat g)"] u [OF g] u [of "byte_bits (of_nat (bits_nat g))"] by simp
qed

lemma bits_dec_bytes: "8 * n \<le> length bs \<Longrightarrow> concat (map byte_bits (dec_bytes n bs)) = take (8 * n) bs"
proof (induction n arbitrary: bs)
  case (Suc n)
  have "length (take 8 bs) = 8" using Suc.prems by simp
  then have "byte_bits (of_nat (bits_nat (take 8 bs))) = take 8 bs" by (rule byte_bits_nat)
  moreover have "concat (map byte_bits (dec_bytes n (drop 8 bs))) = take (8 * n) (drop 8 bs)"
    using Suc by simp
  ultimately have "concat (map byte_bits (dec_bytes (Suc n) bs)) = take 8 bs @ take (8 * n) (drop 8 bs)" by simp
  also have "\<dots> = take (8 + 8 * n) bs" by (rule take_add [symmetric])
  finally show ?case by simp
qed simp

lemma length_sextets: "length (concat (map sextet vs)) = 6 * length vs"
  by (induction vs) simp_all

lemma sextet_rest:
  assumes "6 * l = 8 * m + k" and "k \<le> (5 :: nat)"
  shows "l mod 4 \<noteq> 1" "6 * l div 8 = m"
proof -
  show "6 * l div 8 = m" using assms by linarith
  show "l mod 4 \<noteq> 1"
  proof
    assume "l mod 4 = 1"
    then obtain q where "l = 4 * q + 1" by (metis mult_div_mod_eq)
    then have "24 * q + 6 = 8 * m + k" using assms(1) by simp
    then have "k mod 8 = 6 mod 8" by presburger
    then show False using assms(2) by simp
  qed
qed

lemma sextets_mod: "6 * l mod 8 = 6 * (l mod 4) mod (8 :: nat)"
proof -
  have "6 * l = 6 * (l mod 4) + 8 * (3 * (l div 4))" using mult_div_mod_eq [of 4 l] by linarith
  then show ?thesis by (simp only: mod_mult_self2)
qed

lemma decoded_bits:
  assumes "map b64_value t = map Some vs" and "\<forall>v \<in> set vs. v < 64" and "filter (\<lambda>c. \<not> newline c) s = t"
    and "concat (map sextet vs) = concat (map byte_bits b) @ replicate k False" and "k \<le> 5"
  shows "b64_decode s = Some b"
proof -
  have l: "length t = length vs" using arg_cong [OF assms(1), of length] by simp
  have n: "6 * length vs = 8 * length b + k"
    using arg_cong [OF assms(4), of length] by (simp add: length_sextets length_concat_bits)
  have c: "concat (map (\<lambda>v. sextet (the v)) (map Some vs)) = concat (map byte_bits b) @ replicate k False"
    using assms(4) by (simp add: comp_def)
  have "drop (8 * length b) (concat (map byte_bits b) @ replicate k False) = replicate k False"
    by (simp add: length_concat_bits)
  then show ?thesis
    unfolding b64_decode_def Let_def assms(3) assms(1) c
    using sextet_rest [OF n assms(5)] n l
    by (simp add: length_concat_bits dec_bytes_bits)
qed

lemma b64_decode_ok: "b64_decode s = Some b \<longleftrightarrow> filter (\<lambda>c. \<not> newline c) s = b64_encode b"
proof
  let ?t = "filter (\<lambda>c. \<not> newline c) s"
  assume e: "?t = b64_encode b"
  obtain vs k where vs: "k \<le> 5" "\<forall>v \<in> set vs. v < 64" "concat (map sextet vs) = concat (map byte_bits b) @ replicate k False"
    "?t = map ((!) b64_alphabet) vs"
    using enc_sextets_exists [of "concat (map byte_bits b)"] e unfolding b64_encode_def by auto
  have "map b64_value ?t = map Some vs" unfolding vs(4) using vs(2) alphabet_values by (simp add: comp_def)
  then show "b64_decode s = Some b" using decoded_bits vs by blast
next
  let ?t = "filter (\<lambda>c. \<not> newline c) s"
  assume d: "b64_decode s = Some b"
  then have some: "None \<notin> set (map b64_value ?t)" by (auto simp: b64_decode_def Let_def split: if_splits)
  define vs where "vs = map (\<lambda>c. the (b64_value c)) ?t"
  have v: "\<forall>c \<in> set ?t. b64_value c = Some (the (b64_value c))"
  proof
    fix c assume "c \<in> set ?t"
    then show "b64_value c = Some (the (b64_value c))" using some by (cases "b64_value c") (auto simp: image_iff)
  qed
  then have m: "map b64_value ?t = map Some vs" by (simp add: vs_def)
  have t: "?t = map ((!) b64_alphabet) vs" and r: "\<forall>v \<in> set vs. v < 64"
    using v value_alphabet unfolding vs_def by (auto simp: comp_def intro!: map_idI [symmetric])
  define bits where "bits = concat (map sextet vs)"
  define n where "n = length bits div 8"
  have bits: "concat (map (\<lambda>v. sextet (the v)) (map Some vs)) = bits" by (simp add: bits_def comp_def)
  have l: "length ?t = length vs" "length bits = 6 * length vs"
    using length_sextets [of vs] by (simp add: vs_def) (simp add: bits_def length_sextets)
  have q: "length vs mod 4 \<noteq> 1" "True \<notin> set (drop (8 * n) bits)" "b = dec_bytes n bits"
    using d unfolding b64_decode_def Let_def m bits l(1) n_def [symmetric] by (auto split: if_splits)
  define k where "k = length bits mod 8"
  have k: "k \<le> 5"
  proof -
    have "length vs mod 4 < 4" by simp
    then have "length vs mod 4 = 0 \<or> length vs mod 4 = 2 \<or> length vs mod 4 = 3" using q(1) by linarith
    moreover have "k = 6 * (length vs mod 4) mod 8" unfolding k_def l(2) by (rule sextets_mod)
    ultimately show ?thesis by auto
  qed
  have "drop (8 * n) bits = replicate k False"
  proof (rule replicate_eqI)
    show "length (drop (8 * n) bits) = k" unfolding n_def k_def by (simp add: minus_mult_div_eq_mod)
    show "x = False" if "x \<in> set (drop (8 * n) bits)" for x using that q(2) by (cases x) auto
  qed
  moreover have "take (8 * n) bits = concat (map byte_bits b)"
    using bits_dec_bytes [of n bits] q(3) by (simp add: n_def)
  ultimately have "concat (map sextet vs) = concat (map byte_bits b) @ replicate k False"
    using append_take_drop_id [of "8 * n" bits] by (simp add: bits_def)
  then show "?t = b64_encode b" unfolding b64_encode_def t using enc_sextets_of k r by metis
qed

lemma b64_newline_free: "filter (\<lambda>c. \<not> newline c) (b64_encode b) = b64_encode b"
proof -
  obtain vs where "b64_encode b = map ((!) b64_alphabet) vs" "\<forall>v \<in> set vs. v < 64"
    using enc_sextets_exists [of "concat (map byte_bits b)"] unfolding b64_encode_def by blast
  then show ?thesis using alphabet_values by auto
qed

lemma length_b64_encode: "length (b64_encode b) = (8 * length b + 5) div 6"
proof -
  obtain vs k where "k \<le> 5" "concat (map sextet vs) = concat (map byte_bits b) @ replicate k False"
    "b64_encode b = map ((!) b64_alphabet) vs"
    using enc_sextets_exists [of "concat (map byte_bits b)"] unfolding b64_encode_def by blast
  moreover from this have "6 * length vs = 8 * length b + k"
    using arg_cong [of "concat (map sextet vs)" _ length] by (metis length_append length_concat_bits length_replicate length_sextets)
  ultimately show ?thesis by simp
qed

lemma b64_decode_length: "b64_decode s = Some b \<Longrightarrow> length s = (8 * length b + 5) div 6 \<Longrightarrow> s = b64_encode b"
  unfolding b64_decode_ok by (metis length_b64_encode length_filter_less filter_True filter_id_conv nat_neq_iff)

end
