(* ===== verification/Delegation.thy ===== *)
theory Delegation
  imports Taskdoc Evidence_Props Base64
begin

text \<open>
  The bodies that travel between the parties of a task (\<open>delegation/\<close>): the request, the result, conversation
  messages with preview frames, status updates and the card exchange; the task binding; and the checks the provider
  and the requester run. The CoreDet codecs are the fields of \<open>deleg_codec\<close>; the envelope of a TaskDoc is not part of
  its encoding, so its coder is used on documents without one.
\<close>

datatype dl_err =
    ErrBody | ErrCard | ErrTaskBinding | DlEncode | MissingEnvelope | MissingInteraction | NoRequesterKEL
  | BadTaskDoc taskdoc_err | MissingReceipt | IncompleteCheck | ErrUnverifiable | UndecodableReceipt ev_err
  | BadReceipt ev_err | TaskDocDoesNotDecode | NoBindingToCheck | BadIX ev_err | DlCid | ErrReceiptMismatch
  | ErrRequestMismatch

definition StatusQueued :: string where "StatusQueued = ''queued''"
definition StatusDone :: string where "StatusDone = ''done''"
definition StatusFailed :: string where "StatusFailed = ''failed''"

definition ChatText :: string where "ChatText = ''text''"
definition ChatEndRequest :: string where "ChatEndRequest = ''end_request''"
definition KindCancel :: string where "KindCancel = ''cancel''"
definition ChatStreamPreview :: string where "ChatStreamPreview = ''stream_preview''"
definition MaxPreviewTail :: nat where "MaxPreviewTail = 8192"
definition MaxPreviewIDLen :: nat where "MaxPreviewIDLen = 256"

record attachment =
  am_name :: string
  am_mime :: string
  am_size :: "64 word"
  am_cid :: string
  am_data :: bytes

record delegate_req =
  dr_taskdoc :: bytes
  dr_envelope :: "envelope option"
  dr_ix :: string
  dr_attachments :: "attachment list"
  dr_context_id :: string
  dr_metadata :: bytes

record reply_msg =
  rp_kind :: string
  rp_body :: string
  rp_attachments :: "attachment list"
  rp_msg_id :: string

record result_resp =
  rr_status :: string
  rr_deliverable :: bytes
  rr_receipt :: bytes
  rr_metadata :: bytes
  rr_reply :: "reply_msg option"

record chat_msg =
  cm_kind :: string
  cm_body :: string
  cm_attachments :: "attachment list"
  cm_stream_seq :: u64
  cm_stream_at :: "64 word"
  cm_reasoning :: string
  cm_reasoning_at :: "64 word"
  cm_msg_id :: string
  cm_metadata :: bytes
  cm_omitted :: u64
  cm_reasoning_omitted :: u64
  cm_answers :: string

record status_msg =
  st_state :: string
  st_text :: string
  st_metadata :: bytes
  st_at :: u64

record card_resp =
  ca_card :: bytes
  ca_error :: string

record deleg_codec =
  dk_req :: "delegate_req coder"
  dk_taskdoc :: "taskdoc coder"
  dk_taskdoc_lax :: "bytes \<Rightarrow> taskdoc option"
  dk_preimage :: "taskdoc_preimage \<Rightarrow> bytes option"
  dk_result :: "result_resp coder"
  dk_chat :: "chat_msg coder"
  dk_status :: "status_msg coder"
  dk_card :: "card_resp coder"

section \<open>Bodies\<close>

definition decodeBody :: "'v coder \<Rightarrow> bytes \<Rightarrow> dl_err + 'v" where
  "decodeBody K b =
     (case dec K b of
        None \<Rightarrow> Inl ErrBody
      | Some v \<Rightarrow> if enc K v \<noteq> Some b then Inl ErrBody else Inr v)"

definition encodeBody :: "'v coder \<Rightarrow> 'v \<Rightarrow> dl_err + bytes" where
  "encodeBody K v = (case enc K v of None \<Rightarrow> Inl DlEncode | Some b \<Rightarrow> Inr b)"

definition req_Marshal :: "deleg_codec \<Rightarrow> delegate_req \<Rightarrow> dl_err + bytes" where
  "req_Marshal K r = encodeBody (dk_req K) r"

definition decodeTaskDoc :: "deleg_codec \<Rightarrow> bytes \<Rightarrow> dl_err + taskdoc" where
  "decodeTaskDoc K b =
     ebind (decodeBody (dk_taskdoc K) b) (\<lambda>doc.
       if length (td_tasks doc) = 0 then Inl ErrBody else Inr doc)"

definition req_check :: "deleg_codec \<Rightarrow> delegate_req \<Rightarrow> dl_err + unit" where
  "req_check K r =
     (if length (dr_taskdoc r) = 0 then Inl ErrBody
      else if dr_envelope r = None then Inl ErrBody
      else if dr_ix r = [] then Inl ErrBody
      else ebind (decodeTaskDoc K (dr_taskdoc r)) (\<lambda>_. Inr ()))"

definition UnmarshalDelegateReq :: "deleg_codec \<Rightarrow> bytes \<Rightarrow> dl_err + delegate_req" where
  "UnmarshalDelegateReq K b = ebind (decodeBody (dk_req K) b) (\<lambda>r. ebind (req_check K r) (\<lambda>_. Inr r))"

text \<open>The argument may be nil.\<close>

definition ValidateReply :: "reply_msg option \<Rightarrow> dl_err + unit" where
  "ValidateReply r0 =
     (case r0 of
        None \<Rightarrow> Inl ErrBody
      | Some r \<Rightarrow>
          if rp_kind r \<noteq> ChatText then Inl ErrBody
          else if rp_msg_id r = [] then Inl ErrBody
          else if \<not> ValidString (rp_body r) then Inl ErrBody
          else Inr ())"

definition result_Marshal :: "deleg_codec \<Rightarrow> result_resp \<Rightarrow> dl_err + bytes" where
  "result_Marshal K r = encodeBody (dk_result K) r"

definition result_check :: "result_resp \<Rightarrow> dl_err + unit" where
  "result_check r =
     (if rr_status r \<noteq> StatusDone \<and> rr_status r \<noteq> StatusFailed then Inl ErrBody
      else if rr_reply r \<noteq> None then
        (if rr_status r \<noteq> StatusDone then Inl ErrBody else ValidateReply (rr_reply r))
      else Inr ())"

definition UnmarshalResultResp :: "deleg_codec \<Rightarrow> bytes \<Rightarrow> dl_err + result_resp" where
  "UnmarshalResultResp K b = ebind (decodeBody (dk_result K) b) (\<lambda>r. ebind (result_check r) (\<lambda>_. Inr r))"

definition chat_Marshal :: "deleg_codec \<Rightarrow> chat_msg \<Rightarrow> dl_err + bytes" where
  "chat_Marshal K m = encodeBody (dk_chat K) m"

definition previewKey :: "chat_msg \<Rightarrow> nat" where
  "previewKey m =
     (if cm_stream_seq m \<noteq> 0 then 4
      else if cm_stream_at m \<noteq> 0 then 5
      else if cm_reasoning m \<noteq> [] then 6
      else if cm_reasoning_at m \<noteq> 0 then 7
      else if cm_omitted m \<noteq> 0 then 11
      else if cm_reasoning_omitted m \<noteq> 0 then 12
      else if cm_answers m \<noteq> [] then 13
      else 0)"

definition chat_check :: "chat_msg \<Rightarrow> dl_err + unit" where
  "chat_check m =
     (if cm_kind m \<noteq> ChatText \<and> cm_kind m \<noteq> ChatEndRequest \<and> cm_kind m \<noteq> KindCancel \<and> cm_kind m \<noteq> ChatStreamPreview
      then Inl ErrBody
      else if cm_kind m \<noteq> ChatStreamPreview \<and> previewKey m \<noteq> 0 then Inl ErrBody
      else Inr ())"

definition UnmarshalChatMsg :: "deleg_codec \<Rightarrow> bytes \<Rightarrow> dl_err + chat_msg" where
  "UnmarshalChatMsg K b = ebind (decodeBody (dk_chat K) b) (\<lambda>m. ebind (chat_check m) (\<lambda>_. Inr m))"

definition preview_text :: "string \<Rightarrow> dl_err + unit" where
  "preview_text t =
     (if length t > MaxPreviewTail then Inl ErrBody else if \<not> ValidString t then Inl ErrBody else Inr ())"

definition ValidatePreview :: "chat_msg option \<Rightarrow> dl_err + unit" where
  "ValidatePreview m0 =
     (case m0 of
        None \<Rightarrow> Inl ErrBody
      | Some m \<Rightarrow>
          if cm_kind m \<noteq> ChatStreamPreview then Inl ErrBody
          else if length (cm_attachments m) > 0 then Inl ErrBody
          else if length (cm_metadata m) > 0 then Inl ErrBody
          else ebind (preview_text (cm_body m)) (\<lambda>_.
            ebind (preview_text (cm_reasoning m)) (\<lambda>_.
              if cm_stream_seq m = 0 then Inl ErrBody
              else if cm_stream_at m = 0 then Inl ErrBody
              else if cm_msg_id m = [] then Inl ErrBody
              else if cm_answers m = [] then Inl ErrBody
              else if length (cm_msg_id m) > MaxPreviewIDLen then Inl ErrBody
              else if length (cm_answers m) > MaxPreviewIDLen then Inl ErrBody
              else Inr ())))"

section \<open>Status updates and cards\<close>

definition StateSubmitted :: string where "StateSubmitted = ''submitted''"
definition StateWorking :: string where "StateWorking = ''working''"
definition StateInputRequired :: string where "StateInputRequired = ''input-required''"
definition StateRejected :: string where "StateRejected = ''rejected''"
definition StateCanceled :: string where "StateCanceled = ''canceled''"
definition StateFailed :: string where "StateFailed = ''failed''"

definition ValidStatusState :: "string \<Rightarrow> bool" where
  "ValidStatusState s \<longleftrightarrow>
     s = StateSubmitted \<or> s = StateWorking \<or> s = StateInputRequired \<or> s = StateRejected \<or> s = StateCanceled \<or> s = StateFailed"

definition status_Marshal :: "deleg_codec \<Rightarrow> status_msg \<Rightarrow> dl_err + bytes" where
  "status_Marshal K m = encodeBody (dk_status K) m"

definition UnmarshalStatusMsg :: "deleg_codec \<Rightarrow> bytes \<Rightarrow> dl_err + status_msg" where
  "UnmarshalStatusMsg K b = decodeBody (dk_status K) b"

definition CardNotConfigured :: string where "CardNotConfigured = ''not_configured''"
definition CardBusy :: string where "CardBusy = ''busy''"
definition MaxCardBytes :: nat where "MaxCardBytes = 65536"
definition cardGetBytes :: bytes where "cardGetBytes = [0xA0]"

definition CardGet_Marshal :: bytes where "CardGet_Marshal = cardGetBytes"

definition UnmarshalCardGet :: "bytes \<Rightarrow> dl_err + unit" where
  "UnmarshalCardGet b = (if b \<noteq> cardGetBytes then Inl ErrCard else Inr ())"

definition card_check :: "card_resp \<Rightarrow> dl_err + unit" where
  "card_check r =
     (if length (ca_card r) > 0 \<and> ca_error r \<noteq> [] then Inl ErrCard
      else if length (ca_card r) > MaxCardBytes then Inl ErrCard
      else if length (ca_card r) > 0 then Inr ()
      else if ca_error r = CardNotConfigured \<or> ca_error r = CardBusy then Inr ()
      else Inl ErrCard)"

definition card_Marshal :: "deleg_codec \<Rightarrow> card_resp \<Rightarrow> dl_err + bytes" where
  "card_Marshal K r = ebind (card_check r) (\<lambda>_. encodeBody (dk_card K) r)"

definition UnmarshalCardResp :: "deleg_codec \<Rightarrow> bytes \<Rightarrow> dl_err + card_resp" where
  "UnmarshalCardResp K b =
     (case dec (dk_card K) b of
        None \<Rightarrow> Inl ErrCard
      | Some r \<Rightarrow> if enc (dk_card K) r \<noteq> Some b then Inl ErrCard else ebind (card_check r) (\<lambda>_. Inr r))"

section \<open>The task binding\<close>

definition ContextNonce :: string where "ContextNonce = ''anet.nonce''"
definition ContextRequesterCommit :: string where "ContextRequesterCommit = ''anet.requester_commit''"
definition ContextReviewKey :: string where "ContextReviewKey = ''anet.review_key''"
definition bindingVisibility :: string where "bindingVisibility = ''private''"
definition bindingFormat :: string where "bindingFormat = ''text''"

record task_binding =
  tb_nonce :: string
  tb_requester_commit :: bytes
  tb_review_key :: bytes

definition decode32 :: "string \<Rightarrow> dl_err + bytes" where
  "decode32 v =
     (if length v \<noteq> 43 then Inl ErrTaskBinding
      else case b64_decode v of
        None \<Rightarrow> Inl ErrTaskBinding
      | Some b \<Rightarrow> if length b \<noteq> 32 then Inl ErrTaskBinding else Inr b)"

text \<open>The loop over the contexts of the first task; the map is \<open>found\<close>.\<close>

definition binding_key :: "string \<Rightarrow> bool" where
  "binding_key k \<longleftrightarrow> k = ContextNonce \<or> k = ContextRequesterCommit \<or> k = ContextReviewKey"

fun read_contexts :: "(string \<rightharpoonup> string) \<Rightarrow> task_context list \<Rightarrow> dl_err + (string \<rightharpoonup> string)" where
  "read_contexts found [] = Inr found"
| "read_contexts found (c # cs) =
     (if \<not> binding_key (cx_key c) then read_contexts found cs
      else if found (cx_key c) \<noteq> None then Inl ErrTaskBinding
      else if cx_visibility c \<noteq> bindingVisibility then Inl ErrTaskBinding
      else if cx_format c \<noteq> [] \<and> cx_format c \<noteq> bindingFormat then Inl ErrTaskBinding
      else if cx_src c \<noteq> [] then Inl ErrTaskBinding
      else read_contexts (found(cx_key c \<mapsto> cx_value c)) cs)"

definition ReadTaskBinding :: "taskdoc option \<Rightarrow> dl_err + task_binding" where
  "ReadTaskBinding td0 =
     (case td0 of
        None \<Rightarrow> Inl ErrTaskBinding
      | Some td \<Rightarrow>
          if length (td_tasks td) = 0 then Inl ErrTaskBinding
          else ebind (read_contexts Map.empty (tk_contexts (td_tasks td ! 0))) (\<lambda>found.
            if found ContextNonce = None \<or> found ContextRequesterCommit = None \<or> found ContextReviewKey = None
            then Inl ErrTaskBinding
            else let nonce = the (found ContextNonce) in
              if nonce = [] \<or> has_nul nonce then Inl ErrTaskBinding
              else ebind (decode32 (the (found ContextRequesterCommit))) (\<lambda>rc.
                ebind (decode32 (the (found ContextReviewKey))) (\<lambda>rk.
                  Inr \<lparr>tb_nonce = nonce, tb_requester_commit = rc, tb_review_key = rk\<rparr>))))"

definition CheckTaskBinding :: "taskdoc option \<Rightarrow> dl_err + unit" where
  "CheckTaskBinding td = ebind (ReadTaskBinding td) (\<lambda>_. Inr ())"

definition binding_ctx :: "string \<Rightarrow> string \<Rightarrow> task_context" where
  "binding_ctx k v = \<lparr>cx_key = k, cx_value = v, cx_src = [], cx_format = bindingFormat, cx_visibility = bindingVisibility\<rparr>"

definition Contexts :: "task_binding \<Rightarrow> dl_err + task_context list" where
  "Contexts b =
     (if tb_nonce b = [] \<or> has_nul (tb_nonce b) then Inl ErrTaskBinding
      else if length (tb_requester_commit b) \<noteq> CommitSize \<or> length (tb_review_key b) \<noteq> ReviewKeySize then Inl ErrTaskBinding
      else Inr [binding_ctx ContextNonce (tb_nonce b),
                binding_ctx ContextRequesterCommit (b64_encode (tb_requester_commit b)),
                binding_ctx ContextReviewKey (b64_encode (tb_review_key b))])"

definition binding_IXCommit :: "crypto \<Rightarrow> task_binding \<Rightarrow> string \<Rightarrow> ev_err + bytes" where
  "binding_IXCommit C b ix = IXCommit C ix (tb_nonce b)"

definition equal32 :: "bytes \<Rightarrow> bytes \<Rightarrow> bool" where
  "equal32 a b \<longleftrightarrow> length a = 32 \<and> a = b"

section \<open>The two verifications\<close>

definition decodeDelegateReq :: "deleg_codec \<Rightarrow> delegate_req option \<Rightarrow> dl_err + taskdoc" where
  "decodeDelegateReq K r0 =
     (case r0 of
        None \<Rightarrow> Inl MissingEnvelope
      | Some r \<Rightarrow>
          if dr_envelope r = None then Inl MissingEnvelope
          else if dr_ix r = [] then Inl MissingInteraction
          else decodeTaskDoc K (dr_taskdoc r))"

definition VerifyDelegateReqWithKEL ::
  "crypto \<Rightarrow> deleg_codec \<Rightarrow> delegate_req option \<Rightarrow> signed_event list \<Rightarrow> u64 \<Rightarrow> dl_err + (string \<times> taskdoc \<times> bytes)" where
  "VerifyDelegateReqWithKEL C K r0 kel msgTime =
     ebind (decodeDelegateReq K r0) (\<lambda>doc0.
       if length kel = 0 then Inl NoRequesterKEL
       else let r = the r0; doc = doc0 \<lparr>td_envelope := dr_envelope r\<rparr> in
         case taskdoc_Verify (dk_preimage K) C kel msgTime doc of
           Inl e \<Rightarrow> Inl (BadTaskDoc e)
         | Inr _ \<Rightarrow> Inr (en_signer_aid (the (dr_envelope r)), doc, dr_taskdoc r))"

record result_check_args =
  wa_ix :: string
  wa_provider :: string
  wa_taskdoc :: bytes
  wa_delegated_day :: u64
  wa_today :: u64

definition check_commitments :: "receipt_body \<Rightarrow> bytes \<Rightarrow> task_binding \<Rightarrow> dl_err + unit" where
  "check_commitments rc ixc binding =
     (if \<not> equal32 (rb_ix_commit rc) ixc then Inl ErrReceiptMismatch
      else if \<not> equal32 (rb_requester_commit rc) (tb_requester_commit binding) then Inl ErrReceiptMismatch
      else if \<not> equal32 (rb_review_key rc) (tb_review_key binding) then Inl ErrReceiptMismatch
      else Inr ())"

definition dl_sum :: "crypto \<Rightarrow> bytes \<Rightarrow> dl_err + string" where
  "dl_sum C raw = (case cid_sum C raw of None \<Rightarrow> Inl DlCid | Some c \<Rightarrow> Inr c)"

definition VerifyResultForRequest ::
  "crypto \<Rightarrow> deleg_codec \<Rightarrow> evidence_codec \<Rightarrow> result_resp option \<Rightarrow> signed_event list \<Rightarrow> result_check_args \<Rightarrow> u64
     \<Rightarrow> dl_err + receipt_body" where
  "VerifyResultForRequest C K KE r0 kel want msgTime =
     (case r0 of
        None \<Rightarrow> Inl MissingReceipt
      | Some r \<Rightarrow>
          if length (rr_receipt r) = 0 then Inl MissingReceipt
          else if wa_ix want = [] \<or> wa_provider want = [] \<or> length (wa_taskdoc want) = 0 then Inl IncompleteCheck
          else if length kel = 0 then Inl ErrUnverifiable
          else case UnmarshalReceiptWire KE (rr_receipt r) of
            Inl e \<Rightarrow> Inl (UndecodableReceipt e)
          | Inr w \<Rightarrow>
              (case rw_Verify C KE (Some w) kel msgTime of
                 Inl e \<Rightarrow> Inl (BadReceipt e)
               | Inr rc \<Rightarrow>
                   if rb_provider rc \<noteq> wa_provider want then Inl ErrReceiptMismatch
                   else case dk_taskdoc_lax K (wa_taskdoc want) of
                     None \<Rightarrow> Inl TaskDocDoesNotDecode
                   | Some td \<Rightarrow>
                       (case ReadTaskBinding (Some td) of
                          Inl _ \<Rightarrow> Inl NoBindingToCheck
                        | Inr binding \<Rightarrow>
                            (case binding_IXCommit C binding (wa_ix want) of
                               Inl e \<Rightarrow> Inl (BadIX e)
                             | Inr ixc \<Rightarrow>
                                 ebind (check_commitments rc ixc binding) (\<lambda>_.
                                 ebind (dl_sum C (wa_taskdoc want)) (\<lambda>requestCID.
                                   if rb_request_cid rc \<noteq> requestCID then Inl ErrRequestMismatch
                                   else ebind (dl_sum C (rr_deliverable r)) (\<lambda>resultCID.
                                     if rb_result_cid rc \<noteq> resultCID then Inl ErrReceiptMismatch
                                     else if rb_completed_day rc + 1 < wa_delegated_day want
                                       \<or> rb_completed_day rc > wa_today want + 1 then Inl ErrReceiptMismatch
                                     else Inr rc)))))))"

end
