(* ===== verification/Delegation_Props.thy ===== *)
theory Delegation_Props
  imports Delegation "HOL-Library.Multiset"
begin

text \<open>
  What the delegation messages promise: bodies with one form, the task binding read back exactly as it is written,
  and the request and result checks accepting what an honest party sends and nothing else.
\<close>

section \<open>Bodies\<close>

lemma decodeBody_ok: "decodeBody K raw = Inr v \<longleftrightarrow> dec K raw = Some v \<and> enc K v = Some raw"
  by (auto simp: decodeBody_def split: option.splits if_splits)

lemma encodeBody_ok: "encodeBody K v = Inr raw \<longleftrightarrow> enc K v = Some raw"
  by (simp add: encodeBody_def split: option.splits)

interpretation request_body: strict_object "dk_req K" "\<lambda>r. req_check K r = Inr ()" "\<lambda>r. r" "req_Marshal K"
  "UnmarshalDelegateReq K" for K
  by unfold_locales (auto simp: req_Marshal_def UnmarshalDelegateReq_def ebind_Inr_iff decodeBody_ok encodeBody_ok)

interpretation result_body: strict_object "dk_result K" "\<lambda>r. result_check r = Inr ()" "\<lambda>r. r" "result_Marshal K"
  "UnmarshalResultResp K" for K
  by unfold_locales (auto simp: result_Marshal_def UnmarshalResultResp_def ebind_Inr_iff decodeBody_ok encodeBody_ok)

interpretation chat_body: strict_object "dk_chat K" "\<lambda>m. chat_check m = Inr ()" "\<lambda>m. m" "chat_Marshal K"
  "UnmarshalChatMsg K" for K
  by unfold_locales (auto simp: chat_Marshal_def UnmarshalChatMsg_def ebind_Inr_iff decodeBody_ok encodeBody_ok)

interpretation status_body: checked_object "dk_status K" "\<lambda>_. True" "\<lambda>m. m" "status_Marshal K" "UnmarshalStatusMsg K" for K
  by unfold_locales (auto simp: status_Marshal_def UnmarshalStatusMsg_def decodeBody_ok encodeBody_ok)

interpretation card_body: checked_object "dk_card K" "\<lambda>r. card_check r = Inr ()" "\<lambda>r. r" "card_Marshal K"
  "UnmarshalCardResp K" for K
  by unfold_locales
    (auto simp: card_Marshal_def UnmarshalCardResp_def ebind_Inr_iff encodeBody_ok split: option.splits if_splits)

section \<open>The task binding\<close>

lemma decode32_ok: "decode32 v = Inr b \<longleftrightarrow> length b = 32 \<and> v = b64_encode b"
proof
  assume "decode32 v = Inr b"
  then have d: "length v = 43" "b64_decode v = Some b" "length b = 32"
    by (auto simp: decode32_def split: if_splits option.splits)
  then show "length b = 32 \<and> v = b64_encode b" using b64_decode_length [OF d(2)] by simp
next
  assume "length b = 32 \<and> v = b64_encode b"
  then show "decode32 v = Inr b"
    using b64_newline_free [of b] length_b64_encode [of b] by (simp add: decode32_def b64_decode_ok [THEN iffD2])
qed

definition ctx_form :: "task_context \<Rightarrow> bool" where
  "ctx_form c \<longleftrightarrow> cx_visibility c = bindingVisibility \<and> (cx_format c = [] \<or> cx_format c = bindingFormat) \<and> cx_src c = []"

abbreviation binding_contexts :: "task_context list \<Rightarrow> task_context list" where
  "binding_contexts cs \<equiv> filter (\<lambda>c. binding_key (cx_key c)) cs"

definition ctx_pair :: "task_context \<Rightarrow> string \<times> string" where
  "ctx_pair c = (cx_key c, cx_value c)"

lemma read_contexts_ok:
  "read_contexts m cs = Inr m' \<longleftrightarrow>
     distinct (map cx_key (binding_contexts cs)) \<and> (\<forall>c \<in> set (binding_contexts cs). m (cx_key c) = None \<and> ctx_form c)
     \<and> m' = m ++ map_of (map ctx_pair (binding_contexts cs))"
proof (induction cs arbitrary: m)
  case (Cons c cs)
  show ?case
  proof (cases "binding_key (cx_key c) \<and> m (cx_key c) = None \<and> ctx_form c")
    case True
    define fs where "fs = binding_contexts cs"
    let ?k = "cx_key c" and ?M = "map_of (map ctx_pair fs)"
    have cons: "binding_contexts (c # cs) = c # fs" using True by (simp add: fs_def)
    have step: "read_contexts m (c # cs) = read_contexts (m(?k \<mapsto> cx_value c)) cs" using True by (auto simp: ctx_form_def)
    show ?thesis
    proof (cases "?k \<in> cx_key ` set fs")
      case dup: True
      then obtain c' where "c' \<in> set fs" "cx_key c' = ?k" by force
      then show ?thesis unfolding step Cons.IH fs_def [symmetric] cons using dup by auto
    next
      case False
      then have "?M ?k = None" by (auto simp: map_of_eq_None_iff ctx_pair_def image_comp comp_def)
      then have upd: "m(?k \<mapsto> cx_value c) ++ ?M = m ++ map_of (map ctx_pair (c # fs))"
        by (auto simp: ctx_pair_def map_add_def fun_eq_iff split: option.splits)
      have same: "(m(?k \<mapsto> cx_value c)) (cx_key c') = m (cx_key c')" if "c' \<in> set fs" for c'
      proof -
        have "cx_key c' \<noteq> ?k" using that False by (metis imageI)
        then show ?thesis by simp
      qed
      have d: "distinct (map cx_key (c # fs)) = distinct (map cx_key fs)" using False by simp
      have q: "(\<forall>c' \<in> set (c # fs). m (cx_key c') = None \<and> ctx_form c')
          = (\<forall>c' \<in> set fs. (m(?k \<mapsto> cx_value c)) (cx_key c') = None \<and> ctx_form c')"
        using same True by auto
      show ?thesis unfolding step Cons.IH fs_def [symmetric] cons d q upd by (rule refl)
    qed
  next
    case False
    then show ?thesis using Cons.IH by (auto simp: ctx_form_def)
  qed
qed auto

definition norm_ctx :: "task_context \<Rightarrow> task_context" where
  "norm_ctx c = c \<lparr>cx_format := (if cx_format c = [] then bindingFormat else cx_format c)\<rparr>"

lemma norm_ctx_binding: "ctx_form c \<longleftrightarrow> norm_ctx c = binding_ctx (cx_key c) (cx_value c)"
proof -
  have "bindingFormat \<noteq> []" by (simp add: bindingFormat_def)
  then show ?thesis by (cases c) (auto simp: ctx_form_def norm_ctx_def binding_ctx_def)
qed

lemma norm_ctx_key [simp]: "cx_key (norm_ctx c) = cx_key c" "cx_value (norm_ctx c) = cx_value c"
  by (simp_all add: norm_ctx_def)

abbreviation binding_keys :: "string list" where
  "binding_keys \<equiv> [ContextNonce, ContextRequesterCommit, ContextReviewKey]"

lemma binding_keys [simp]: "distinct binding_keys" "binding_key k \<longleftrightarrow> k \<in> set binding_keys"
  by (simp_all add: ContextNonce_def ContextRequesterCommit_def ContextReviewKey_def binding_key_def)

lemma binding_list:
  assumes "distinct (map cx_key fs)" and "cx_key ` set fs = set binding_keys" and "\<forall>c \<in> set fs. ctx_form c"
    and "f = map_of (map ctx_pair fs)"
  shows "mset (map norm_ctx fs) = mset (map (\<lambda>k. binding_ctx k (the (f k))) binding_keys)"
proof -
  have d: "distinct (map fst (map ctx_pair fs))" using assms(1) by (simp add: ctx_pair_def comp_def)
  have "norm_ctx c = binding_ctx (cx_key c) (the (f (cx_key c)))" if "c \<in> set fs" for c
  proof -
    have "(cx_key c, cx_value c) \<in> set (map ctx_pair fs)" using that by (auto simp: ctx_pair_def)
    then have "f (cx_key c) = Some (cx_value c)" unfolding assms(4) using d by (simp add: map_of_eq_Some_iff)
    then show ?thesis using that assms(3) by (simp add: norm_ctx_binding)
  qed
  then have "map norm_ctx fs = map (\<lambda>k. binding_ctx k (the (f k))) (map cx_key fs)" by simp
  then have "mset (map norm_ctx fs) = image_mset (\<lambda>k. binding_ctx k (the (f k))) (mset (map cx_key fs))" by (metis mset_map)
  moreover have "mset (map cx_key fs) = mset binding_keys"
    using assms(1,2) binding_keys(1) by (metis set_eq_iff_mset_eq_distinct set_map)
  ultimately show ?thesis by (metis mset_map)
qed

definition carries :: "task_binding \<Rightarrow> task_context list \<Rightarrow> bool" where
  "carries b cs \<longleftrightarrow> (\<exists>bs. Contexts b = Inr bs \<and> mset (map norm_ctx (binding_contexts cs)) = mset bs)"

lemma Contexts_ok:
  "Contexts b = Inr bs \<longleftrightarrow> tb_nonce b \<noteq> [] \<and> \<not> has_nul (tb_nonce b) \<and> length (tb_requester_commit b) = 32
     \<and> length (tb_review_key b) = 32
     \<and> bs = [binding_ctx ContextNonce (tb_nonce b), binding_ctx ContextRequesterCommit (b64_encode (tb_requester_commit b)),
             binding_ctx ContextReviewKey (b64_encode (tb_review_key b))]"
  by (auto simp: Contexts_def CommitSize_def ReviewKeySize_def split: if_splits)

lemma carries_reads:
  assumes "carries b cs"
  shows "\<exists>f. read_contexts Map.empty cs = Inr f \<and> f ContextNonce = Some (tb_nonce b)
     \<and> f ContextRequesterCommit = Some (b64_encode (tb_requester_commit b))
     \<and> f ContextReviewKey = Some (b64_encode (tb_review_key b))"
proof -
  define fs where "fs = binding_contexts cs"
  define f where "f = map_of (map ctx_pair fs)"
  obtain bs where bs: "Contexts b = Inr bs" and ms: "mset (map norm_ctx fs) = mset bs"
    using assms by (auto simp: carries_def fs_def)
  have bl: "bs = [binding_ctx ContextNonce (tb_nonce b), binding_ctx ContextRequesterCommit (b64_encode (tb_requester_commit b)),
             binding_ctx ContextReviewKey (b64_encode (tb_review_key b))]" using bs by (simp add: Contexts_ok)
  have "mset (map cx_key fs) = image_mset cx_key (mset (map norm_ctx fs))" by (simp add: image_mset.compositionality comp_def)
  also have "\<dots> = mset binding_keys" unfolding ms bl by (simp add: binding_ctx_def)
  finally have keys: "mset (map cx_key fs) = mset binding_keys" .
  then have dist: "distinct (map cx_key fs)" using binding_keys(1) by (metis mset_eq_imp_distinct_iff)
  have members: "norm_ctx ` set fs = set bs" using arg_cong [OF ms, of set_mset] by simp
  have form: "norm_ctx c = binding_ctx (cx_key c) (cx_value c)" if "c \<in> set fs" for c
  proof -
    have "norm_ctx c \<in> set bs" using that members by blast
    then obtain k v where "norm_ctx c = binding_ctx k v" unfolding bl by auto
    moreover from this have "cx_key c = k" "cx_value c = v" using norm_ctx_key [of c] by (simp_all add: binding_ctx_def)
    ultimately show ?thesis by simp
  qed
  have "read_contexts Map.empty cs = Inr f"
    unfolding read_contexts_ok using dist form by (auto simp: fs_def f_def norm_ctx_binding)
  moreover have "f k = Some v" if "binding_ctx k v \<in> set bs" for k v
  proof -
    have "\<exists>c \<in> set fs. norm_ctx c = binding_ctx k v" using that members by (metis imageE)
    then obtain c where c: "c \<in> set fs" "norm_ctx c = binding_ctx k v" by blast
    then have "cx_key c = k" "cx_value c = v" using norm_ctx_key [of c] by (simp_all add: binding_ctx_def)
    then have "(k, v) \<in> set (map ctx_pair fs)" using c(1) by (auto simp: ctx_pair_def)
    moreover have "distinct (map fst (map ctx_pair fs))" using dist by (simp add: ctx_pair_def comp_def)
    ultimately show ?thesis unfolding f_def by (simp add: map_of_eq_Some_iff)
  qed
  ultimately show ?thesis unfolding bl by auto
qed

lemma reads_carries:
  assumes r: "read_contexts Map.empty cs = Inr f" and f: "f ContextNonce = Some n" "f ContextRequesterCommit = Some (b64_encode rc)"
    "f ContextReviewKey = Some (b64_encode rk)"
    and ok: "n \<noteq> []" "\<not> has_nul n" "length rc = 32" "length rk = 32"
  shows "carries \<lparr>tb_nonce = n, tb_requester_commit = rc, tb_review_key = rk\<rparr> cs"
proof -
  define fs where "fs = binding_contexts cs"
  have r': "distinct (map cx_key fs)" "\<forall>c \<in> set fs. ctx_form c" "f = map_of (map ctx_pair fs)"
    using r by (auto simp: read_contexts_ok fs_def)
  have dom: "dom f = cx_key ` set fs" unfolding r'(3) by (auto simp: dom_map_of_conv_image_fst ctx_pair_def image_comp comp_def)
  have "cx_key ` set fs \<subseteq> set binding_keys" by (auto simp: fs_def)
  moreover have "set binding_keys \<subseteq> dom f" using f by auto
  ultimately have keys: "cx_key ` set fs = set binding_keys" using dom by blast
  have "mset (map norm_ctx fs) = mset (map (\<lambda>k. binding_ctx k (the (f k))) binding_keys)"
    using binding_list [OF r'(1) keys r'(2,3)] .
  then show ?thesis using f ok by (auto simp: carries_def Contexts_ok fs_def)
qed

lemma ReadTaskBinding_ok:
  "ReadTaskBinding (Some d) = Inr b \<longleftrightarrow> td_tasks d \<noteq> [] \<and> carries b (tk_contexts (td_tasks d ! 0))"
proof
  assume r: "ReadTaskBinding (Some d) = Inr b"
  then obtain f n rc rk where "td_tasks d \<noteq> []" "read_contexts Map.empty (tk_contexts (td_tasks d ! 0)) = Inr f"
    "f ContextNonce = Some n" "f ContextRequesterCommit = Some (b64_encode rc)" "f ContextReviewKey = Some (b64_encode rk)"
    "n \<noteq> []" "\<not> has_nul n" "length rc = 32" "length rk = 32" "b = \<lparr>tb_nonce = n, tb_requester_commit = rc, tb_review_key = rk\<rparr>"
    by (auto simp: ReadTaskBinding_def Let_def ebind_Inr_iff decode32_ok split: if_splits)
  then show "td_tasks d \<noteq> [] \<and> carries b (tk_contexts (td_tasks d ! 0))" using reads_carries by blast
next
  assume c: "td_tasks d \<noteq> [] \<and> carries b (tk_contexts (td_tasks d ! 0))"
  then obtain f where f: "read_contexts Map.empty (tk_contexts (td_tasks d ! 0)) = Inr f" "f ContextNonce = Some (tb_nonce b)"
    "f ContextRequesterCommit = Some (b64_encode (tb_requester_commit b))" "f ContextReviewKey = Some (b64_encode (tb_review_key b))"
    using carries_reads by blast
  have b: "tb_nonce b \<noteq> []" "\<not> has_nul (tb_nonce b)" "length (tb_requester_commit b) = 32" "length (tb_review_key b) = 32"
    using c by (auto simp: carries_def Contexts_ok)
  have "decode32 (b64_encode x) = Inr x" if "length x = 32" for x using that by (simp add: decode32_ok)
  then show "ReadTaskBinding (Some d) = Inr b" using c f b by (simp add: ReadTaskBinding_def Let_def)
qed

text \<open>C31: the task binding a TaskDoc carries is read back exactly when its first task holds, among any other contexts and
  in any order, the three contexts \<open>Contexts\<close> writes for it, each once (an absent format counting as text): no second
  spelling of a key or commitment, no duplicate and no missing one is taken.\<close>

theorem task_binding_iff:
  "ReadTaskBinding (Some d) = Inr b \<longleftrightarrow> td_tasks d \<noteq> [] \<and>
     (\<exists>bs. Contexts b = Inr bs \<and> mset (map norm_ctx (binding_contexts (tk_contexts (td_tasks d ! 0)))) = mset bs)"
  using ReadTaskBinding_ok unfolding carries_def .

end
