(* ===== verification/Delegation_Checks.thy ===== *)
theory Delegation_Checks
  imports Delegation_Props
begin

text \<open>
  The two ends of a delegation: what the provider's check of a request and the requester's check of a result accept.
\<close>

section \<open>The request\<close>

text \<open>The envelope is no part of a document's encoding, so a decoder gives documents without one.\<close>

definition taskdoc_coder :: "taskdoc coder \<Rightarrow> bool" where
  "taskdoc_coder T \<longleftrightarrow> (\<forall>d b. td_envelope d = None \<longrightarrow> enc T d = Some b \<longrightarrow> b \<noteq> [] \<and> dec T b = Some d)"

lemma decodeTaskDoc_ok:
  "decodeTaskDoc K b = Inr d \<longleftrightarrow> dec (dk_taskdoc K) b = Some d \<and> enc (dk_taskdoc K) d = Some b \<and> td_tasks d \<noteq> []"
  by (auto simp: decodeTaskDoc_def ebind_Inr_iff decodeBody_ok)

lemma VerifyDelegateReq_ok:
  "VerifyDelegateReqWithKEL C K (Some r) kel t = Inr (who, d, tb) \<longleftrightarrow>
     dr_ix r \<noteq> [] \<and> kel \<noteq> [] \<and> tb = dr_taskdoc r \<and>
     (\<exists>e d0. dr_envelope r = Some e \<and> decodeTaskDoc K tb = Inr d0 \<and> who = en_signer_aid e \<and> d = d0 \<lparr>td_envelope := Some e\<rparr>
       \<and> taskdoc_Verify (dk_preimage K) C kel t d = Inr ())"
  by (cases "dr_envelope r")
    (auto simp: VerifyDelegateReqWithKEL_def decodeDelegateReq_def Let_def chain_iff verified_Inr simp del: sum.case_distrib)

lemma honest_kel: "honest_signer C s \<Longrightarrow> sg_kel s \<noteq> []"
  unfolding honest_signer_def VerifyObject_ok kel_valid_def by (metis list.size(3) not_less0)

text \<open>C28: a request an honest requester sends is taken. It signs a TaskDoc, puts its bytes and the envelope into a
  delegation and sends that; whoever holds its log decodes the delegation, and the check returns the requester's AID,
  the document as it was signed and its exact bytes, at whatever time it is judged.\<close>

theorem request_accepted:
  assumes "inceptWith E k0 k1 ts toad = Inr c0" and "run (ctl_step E) c0 ops = Inr c" and "live E c"
    and d: "td_envelope d0 = None" "td_tasks d0 \<noteq> []" "enc (dk_taskdoc K) d0 = Some tb"
      "taskdoc_Sign (dk_preimage K) (controller_signer E c) d0 = Inr d"
    and r: "dr_taskdoc r = tb" "dr_envelope r = td_envelope d" "dr_ix r \<noteq> []" "req_Marshal K r = Inr b"
    and codec: "strict_coder (dk_req K)" "taskdoc_coder (dk_taskdoc K)"
  shows "\<exists>r'. UnmarshalDelegateReq K b = Inr r' \<and>
    VerifyDelegateReqWithKEL (cr E) K (Some r') (kelLocked c) t = Inr (c_aid c, d, tb)"
proof -
  have h: "honest_signer (cr E) (controller_signer E c)"
    using controller_honest(1) [OF ctl.run_inv [OF incept_inv [OF assms(1)] assms(2)] assms(3)] .
  obtain e where e: "d = d0 \<lparr>td_envelope := Some e\<rparr>" "en_signer_aid e = c_aid c"
    using d(4) by (auto simp: taskdoc_Sign_def controller_signer_def split: option.splits)
  have dec: "tb \<noteq> []" "decodeTaskDoc K tb = Inr d0"
    using codec(2) d(1-3) unfolding taskdoc_coder_def decodeTaskDoc_ok by blast+
  have "req_check K r = Inr ()" using r e dec by (simp add: req_check_def)
  then have u: "UnmarshalDelegateReq K b = Inr r" using request_body.written_is_read [OF codec(1) r(4)] by simp
  have v: "taskdoc_Verify (dk_preimage K) (cr E) (kelLocked c) t d = Inr ()"
    using taskdoc.sign_verify [OF h d(4), of t] by (simp add: controller_signer_def)
  have "kelLocked c \<noteq> []" using honest_kel [OF h] by (simp add: controller_signer_def)
  then have "VerifyDelegateReqWithKEL (cr E) K (Some r) (kelLocked c) t = Inr (c_aid c, d, tb)"
    unfolding VerifyDelegateReq_ok using r dec e v by auto
  then show ?thesis using u by blast
qed

text \<open>C30: the signature of a request does not cover the bytes the check returns. Replace the TaskDoc of an accepted
  request by another that has the same major version, links and tasks, with whatever metadata, minor version and
  critical keys, and the check accepts it under the same envelope and returns the other bytes.\<close>

theorem request_bytes_unsigned:
  assumes "VerifyDelegateReqWithKEL C K (Some r) kel t = Inr (who, d, tb)"
    and "td_envelope d' = None" "enc (dk_taskdoc K) d' = Some tb'" "taskdoc_coder (dk_taskdoc K)"
    and "vp_major (td_version d') = vp_major (td_version d)" "td_links d' = td_links d" "td_tasks d' = td_tasks d"
  shows "VerifyDelegateReqWithKEL C K (Some (r \<lparr>dr_taskdoc := tb'\<rparr>)) kel t
    = Inr (who, d' \<lparr>td_envelope := dr_envelope r\<rparr>, tb')"
proof -
  obtain e d0 where e: "dr_ix r \<noteq> []" "kel \<noteq> []" "dr_envelope r = Some e" "decodeTaskDoc K tb = Inr d0" "who = en_signer_aid e"
    "d = d0 \<lparr>td_envelope := Some e\<rparr>" "taskdoc_Verify (dk_preimage K) C kel t d = Inr ()"
    using assms(1) unfolding VerifyDelegateReq_ok by blast
  have "CanonicalPreimage (dk_preimage K) (d' \<lparr>td_envelope := Some e\<rparr>) = CanonicalPreimage (dk_preimage K) d"
    using assms(5-7) by (simp add: CanonicalPreimage_def canonical_preimage_def)
  then have "taskdoc_Verify (dk_preimage K) C kel t (d' \<lparr>td_envelope := Some e\<rparr>) = Inr ()"
    using e(6,7) unfolding taskdoc.verify_law by auto
  moreover have "td_tasks d' \<noteq> []" using assms(7) e(4,6) by (simp add: decodeTaskDoc_ok)
  then have "decodeTaskDoc K tb' = Inr d'"
    using assms(2-4) unfolding taskdoc_coder_def decodeTaskDoc_ok by blast
  ultimately show ?thesis unfolding VerifyDelegateReq_ok using e by auto
qed

section \<open>The result\<close>

text \<open>What an accepted completion proves of the task \<open>want\<close>.\<close>

definition answers ::
  "crypto \<Rightarrow> deleg_codec \<Rightarrow> result_resp \<Rightarrow> result_check_args \<Rightarrow> receipt_body \<Rightarrow> bool" where
  "answers C K r want rc \<longleftrightarrow> rb_provider rc = wa_provider want
     \<and> (\<exists>td b. dk_taskdoc_lax K (wa_taskdoc want) = Some td \<and> ReadTaskBinding (Some td) = Inr b
          \<and> IXCommit C (wa_ix want) (tb_nonce b) = Inr (rb_ix_commit rc)
          \<and> rb_requester_commit rc = tb_requester_commit b \<and> rb_review_key rc = tb_review_key b)
     \<and> cid_sum C (wa_taskdoc want) = Some (rb_request_cid rc) \<and> cid_sum C (rr_deliverable r) = Some (rb_result_cid rc)
     \<and> wa_delegated_day want \<le> rb_completed_day rc + 1 \<and> rb_completed_day rc \<le> wa_today want + 1"

definition complete :: "result_check_args \<Rightarrow> bool" where
  "complete want \<longleftrightarrow> wa_ix want \<noteq> [] \<and> wa_provider want \<noteq> [] \<and> wa_taskdoc want \<noteq> []"

lemma check_commitments_ok:
  assumes "rb_check rc = Inr ()"
  shows "check_commitments rc ixc b = Inr () \<longleftrightarrow>
    rb_ix_commit rc = ixc \<and> rb_requester_commit rc = tb_requester_commit b \<and> rb_review_key rc = tb_review_key b"
  using assms by (auto simp: check_commitments_def equal32_def rb_check_def ebind_Inr_iff sizedField_ok CommitSize_def
      ReviewKeySize_def split: if_splits)

lemma sum_case_Inr: "(case r of Inl e \<Rightarrow> Inl (f e) | Inr y \<Rightarrow> g y) = Inr z \<longleftrightarrow> (\<exists>y. r = Inr y \<and> g y = Inr z)"
  by (cases r) auto

lemma dl_sum_ok: "dl_sum C raw = Inr c \<longleftrightarrow> cid_sum C raw = Some c"
  by (simp add: dl_sum_def split: option.splits)

lemma result_tail_ok:
  "ebind (check_commitments rc' ixc b) (\<lambda>_. ebind (dl_sum C td) (\<lambda>requestCID.
       if rb_request_cid rc' \<noteq> requestCID then Inl ErrRequestMismatch
       else ebind (dl_sum C del) (\<lambda>resultCID.
         if rb_result_cid rc' \<noteq> resultCID then Inl ErrReceiptMismatch
         else if rb_completed_day rc' + 1 < d \<or> rb_completed_day rc' > t + 1 then Inl ErrReceiptMismatch
         else Inr rc'))) = Inr rc \<longleftrightarrow>
     rc' = rc \<and> check_commitments rc ixc b = Inr () \<and> cid_sum C td = Some (rb_request_cid rc)
     \<and> cid_sum C del = Some (rb_result_cid rc) \<and> d \<le> rb_completed_day rc + 1 \<and> rb_completed_day rc \<le> t + 1"
  unfolding ebind_Inr_iff dl_sum_ok if_Inl_iff by (auto simp: not_less)

text \<open>The commitments of the task that was sent, as the check computes them.\<close>

definition task_commits :: "crypto \<Rightarrow> deleg_codec \<Rightarrow> result_check_args \<Rightarrow> task_binding \<Rightarrow> bytes \<Rightarrow> bool" where
  "task_commits C K want b ixc \<longleftrightarrow> (\<exists>td. dk_taskdoc_lax K (wa_taskdoc want) = Some td \<and> ReadTaskBinding (Some td) = Inr b)
     \<and> IXCommit C (wa_ix want) (tb_nonce b) = Inr ixc"

lemma result_body_ok:
  "(case dk_taskdoc_lax K (wa_taskdoc want) of
       None \<Rightarrow> Inl TaskDocDoesNotDecode
     | Some td \<Rightarrow>
         (case ReadTaskBinding (Some td) of
            Inl _ \<Rightarrow> Inl NoBindingToCheck
          | Inr binding \<Rightarrow>
              (case binding_IXCommit C binding (wa_ix want) of Inl e \<Rightarrow> Inl (BadIX e) | Inr ixc \<Rightarrow> F ixc binding))) = Inr rc
   \<longleftrightarrow> (\<exists>b ixc. task_commits C K want b ixc \<and> F ixc b = Inr rc)"
proof (cases "dk_taskdoc_lax K (wa_taskdoc want)")
  case (Some td)
  then show ?thesis
    by (cases "ReadTaskBinding (Some td)") (auto simp: task_commits_def binding_IXCommit_def split: sum.splits)
qed (simp add: task_commits_def)

lemma answers_commits:
  assumes "rb_check rc = Inr ()"
  shows "answers C K r want rc \<longleftrightarrow> rb_provider rc = wa_provider want
    \<and> (\<exists>b ixc. task_commits C K want b ixc \<and> check_commitments rc ixc b = Inr ())
    \<and> cid_sum C (wa_taskdoc want) = Some (rb_request_cid rc) \<and> cid_sum C (rr_deliverable r) = Some (rb_result_cid rc)
    \<and> wa_delegated_day want \<le> rb_completed_day rc + 1 \<and> rb_completed_day rc \<le> wa_today want + 1"
  unfolding check_commitments_ok [OF assms] answers_def task_commits_def by blast

lemma VerifyResult_ok:
  "VerifyResultForRequest C K KE (Some r) kel want t = Inr rc \<longleftrightarrow>
     rr_receipt r \<noteq> [] \<and> complete want \<and> kel \<noteq> [] \<and>
     (\<exists>w. UnmarshalReceiptWire KE (rr_receipt r) = Inr w \<and> rw_Verify C KE (Some w) kel t = Inr rc) \<and> answers C K r want rc"
proof (cases "rr_receipt r \<noteq> [] \<and> complete want \<and> kel \<noteq> []")
  case True
  show ?thesis
  proof (cases "UnmarshalReceiptWire KE (rr_receipt r)")
    case (Inl e)
    then show ?thesis using True by (simp add: VerifyResultForRequest_def complete_def)
  next
    case (Inr w)
    show ?thesis
    proof (cases "rw_Verify C KE (Some w) kel t")
      case (Inl e)
      then show ?thesis using True \<open>UnmarshalReceiptWire KE (rr_receipt r) = Inr w\<close>
        by (simp add: VerifyResultForRequest_def complete_def)
    next
      case v: (Inr rc')
      have ck: "rb_check rc' = Inr ()" using v receipt_read unfolding rw_Verify_ok by blast
      have "VerifyResultForRequest C K KE (Some r) kel want t = Inr rc \<longleftrightarrow> rb_provider rc' = wa_provider want
          \<and> (\<exists>b ixc. task_commits C K want b ixc \<and> rc' = rc \<and> check_commitments rc ixc b = Inr ()
            \<and> cid_sum C (wa_taskdoc want) = Some (rb_request_cid rc) \<and> cid_sum C (rr_deliverable r) = Some (rb_result_cid rc)
            \<and> wa_delegated_day want \<le> rb_completed_day rc + 1 \<and> rb_completed_day rc \<le> wa_today want + 1)"
        using True Inr v unfolding VerifyResultForRequest_def complete_def
        by (simp only: option.case sum.case length_0_conv if_False if_Inl_iff result_body_ok result_tail_ok not_not simp_thms)
      also have "\<dots> \<longleftrightarrow> rc' = rc \<and> answers C K r want rc'" unfolding answers_commits [OF ck] by blast
      finally show ?thesis using True Inr v by auto
    qed
  qed
qed (auto simp: VerifyResultForRequest_def complete_def)

text \<open>A completion an honest provider makes is taken. It copies the commitments of the TaskDoc's binding into the receipt,
  names the request and the deliverable by their CIDs, signs, and sends receipt and deliverable; the requester, holding
  the provider's log, decodes the result and finds every field of the receipt bound to what it sent.\<close>

theorem result_accepted:
  assumes "inceptWith E k0 k1 ts toad = Inr c0" and "run (ctl_step E) c0 ops = Inr c" and "live E c"
    and codec: "evidence_coders KE" "strict_coder (dk_result K)"
    and task: "complete want" "wa_provider want = c_aid c" "dk_taskdoc_lax K (wa_taskdoc want) = Some td"
      "ReadTaskBinding (Some td) = Inr bd"
    and rc: "IXCommit (cr E) (wa_ix want) (tb_nonce bd) = Inr (rb_ix_commit b)" "rb_requester_commit b = tb_requester_commit bd"
      "rb_review_key b = tb_review_key bd" "cid_sum (cr E) (wa_taskdoc want) = Some (rb_request_cid b)"
      "cid_sum (cr E) (rr_deliverable r) = Some (rb_result_cid b)"
      "wa_delegated_day want \<le> rb_completed_day b + 1" "rb_completed_day b \<le> wa_today want + 1"
    and w: "rb_Sign KE (controller_signer E c) b = Inr w" "rw_Marshal KE w = Inr (rr_receipt r)"
    and r: "result_check r = Inr ()" "result_Marshal K r = Inr raw"
  shows "\<exists>rc. UnmarshalResultResp K raw = Inr r
    \<and> VerifyResultForRequest (cr E) K KE (Some r) (kelLocked c) want t = Inr rc \<and> rb_provider rc = c_aid c"
proof -
  note k = codec(1) [unfolded evidence_coders_def]
  have kr: "strict_coder (ek_receipt KE)" "strict_coder (ek_receipt_wire KE)" using k by blast+
  have h: "honest_signer (cr E) (controller_signer E c)"
    using controller_honest(1) [OF ctl.run_inv [OF incept_inv [OF assms(1)] assms(2)] assms(3)] .
  have sg: "sg_aid (controller_signer E c) = c_aid c" "sg_kel (controller_signer E c) = kelLocked c"
    by (simp_all add: controller_signer_def)
  obtain rc where u: "UnmarshalReceiptBody KE (ew_body w) = Inr rc" "signed_by (sg_aid (controller_signer E c)) w"
    "env_holds (cr E) (sg_kel (controller_signer E c)) t w"
    "rc = b \<lparr>rb_type := ReceiptType, rb_provider := sg_aid (controller_signer E c)\<rparr>"
    by (rule receipt_signed [OF h w(1) kr(1), of t])
  have p: "rb_provider rc = c_aid c" using u(4) sg by simp
  have v: "rw_Verify (cr E) KE (Some w) (kelLocked c) t = Inr rc"
    unfolding rw_Verify_ok using u(1-3) p by (simp only: sg)
  have wire: "UnmarshalReceiptWire KE (rr_receipt r) = Inr w" using receipt_wire.sent_is_read [OF kr(2) w(2)] .
  have ne: "rr_receipt r \<noteq> []" using receipt_wire.unmarshal_read [OF wire] kr(2) by (auto simp: strict_coder_def)
  have kel: "kelLocked c \<noteq> []" using honest_kel [OF h] sg by simp
  have "answers (cr E) K r want rc" unfolding answers_def using task rc p by (auto simp: u(4))
  then have "VerifyResultForRequest (cr E) K KE (Some r) (kelLocked c) want t = Inr rc"
    unfolding VerifyResult_ok using ne kel task(1) wire v by blast
  moreover have "UnmarshalResultResp K raw = Inr r" using result_body.written_is_read [OF codec(2) r(2)] r(1) by simp
  ultimately show ?thesis using p by blast
qed

text \<open>C29: a receipt answers one task. When a requester accepts the same receipt bytes as the answer to two tasks, the two are
  one: the same interaction, the same TaskDoc and provider, and the same deliverable, provided the content identifier does not
  collide on the two TaskDocs and the two deliverables, nor SHA-256 on the two interaction commitments under the nonce of the
  TaskDoc. A provider cannot reuse a receipt, and nobody can swap the result.\<close>

theorem receipt_answers_one_task:
  assumes "VerifyResultForRequest C K KE (Some r) kel want t = Inr rc"
    and "VerifyResultForRequest C K KE (Some r') kel' want' t' = Inr rc'" and "rr_receipt r = rr_receipt r'"
    and cid: "inj_on (cid_sum C) {wa_taskdoc want, wa_taskdoc want', rr_deliverable r, rr_deliverable r'}"
    and sha: "\<And>td b. dk_taskdoc_lax K (wa_taskdoc want) = Some td \<Longrightarrow> ReadTaskBinding (Some td) = Inr b \<Longrightarrow>
      inj_on (sha256 C) {hashed (OfInteraction (wa_ix want) (tb_nonce b)), hashed (OfInteraction (wa_ix want') (tb_nonce b))}"
  shows "wa_ix want = wa_ix want' \<and> wa_taskdoc want = wa_taskdoc want' \<and> wa_provider want = wa_provider want'
    \<and> rr_deliverable r = rr_deliverable r'"
proof -
  obtain w w' where w: "UnmarshalReceiptWire KE (rr_receipt r) = Inr w" "UnmarshalReceiptWire KE (rr_receipt r') = Inr w'"
    "rw_Verify C KE (Some w) kel t = Inr rc" "rw_Verify C KE (Some w') kel' t' = Inr rc'"
    using assms(1,2) unfolding VerifyResult_ok by blast
  have same: "rc' = rc" using w assms(3) unfolding rw_Verify_ok by simp
  have a: "answers C K r want rc" "answers C K r' want' rc" using assms(1,2) same unfolding VerifyResult_ok by blast+
  have c: "cid_sum C (wa_taskdoc want) = cid_sum C (wa_taskdoc want')" "cid_sum C (rr_deliverable r) = cid_sum C (rr_deliverable r')"
    using a unfolding answers_def by simp_all
  have td: "wa_taskdoc want = wa_taskdoc want'" using inj_onD [OF cid c(1)] by simp
  have del: "rr_deliverable r = rr_deliverable r'" using inj_onD [OF cid c(2)] by simp
  obtain x b where x: "dk_taskdoc_lax K (wa_taskdoc want) = Some x" "ReadTaskBinding (Some x) = Inr b"
    "IXCommit C (wa_ix want) (tb_nonce b) = Inr (rb_ix_commit rc)" using a(1) unfolding answers_def by blast
  obtain x' b' where x': "dk_taskdoc_lax K (wa_taskdoc want') = Some x'" "ReadTaskBinding (Some x') = Inr b'"
    "IXCommit C (wa_ix want') (tb_nonce b') = Inr (rb_ix_commit rc)" using a(2) unfolding answers_def by blast
  have "b' = b" using x(1,2) x'(1,2) td by simp
  then have "IXCommit C (wa_ix want) (tb_nonce b) = Inr (rb_ix_commit rc)" "IXCommit C (wa_ix want') (tb_nonce b) = Inr (rb_ix_commit rc)"
    using x(3) x'(3) by simp_all
  then have ix: "commit C (OfInteraction (wa_ix want) (tb_nonce b)) = Inr (rb_ix_commit rc)"
    "commit C (OfInteraction (wa_ix want') (tb_nonce b)) = Inr (rb_ix_commit rc)" by simp_all
  have "hashed (OfInteraction (wa_ix want) (tb_nonce b)) = hashed (OfInteraction (wa_ix want') (tb_nonce b))"
  proof (rule inj_onD [OF sha [OF x(1,2)]])
    show "sha256 C (hashed (OfInteraction (wa_ix want) (tb_nonce b))) = sha256 C (hashed (OfInteraction (wa_ix want') (tb_nonce b)))"
      using commit_hashes [OF ix(1)] commit_hashes [OF ix(2)] by simp
  qed simp_all
  then have "wa_ix want = wa_ix want'" using hashed_inj commit_hashes [OF ix(1)] commit_hashes [OF ix(2)] by blast
  then show ?thesis using td del a unfolding answers_def by simp
qed

section \<open>An example\<close>

definition demo_binding :: task_binding where
  "demo_binding = \<lparr>tb_nonce = ''n-0000'', tb_requester_commit = replicate 32 2, tb_review_key = demo_key 7\<rparr>"

definition demo_task :: task where
  "demo_task = \<lparr>tk_id = [], tk_intent = \<lparr>in_summary = [], in_format = [], in_body = ''do''\<rparr>, tk_requires = [], tk_accepts = [],
     tk_contexts = [binding_ctx ContextNonce ''n-0000'', binding_ctx ContextRequesterCommit (b64_encode (replicate 32 2)),
       binding_ctx ContextReviewKey (b64_encode (demo_key 7))],
     tk_positive = None, tk_negative = None, tk_coupling = 0\<rparr>"

definition demo_doc :: taskdoc where
  "demo_doc = \<lparr>td_version = \<lparr>vp_major = 1, vp_minor = 0\<rparr>, td_meta = [], td_links = [], td_tasks = [demo_task], td_critical = [],
     td_envelope = None\<rparr>"

definition demo_signed_doc :: taskdoc where
  "demo_signed_doc = demo_doc \<lparr>td_envelope := Some (attach demo_signer [8])\<rparr>"

definition demo_request :: delegate_req where
  "demo_request = \<lparr>dr_taskdoc = [5], dr_envelope = Some (attach demo_signer [8]), dr_ix = ''ix-000'', dr_attachments = [],
     dr_context_id = [], dr_metadata = []\<rparr>"

definition demo_result :: result_resp where
  "demo_result = \<lparr>rr_status = StatusDone, rr_deliverable = [6], rr_receipt = [2], rr_metadata = [], rr_reply = None\<rparr>"

text \<open>A coder for documents: the first byte tells whether the document has metadata.\<close>

definition demo_td_coder :: "taskdoc coder" where
  "demo_td_coder = \<lparr>enc = (\<lambda>d. if d = demo_doc then Some [5]
       else if d = demo_doc \<lparr>td_meta := [\<lparr>me_name = ''a'', me_value = ''b''\<rparr>]\<rparr> then Some [7] else None),
     dec = (\<lambda>b. if b = [5] then Some demo_doc
       else if b = [7] then Some (demo_doc \<lparr>td_meta := [\<lparr>me_name = ''a'', me_value = ''b''\<rparr>]\<rparr>) else None)\<rparr>"

definition demo_dk :: deleg_codec where
  "demo_dk = \<lparr>dk_req = one_coder demo_request [9], dk_taskdoc = demo_td_coder, dk_taskdoc_lax = (\<lambda>_. Some demo_doc),
     dk_preimage = (\<lambda>_. Some [8]), dk_result = one_coder demo_result [10],
     dk_chat = \<lparr>enc = (\<lambda>_. None), dec = (\<lambda>_. None)\<rparr>, dk_status = \<lparr>enc = (\<lambda>_. None), dec = (\<lambda>_. None)\<rparr>,
     dk_card = \<lparr>enc = (\<lambda>_. None), dec = (\<lambda>_. None)\<rparr>\<rparr>"

definition demo_want :: result_check_args where
  "demo_want = \<lparr>wa_ix = ''ix-000'', wa_provider = se_id demo_icp, wa_taskdoc = [5], wa_delegated_day = 19000, wa_today = 19000\<rparr>"

lemma demo_dk_coders: "strict_coder (dk_req demo_dk)" "taskdoc_coder (dk_taskdoc demo_dk)" "strict_coder (dk_result demo_dk)"
  by (simp_all add: demo_dk_def one_coder_ok) (auto simp: taskdoc_coder_def demo_td_coder_def demo_doc_def)

lemma demo_signed:
  "taskdoc_Sign (dk_preimage demo_dk) (controller_signer demo_env demo_ctl) demo_doc = Inr demo_signed_doc"
  by (simp add: taskdoc_Sign_def CanonicalPreimage_def demo_dk_def demo_signed_doc_def demo_signer_def)

theorem request_accepted_witness:
  "\<exists>r'. UnmarshalDelegateReq demo_dk [9] = Inr r'
    \<and> VerifyDelegateReqWithKEL (cr demo_env) demo_dk (Some r') (kelLocked demo_ctl) 7 = Inr (c_aid demo_ctl, demo_signed_doc, [5])"
proof (rule request_accepted [OF demo_incept _ demo_live _ _ _ demo_signed _ _ _ _ demo_dk_coders(1,2)])
  show "run (ctl_step demo_env) demo_ctl [] = Inr demo_ctl" by simp
  show "td_envelope demo_doc = None" "td_tasks demo_doc \<noteq> []" by (simp_all add: demo_doc_def)
  show "enc (dk_taskdoc demo_dk) demo_doc = Some [5]" by (simp add: demo_dk_def demo_td_coder_def)
  show "dr_taskdoc demo_request = [5]" "dr_ix demo_request \<noteq> []" "dr_envelope demo_request = td_envelope demo_signed_doc"
    by (simp_all add: demo_request_def demo_signed_doc_def)
  show "req_Marshal demo_dk demo_request = Inr [9]" by (simp add: req_Marshal_def encodeBody_def demo_dk_def)
qed

lemma demo_request_ok:
  "VerifyDelegateReqWithKEL demo_crypto demo_dk (Some demo_request) [demo_icp] 7 = Inr (se_id demo_icp, demo_signed_doc, [5])"
proof -
  have "taskdoc_Verify (dk_preimage demo_dk) demo_crypto [demo_icp] 7 demo_signed_doc = Inr ()"
    using taskdoc.sign_verify [OF demo_honest demo_signed [folded demo_signer_def], of 7] by simp
  moreover have "decodeTaskDoc demo_dk [5] = Inr demo_doc"
    by (simp add: decodeTaskDoc_ok demo_dk_def demo_td_coder_def) (simp add: demo_doc_def)
  ultimately show ?thesis
    unfolding VerifyDelegateReq_ok by (auto simp: demo_request_def demo_signed_doc_def)
qed

theorem request_bytes_unsigned_witness:
  "VerifyDelegateReqWithKEL demo_crypto demo_dk (Some (demo_request \<lparr>dr_taskdoc := [7]\<rparr>)) [demo_icp] 7
    = Inr (se_id demo_icp, demo_signed_doc \<lparr>td_meta := [\<lparr>me_name = ''a'', me_value = ''b''\<rparr>]\<rparr>, [7])"
proof -
  let ?d = "demo_doc \<lparr>td_meta := [\<lparr>me_name = ''a'', me_value = ''b''\<rparr>]\<rparr>"
  have e: "enc (dk_taskdoc demo_dk) ?d = Some [7]" by (simp add: demo_dk_def demo_td_coder_def) (simp add: demo_doc_def)
  have f: "td_envelope ?d = None" "vp_major (td_version ?d) = vp_major (td_version demo_signed_doc)"
    "td_links ?d = td_links demo_signed_doc" "td_tasks ?d = td_tasks demo_signed_doc"
    by (simp_all add: demo_signed_doc_def) (simp add: demo_doc_def)
  have "?d \<lparr>td_envelope := dr_envelope demo_request\<rparr> = demo_signed_doc \<lparr>td_meta := [\<lparr>me_name = ''a'', me_value = ''b''\<rparr>]\<rparr>"
    by (simp add: demo_signed_doc_def demo_request_def)
  then show ?thesis
    using request_bytes_unsigned [OF demo_request_ok f(1) e demo_dk_coders(2) f(2-4)] by simp
qed

lemma demo_binding_read: "ReadTaskBinding (Some demo_doc) = Inr demo_binding"
proof -
  have "Contexts demo_binding = Inr (tk_contexts demo_task)"
    by (simp add: Contexts_ok demo_binding_def demo_task_def has_nul_def)
  moreover have m: "map norm_ctx (binding_contexts (tk_contexts demo_task)) = tk_contexts demo_task"
    by (simp add: demo_task_def binding_ctx_def norm_ctx_def bindingFormat_def)
  ultimately have "carries demo_binding (tk_contexts demo_task)" unfolding carries_def m by blast
  moreover have "td_tasks demo_doc = [demo_task]" by (simp add: demo_doc_def)
  ultimately show ?thesis by (simp add: ReadTaskBinding_ok)
qed

lemma demo_answer:
  "complete demo_want" "wa_provider demo_want = c_aid demo_ctl" "dk_taskdoc_lax demo_dk (wa_taskdoc demo_want) = Some demo_doc"
  "IXCommit demo_crypto (wa_ix demo_want) (tb_nonce demo_binding) = Inr (rb_ix_commit demo_receipt)"
  "rb_requester_commit demo_receipt = tb_requester_commit demo_binding" "rb_review_key demo_receipt = tb_review_key demo_binding"
  "cid_sum demo_crypto (wa_taskdoc demo_want) = Some (rb_request_cid demo_receipt)"
  "cid_sum demo_crypto (rr_deliverable demo_result) = Some (rb_result_cid demo_receipt)"
  "wa_delegated_day demo_want \<le> rb_completed_day demo_receipt + 1" "rb_completed_day demo_receipt \<le> wa_today demo_want + 1"
  by (simp_all add: complete_def demo_want_def demo_binding_def demo_receipt_def demo_result_def demo_dk_def IXCommit_def
      commitText_def has_nul_def demo_ctl_def)

theorem result_accepted_witness:
  "\<exists>rc. UnmarshalResultResp demo_dk [10] = Inr demo_result
    \<and> VerifyResultForRequest (cr demo_env) demo_dk demo_codec (Some demo_result) (kelLocked demo_ctl) demo_want 7 = Inr rc
    \<and> rb_provider rc = c_aid demo_ctl"
proof (rule result_accepted [OF demo_incept _ demo_live demo_coders demo_dk_coders(3) demo_answer(1-3) demo_binding_read])
  show "run (ctl_step demo_env) demo_ctl [] = Inr demo_ctl" by simp
  show "rb_Sign demo_codec (controller_signer demo_env demo_ctl) demo_receipt = Inr demo_receipt_wire"
    using demo_made(3) by (simp add: demo_signer_def)
  show "rw_Marshal demo_codec demo_receipt_wire = Inr (rr_receipt demo_result)" using demo_wires(1) by (simp add: demo_result_def)
  show "result_check demo_result = Inr ()" by (simp add: result_check_def demo_result_def)
  show "result_Marshal demo_dk demo_result = Inr [10]" by (simp add: result_Marshal_def encodeBody_def demo_dk_def)
qed (use demo_answer in simp_all)

text \<open>The same receipt is accepted the day after, too.\<close>

definition demo_later :: result_check_args where
  "demo_later = demo_want \<lparr>wa_today := 19001\<rparr>"

lemma demo_verified:
  assumes "want = demo_want \<or> want = demo_later"
  shows "VerifyResultForRequest demo_crypto demo_dk demo_codec (Some demo_result) [demo_icp] want t = Inr demo_receipt"
proof -
  have w: "UnmarshalReceiptWire demo_codec (rr_receipt demo_result) = Inr demo_receipt_wire"
    using receipt_wire.sent_is_read [OF _ demo_wires(1)] demo_coders by (simp add: evidence_coders_def demo_result_def)
  have i: "interlocked demo_crypto demo_codec [demo_icp] demo_receipt_wire demo_review_wire demo_receipt demo_review"
    using demo_interlocked by (simp only: CheckV2_ok)
  have e: "envelope_holds demo_crypto [demo_icp] t [1] (attach demo_signer [1])"
    using attach_honest [OF demo_honest, of "[1]"] by (simp add: envelope_holds_def)
  have "rw_Verify demo_crypto demo_codec (Some demo_receipt_wire) [demo_icp] t = Inr demo_receipt"
    using i e by (simp add: rw_Verify_ok interlocked_def env_holds_def demo_receipt_wire_def)
  moreover have "answers demo_crypto demo_dk demo_result want demo_receipt"
    using assms demo_answer demo_binding_read unfolding answers_def
    by (elim disjE) (simp_all add: demo_later_def, simp_all add: demo_receipt_def demo_want_def)
  moreover have "complete want" using assms demo_answer(1) by (auto simp: complete_def demo_later_def)
  ultimately show ?thesis using w by (simp add: VerifyResult_ok) (simp add: demo_result_def)
qed

lemma demo_cids: "inj_on (cid_sum demo_crypto) {[5], [5], [6], [6]}"
proof -
  have "b32_encode (aidPrefix @ take 32 ([5] @ replicate 32 0)) \<noteq> b32_encode (aidPrefix @ take 32 ([6] @ replicate 32 0))"
  proof
    assume e: "b32_encode (aidPrefix @ take 32 ([5] @ replicate 32 0)) = b32_encode (aidPrefix @ take 32 ([6] @ replicate 32 0))"
    have l: "length (aidPrefix @ take 32 ([x] @ replicate 32 0)) = 36" for x by (simp add: aidPrefix_def)
    have "aidPrefix @ take 32 ([5] @ replicate 32 0) = aidPrefix @ take 32 ([6] @ replicate 32 0)"
      using decode_encode_36(1) [OF l [of 5]] decode_encode_36(1) [OF l [of 6]] e by simp
    then show False by simp
  qed
  then show ?thesis by (simp add: demo_cid_def)
qed

theorem receipt_answers_one_task_witness:
  "wa_ix demo_later = wa_ix demo_want
    \<and> VerifyResultForRequest demo_crypto demo_dk demo_codec (Some demo_result) [demo_icp] demo_want 7 = Inr demo_receipt
    \<and> VerifyResultForRequest demo_crypto demo_dk demo_codec (Some demo_result) [demo_icp] demo_later 9 = Inr demo_receipt
    \<and> (\<forall>kel t rc. VerifyResultForRequest demo_crypto demo_dk demo_codec (Some demo_result) kel (demo_want \<lparr>wa_ix := ''ix-001''\<rparr>) t \<noteq> Inr rc)"
proof -
  have td: "wa_taskdoc demo_want = [5]" "wa_taskdoc demo_later = [5]" "rr_deliverable demo_result = [6]"
    by (simp_all add: demo_want_def demo_later_def demo_result_def)
  have sha: "inj_on (sha256 demo_crypto) S" for S by (simp add: inj_on_def)
  note v = demo_verified [OF disjI1 [OF refl], of 7] demo_verified [OF disjI2 [OF refl], of 9]
  have "wa_ix demo_want = wa_ix demo_later"
    using receipt_answers_one_task [OF v refl _ sha] demo_cids unfolding td by simp
  moreover have "VerifyResultForRequest demo_crypto demo_dk demo_codec (Some demo_result) kel (demo_want \<lparr>wa_ix := ''ix-001''\<rparr>) t \<noteq> Inr rc"
    for kel t rc
  proof
    assume a: "VerifyResultForRequest demo_crypto demo_dk demo_codec (Some demo_result) kel (demo_want \<lparr>wa_ix := ''ix-001''\<rparr>) t = Inr rc"
    have "wa_ix demo_want = ''ix-001''"
      using receipt_answers_one_task [OF v(1) a refl _ sha] demo_cids unfolding td by (simp add: td)
    then show False by (simp add: demo_want_def)
  qed
  ultimately show ?thesis using v by metis
qed

end
