(* ===== verification/Regpow.thy ===== *)
theory Regpow
  imports Evidence_Commit
begin

text \<open>
  The registration proof of work (\<open>regpow/regpow.go\<close>): the hash, the count of its leading zero bits, the check a hub
  makes and the search a daemon runs. SHA-256 is the function of the \<open>crypto\<close> record; a \<open>[32]byte\<close> is its 32 bytes.
\<close>

definition pow_Bits :: int where "pow_Bits = 22"
definition MaxNonce :: nat where "MaxNonce = 32"
definition HourMillis :: u64 where "HourMillis = 3600000"
definition hashLabel :: string where "hashLabel = ''anet-regpow/v1''"
definition seedLabel :: string where "seedLabel = ''anet-regpow-seed/v1''"

datatype pow_err = PowNUL | PowNonce | BadChallenge | Cancelled | NoResult | InternalError

definition Hour :: "u64 \<Rightarrow> u64" where
  "Hour ms = ms div HourMillis"

definition NotAfter :: "u64 \<Rightarrow> u64" where
  "NotAfter hour = (hour + 2) * HourMillis"

definition Seed :: "crypto \<Rightarrow> bytes \<Rightarrow> u64 \<Rightarrow> bytes" where
  "Seed C key hour = hmac_sha256 C key (ascii seedLabel @ be_bytes 8 hour)"

definition pow_prefix :: "string \<Rightarrow> string \<Rightarrow> bytes \<Rightarrow> pow_err + bytes" where
  "pow_prefix hubAID aid seed =
     (if has_nul hubAID \<or> has_nul aid then Inl PowNUL
      else Inr (ascii hashLabel @ [0] @ ascii hubAID @ [0] @ ascii aid @ [0] @ seed))"

definition pow_Hash :: "crypto \<Rightarrow> string \<Rightarrow> string \<Rightarrow> bytes \<Rightarrow> bytes \<Rightarrow> pow_err + bytes" where
  "pow_Hash C hubAID aid seed nonce =
     (if length nonce < 1 \<or> length nonce > MaxNonce then Inl PowNonce
      else ebind (pow_prefix hubAID aid seed) (\<lambda>b. Inr (sha256 C (b @ nonce))))"

text \<open>\<open>bits.LeadingZeros64\<close>, and the loop over the four words of the hash.\<close>

definition LeadingZeros64 :: "u64 \<Rightarrow> nat" where
  "LeadingZeros64 w = length (takeWhile (\<lambda>i. \<not> bit w i) (rev [0..<64]))"

fun zero_words :: "u64 list \<Rightarrow> nat" where
  "zero_words [] = 0"
| "zero_words (w # ws) = (if w \<noteq> 0 then LeadingZeros64 w else 64 + zero_words ws)"

definition zeroBits :: "bytes \<Rightarrow> nat" where
  "zeroBits h = zero_words (map (\<lambda>i. be_word (take 8 (drop i h))) [0, 8, 16, 24])"

definition pow_Check :: "crypto \<Rightarrow> string \<Rightarrow> string \<Rightarrow> bytes \<Rightarrow> bytes \<Rightarrow> int \<Rightarrow> bool" where
  "pow_Check C hubAID aid seed nonce want =
     (if want < 1 \<or> want > 256 then False
      else case pow_Hash C hubAID aid seed nonce of Inl _ \<Rightarrow> False | Inr h \<Rightarrow> int (zeroBits h) \<ge> want)"

section \<open>The search\<close>

text \<open>
  Each worker is a goroutine: its next nonce, its loop counter, and whether it has returned. The channel of results
  has room for one per worker, so a send never blocks. \<open>sum pre nonce\<close> of the hasher is SHA-256 of the two. A
  schedule is any order of worker steps, with the caller's context ending at any point.
\<close>

definition checkEvery :: nat where "checkEvery = 2 ^ 12"

record worker =
  wk_c :: u64
  wk_i :: nat
  wk_returned :: bool

record search_st =
  ss_workers :: "worker list"
  ss_found :: "u64 list"
  ss_cancelled :: bool
  ss_parent_done :: bool

datatype search_op = Work nat | ParentDone

definition search_init :: "nat \<Rightarrow> search_st" where
  "search_init workers =
     \<lparr>ss_workers = map (\<lambda>w. \<lparr>wk_c = of_nat w, wk_i = 0, wk_returned = False\<rparr>) [0..<(if workers < 1 then 1 else workers)],
      ss_found = [], ss_cancelled = False, ss_parent_done = False\<rparr>"

definition hasher_sum :: "crypto \<Rightarrow> bytes \<Rightarrow> u64 \<Rightarrow> bytes" where
  "hasher_sum C pre c = sha256 C (pre @ be_bytes 8 c)"

definition solves :: "crypto \<Rightarrow> bytes \<Rightarrow> int \<Rightarrow> u64 \<Rightarrow> bool" where
  "solves C pre want c \<longleftrightarrow> int (zeroBits (hasher_sum C pre c)) \<ge> want"

definition work :: "crypto \<Rightarrow> bytes \<Rightarrow> int \<Rightarrow> nat \<Rightarrow> search_st \<Rightarrow> search_st" where
  "work C pre want w s =
     (if w \<ge> length (ss_workers s) then s
      else let k = ss_workers s ! w in
        if wk_returned k then s
        else if wk_i k mod checkEvery = 0 \<and> (ss_cancelled s \<or> ss_parent_done s) then
          s \<lparr>ss_workers := (ss_workers s)[w := k \<lparr>wk_returned := True\<rparr>]\<rparr>
        else if solves C pre want (wk_c k) then
          s \<lparr>ss_workers := (ss_workers s)[w := k \<lparr>wk_returned := True\<rparr>], ss_found := ss_found s @ [wk_c k], ss_cancelled := True\<rparr>
        else s \<lparr>ss_workers := (ss_workers s)[w := k \<lparr>wk_c := wk_c k + of_nat (length (ss_workers s)), wk_i := wk_i k + 1\<rparr>]\<rparr>)"

fun search_step :: "crypto \<Rightarrow> bytes \<Rightarrow> int \<Rightarrow> search_op \<Rightarrow> search_st \<Rightarrow> search_st" where
  "search_step C pre want (Work w) s = work C pre want w s"
| "search_step C pre want ParentDone s = s \<lparr>ss_parent_done := True\<rparr>"

definition search_run :: "crypto \<Rightarrow> bytes \<Rightarrow> int \<Rightarrow> nat \<Rightarrow> search_op list \<Rightarrow> search_st" where
  "search_run C pre want workers ops = fold (search_step C pre want) ops (search_init workers)"

text \<open>What the receive at the end gives: the first result, or the closed channel once every worker has returned;
  \<open>None\<close> while it waits.\<close>

definition search_result :: "search_st \<Rightarrow> (pow_err + bytes) option" where
  "search_result s =
     (case ss_found s of
        c # _ \<Rightarrow> Some (Inr (be_bytes 8 c))
      | [] \<Rightarrow> if list_all wk_returned (ss_workers s) then Some (Inl (if ss_parent_done s then Cancelled else NoResult)) else None)"

text \<open>\<open>Solve\<close>, given what its search came to under some schedule.\<close>

definition Solve ::
  "crypto \<Rightarrow> string \<Rightarrow> string \<Rightarrow> bytes \<Rightarrow> int \<Rightarrow> nat \<Rightarrow> search_op list \<Rightarrow> (pow_err + bytes) option" where
  "Solve C hubAID aid seed want procs ops =
     (if want < 1 \<or> want > pow_Bits then Some (Inl BadChallenge)
      else case pow_prefix hubAID aid seed of
        Inl e \<Rightarrow> Some (Inl e)
      | Inr pre \<Rightarrow>
          (case search_result (search_run C pre want procs ops) of
             None \<Rightarrow> None
           | Some (Inl e) \<Rightarrow> Some (Inl e)
           | Some (Inr nonce) \<Rightarrow>
               if \<not> pow_Check C hubAID aid seed nonce want then Some (Inl InternalError) else Some (Inr nonce)))"

section \<open>Counting zero bits\<close>

lemma LeadingZeros64_le: "LeadingZeros64 w \<le> 64"
  unfolding LeadingZeros64_def using length_takeWhile_le [of "\<lambda>i. \<not> bit w i" "rev [0..<64]"] by simp

text \<open>The number of leading zeros is at least \<open>n\<close> exactly when the word is below \<open>2 ^ (64 - n)\<close>.\<close>

lemma takeWhile_length_ge: "n \<le> length xs \<Longrightarrow> n \<le> length (takeWhile P xs) \<longleftrightarrow> (\<forall>i < n. P (xs ! i))"
proof (induction xs arbitrary: n)
  case (Cons x xs)
  then show ?case by (cases n) (auto simp: All_less_Suc2)
qed simp

lemma nat_below_power: "(m :: nat) < 2 ^ k \<longleftrightarrow> (\<forall>i \<ge> k. \<not> bit m i)"
proof
  assume "m < 2 ^ k"
  then have "take_bit k m = m" by (simp add: take_bit_nat_eq_self)
  then show "\<forall>i \<ge> k. \<not> bit m i" by (metis bit_take_bit_iff linorder_not_less)
next
  assume "\<forall>i \<ge> k. \<not> bit m i"
  then have "take_bit k m = m" by (intro bit_eqI) (metis bit_take_bit_iff linorder_not_less)
  then show "m < 2 ^ k" by (metis take_bit_nat_less_exp)
qed

lemma LeadingZeros64_ge: "n \<le> 64 \<Longrightarrow> n \<le> LeadingZeros64 w \<longleftrightarrow> unat w < 2 ^ (64 - n)"
proof -
  assume n: "n \<le> 64"
  have "n \<le> LeadingZeros64 w \<longleftrightarrow> (\<forall>i < n. \<not> bit w (63 - i))"
    unfolding LeadingZeros64_def using n by (subst takeWhile_length_ge) (auto simp: rev_nth)
  also have "\<dots> \<longleftrightarrow> (\<forall>i \<ge> 64 - n. \<not> bit (unat w) i)"
  proof
    assume a: "\<forall>i < n. \<not> bit w (63 - i)"
    show "\<forall>i \<ge> 64 - n. \<not> bit (unat w) i"
    proof (intro allI impI)
      fix i assume "64 - n \<le> i"
      show "\<not> bit (unat w) i"
      proof (cases "i < 64")
        case True
        then have "63 - i < n" "63 - (63 - i) = i" using \<open>64 - n \<le> i\<close> n by linarith+
        then show ?thesis using a by (metis bit_unsigned_iff)
      qed (use bit_imp_le_length [of w i] in \<open>auto simp: bit_unsigned_iff\<close>)
    qed
  next
    assume a: "\<forall>i \<ge> 64 - n. \<not> bit (unat w) i"
    show "\<forall>i < n. \<not> bit w (63 - i)"
    proof (intro allI impI)
      fix i assume "i < n"
      then have "64 - n \<le> 63 - i" "63 - i < 64" using n by linarith+
      then show "\<not> bit w (63 - i)" using a by (auto simp: bit_unsigned_iff)
    qed
  qed
  finally show ?thesis unfolding nat_below_power .
qed

fun words_nat :: "u64 list \<Rightarrow> nat" where
  "words_nat [] = 0"
| "words_nat (w # ws) = unat w * 2 ^ (64 * length ws) + words_nat ws"

lemma high_low_less:
  fixes u v a L :: nat
  assumes "v < 2 ^ L"
  shows "u * 2 ^ L + v < 2 ^ (a + L) \<longleftrightarrow> u < 2 ^ a"
proof
  assume "u * 2 ^ L + v < 2 ^ (a + L)"
  then have "u * 2 ^ L + v < 2 ^ a * 2 ^ L" by (simp only: power_add)
  then have "u * 2 ^ L < 2 ^ a * 2 ^ L" by linarith
  then show "u < 2 ^ a" by simp
next
  assume "u < 2 ^ a"
  then have "(u + 1) * 2 ^ L \<le> 2 ^ a * 2 ^ L" by (intro mult_le_mono1) simp
  then show "u * 2 ^ L + v < 2 ^ (a + L)" using assms unfolding power_add add_mult_distrib by linarith
qed

lemma words_nat_less: "words_nat ws < 2 ^ (64 * length ws)"
proof (induction ws)
  case (Cons w ws)
  have "unat w < 2 ^ 64" using unat_less_2p64 [of w] by simp
  then show ?case using high_low_less [OF Cons, of "unat w" 64] by (simp add: power_add)
qed simp

lemma zero_words_ge:
  "n \<le> 64 * length ws \<Longrightarrow> n \<le> zero_words ws \<longleftrightarrow> words_nat ws < 2 ^ (64 * length ws - n)"
proof (induction ws arbitrary: n)
  case (Cons w ws)
  define L where "L = 64 * length ws"
  have v: "words_nat ws < 2 ^ L" using words_nat_less by (simp add: L_def)
  have n: "n \<le> 64 + L" using Cons.prems by (simp add: L_def)
  show ?case
  proof (cases "n \<le> 64")
    case True
    have "words_nat (w # ws) < 2 ^ (64 * length (w # ws) - n) \<longleftrightarrow> unat w < 2 ^ (64 - n)"
      using high_low_less [OF v, of "unat w" "64 - n"] True by (simp add: L_def add.commute)
    then show ?thesis using LeadingZeros64_ge [OF True, of w] True by auto
  next
    case False
    have less: "(2 :: nat) ^ (64 + L - n) \<le> 2 ^ L" using False by (intro power_increasing) simp_all
    show ?thesis
    proof (cases "w = 0")
      case True
      have "n \<le> zero_words (w # ws) \<longleftrightarrow> n - 64 \<le> zero_words ws" using True False by auto
      also have "\<dots> \<longleftrightarrow> words_nat ws < 2 ^ (L - (n - 64))" using Cons.IH [of "n - 64"] n by (simp add: L_def)
      also have "L - (n - 64) = 64 + L - n" using False by simp
      finally show ?thesis using True by (simp add: L_def)
    next
      case nz: False
      then have "unat w \<noteq> 0" by (simp add: unat_eq_0)
      then have "2 ^ L \<le> unat w * 2 ^ L + words_nat ws" by (cases "unat w") simp_all
      then have "2 ^ (64 + L - n) \<le> unat w * 2 ^ L + words_nat ws" using less by linarith
      then have "\<not> words_nat (w # ws) < 2 ^ (64 + L - n)" by (simp add: L_def)
      moreover have "zero_words (w # ws) \<le> 64" using nz LeadingZeros64_le by simp
      ultimately show ?thesis using False by (simp add: L_def)
    qed
  qed
qed simp

lemma be_nat_append: "be_nat (a @ b) = be_nat a * 256 ^ length b + be_nat b"
  by (induction a) (simp_all add: algebra_simps power_add)

lemma unat_be_word: "length b = 8 \<Longrightarrow> unat (be_word b :: u64) = be_nat b"
proof -
  assume "length b = 8"
  then have "be_nat b < 2 ^ LENGTH(64)" using be_nat_less [of b] by simp
  then show ?thesis unfolding be_word_def be_nat_def by (simp add: unat_of_nat_less)
qed

lemma zeroBits_ge:
  assumes "length h = 32" and "n \<le> 256"
  shows "n \<le> zeroBits h \<longleftrightarrow> be_nat h < 2 ^ (256 - n)"
proof -
  obtain a b c d where h: "h = a @ b @ c @ d" and l: "length a = 8" "length b = 8" "length c = 8" "length d = 8"
  proof
    show "h = take 8 h @ take 8 (drop 8 h) @ take 8 (drop 16 h) @ drop 24 h"
      using append_take_drop_id [of 8 h] append_take_drop_id [of 8 "drop 8 h"] append_take_drop_id [of 8 "drop 16 h"] by simp
  qed (use assms in simp_all)
  have "zeroBits h = zero_words [be_word a, be_word b, be_word c, be_word d]"
    using l by (simp add: zeroBits_def h del: zero_words.simps)
  moreover have "words_nat [be_word a, be_word b, be_word c, be_word d] = be_nat h"
    using l by (simp add: unat_be_word h be_nat_append)
  ultimately show ?thesis using zero_words_ge [of n "[be_word a, be_word b, be_word c, be_word d]"] assms(2) by simp
qed

end
