(* ===== verification/Regpow_Props.thy ===== *)
theory Regpow_Props
  imports Regpow
begin

text \<open>
  What the proof of work promises: the check is a bound on the hash as a number, and the concurrent search, under any
  schedule of its workers, finds only nonces that pass the check, the least one when it has a single worker, and does
  find one as soon as the worker responsible for some solution has had enough steps.
\<close>

section \<open>The state of the search\<close>

text \<open>\<open>tried n w k\<close>: worker \<open>w\<close> of \<open>n\<close> has tried the nonces \<open>w\<close>, \<open>w + n\<close>, ... of its first \<open>wk_i k\<close> rounds.\<close>

definition worker_ok :: "crypto \<Rightarrow> bytes \<Rightarrow> int \<Rightarrow> nat \<Rightarrow> nat \<Rightarrow> worker \<Rightarrow> bool" where
  "worker_ok C pre want n w k \<longleftrightarrow> wk_c k = of_nat (w + n * wk_i k)
     \<and> (\<forall>i < wk_i k. \<not> solves C pre want (of_nat (w + n * i)))"

definition search_ok :: "crypto \<Rightarrow> bytes \<Rightarrow> int \<Rightarrow> nat \<Rightarrow> search_st \<Rightarrow> bool" where
  "search_ok C pre want n s \<longleftrightarrow> length (ss_workers s) = n
     \<and> (\<forall>w < n. worker_ok C pre want n w (ss_workers s ! w))
     \<and> (\<forall>c \<in> set (ss_found s). \<exists>w < n. wk_returned (ss_workers s ! w) \<and> c = wk_c (ss_workers s ! w) \<and> solves C pre want c)
     \<and> (ss_cancelled s \<longleftrightarrow> ss_found s \<noteq> [])
     \<and> (\<forall>w < n. wk_returned (ss_workers s ! w) \<longrightarrow> ss_found s \<noteq> [] \<or> ss_parent_done s)"

lemma worker_tried:
  assumes "worker_ok C pre want n w k" and "i < wk_i k" and "unat c = w + n * i"
  shows "\<not> solves C pre want c"
proof -
  have "of_nat (w + n * i) = c" unfolding assms(3) [symmetric] by simp
  then show ?thesis using assms(1,2) unfolding worker_ok_def by metis
qed

lemma search_ok_init: "search_ok C pre want (if workers < 1 then 1 else workers) (search_init workers)"
  by (auto simp: search_ok_def search_init_def worker_ok_def)

lemma work_ok:
  assumes ok: "search_ok C pre want n s"
  shows "search_ok C pre want n (work C pre want w s)"
proof (cases "w < n \<and> \<not> wk_returned (ss_workers s ! w)")
  case False
  have "length (ss_workers s) = n" using ok by (simp add: search_ok_def)
  then show ?thesis using ok False by (auto simp: work_def Let_def)
next
  case True
  define k where "k = ss_workers s ! w"
  have n: "length (ss_workers s) = n" and kok: "worker_ok C pre want n w k"
    using ok True by (auto simp: search_ok_def k_def)
  have nr: "\<not> wk_returned k" using True by (simp add: k_def)
  consider "wk_i k mod checkEvery = 0 \<and> (ss_cancelled s \<or> ss_parent_done s)"
    | "\<not> (wk_i k mod checkEvery = 0 \<and> (ss_cancelled s \<or> ss_parent_done s))" "solves C pre want (wk_c k)"
    | "\<not> (wk_i k mod checkEvery = 0 \<and> (ss_cancelled s \<or> ss_parent_done s))" "\<not> solves C pre want (wk_c k)" by blast
  then show ?thesis
  proof cases
    case 1
    then have "work C pre want w s = s \<lparr>ss_workers := (ss_workers s)[w := k \<lparr>wk_returned := True\<rparr>]\<rparr>"
      using True n nr by (simp add: work_def k_def)
    then show ?thesis using ok True 1 kok n
      by (auto simp: search_ok_def nth_list_update worker_ok_def k_def; metis nth_list_update_neq)
  next
    case 2
    then have "work C pre want w s = s \<lparr>ss_workers := (ss_workers s)[w := k \<lparr>wk_returned := True\<rparr>],
        ss_found := ss_found s @ [wk_c k], ss_cancelled := True\<rparr>"
      using True n nr by (auto simp: work_def k_def Let_def)
    then show ?thesis using ok True 2 kok n
      by (auto simp: search_ok_def nth_list_update worker_ok_def k_def; metis nth_list_update_neq)
  next
    case 3
    define k' where "k' = k \<lparr>wk_c := wk_c k + of_nat n, wk_i := wk_i k + 1\<rparr>"
    have w': "work C pre want w s = s \<lparr>ss_workers := (ss_workers s)[w := k']\<rparr>"
      using True n nr 3 by (auto simp: work_def k_def k'_def Let_def)
    have "worker_ok C pre want n w k'"
      using kok 3(2) by (auto simp: worker_ok_def k'_def less_Suc_eq algebra_simps)
    then show ?thesis unfolding w' using ok True nr n
      by (auto simp: search_ok_def nth_list_update k_def k'_def; metis nth_list_update_neq)
  qed
qed

lemma step_ok: "search_ok C pre want n s \<Longrightarrow> search_ok C pre want n (search_step C pre want x s)"
  by (cases x) (auto simp: work_ok, auto simp: search_ok_def)

lemma fold_ok: "search_ok C pre want n s \<Longrightarrow> search_ok C pre want n (fold (search_step C pre want) ops s)"
  by (induction ops arbitrary: s) (simp_all add: step_ok)

lemma run_ok: "search_ok C pre want (if workers < 1 then 1 else workers) (search_run C pre want workers ops)"
  unfolding search_run_def using fold_ok search_ok_init by blast

lemma found_grows: "\<exists>new. ss_found (fold (search_step C pre want) ops s) = ss_found s @ new"
proof (induction ops arbitrary: s)
  case (Cons x ops)
  have "\<exists>new. ss_found (search_step C pre want x s) = ss_found s @ new"
    by (cases x) (auto simp: work_def Let_def)
  then show ?case using Cons [of "search_step C pre want x s"] by fastforce
qed simp

text \<open>While nothing is found and the caller waits, no step is lost: each one tries one more nonce.\<close>

lemma work_counts:
  assumes ok: "search_ok C pre want n s" and w: "w < n" and "\<not> ss_parent_done s" and "ss_found (work C pre want v s) = []"
  shows "wk_i (ss_workers (work C pre want v s) ! w) = wk_i (ss_workers s ! w) + (if v = w then 1 else 0)"
proof -
  have f: "ss_found s = []" using assms(4) found_grows [of C pre want "[Work v]" s] by simp
  then have "\<not> ss_cancelled s" "length (ss_workers s) = n" "\<And>u. u < n \<Longrightarrow> \<not> wk_returned (ss_workers s ! u)"
    using ok assms(3) by (auto simp: search_ok_def)
  then show ?thesis using assms(3,4) w by (auto simp: work_def Let_def nth_list_update split: if_splits)
qed

lemma run_counts:
  assumes "search_ok C pre want n s" and "w < n" and "\<not> ss_parent_done s" and "ParentDone \<notin> set ops"
    and "ss_found (fold (search_step C pre want) ops s) = []"
  shows "wk_i (ss_workers (fold (search_step C pre want) ops s) ! w) = wk_i (ss_workers s ! w) + count_list ops (Work w)"
  using assms
proof (induction ops arbitrary: s)
  case (Cons x ops)
  then obtain v where x: "x = Work v" by (cases x) auto
  let ?s = "work C pre want v s"
  have f: "ss_found ?s = []"
    using Cons.prems(5) found_grows [of C pre want ops ?s] x by (metis append_is_Nil_conv fold_simps(2) search_step.simps(1))
  have p: "\<not> ss_parent_done ?s" using Cons.prems(3) by (auto simp: work_def Let_def)
  have "wk_i (ss_workers (fold (search_step C pre want) ops ?s) ! w) = wk_i (ss_workers ?s ! w) + count_list ops (Work w)"
    using Cons.IH [OF work_ok [OF Cons.prems(1)] Cons.prems(2) p] Cons.prems(4,5) x by simp
  then show ?case using work_counts [OF Cons.prems(1-3) f] x by simp
qed simp

text \<open>C32: the search ends. Whatever the order in which the workers run, once the worker responsible for some solution \<open>c\<close>
  has had more than \<open>c div n\<close> steps, and the caller has not given up, a result is in the channel.\<close>

theorem search_finishes:
  assumes "solves C pre want c" and "n = (if procs < 1 then 1 else procs)" and "ParentDone \<notin> set ops"
    and "unat c div n < count_list ops (Work (unat c mod n))"
  shows "\<exists>nonce. search_result (search_run C pre want procs ops) = Some (Inr nonce)"
proof -
  let ?s = "search_run C pre want procs ops" and ?w = "unat c mod n"
  have w: "?w < n" using assms(2) by simp
  have "ss_found ?s \<noteq> []"
  proof
    assume f: "ss_found ?s = []"
    have ok: "search_ok C pre want n (search_init procs)" using search_ok_init assms(2) by metis
    have "\<not> ss_parent_done (search_init procs)" by (simp add: search_init_def)
    then have "wk_i (ss_workers ?s ! ?w) = wk_i (ss_workers (search_init procs) ! ?w) + count_list ops (Work ?w)"
      using run_counts [OF ok w _ assms(3)] f unfolding search_run_def by blast
    then have i: "unat c div n < wk_i (ss_workers ?s ! ?w)" using assms(4) by simp
    have "search_ok C pre want n ?s" using run_ok [of C pre want procs ops] assms(2) by simp
    then have "worker_ok C pre want n ?w (ss_workers ?s ! ?w)" using w by (simp add: search_ok_def)
    then show False using worker_tried [OF _ i, of C pre want n ?w c] assms(1) by simp
  qed
  then show ?thesis by (cases "ss_found ?s") (simp_all add: search_result_def)
qed

section \<open>Solve\<close>

lemma Check_solves:
  assumes "pow_prefix hubAID aid seed = Inr pre" and "1 \<le> want" "want \<le> pow_Bits"
  shows "pow_Check C hubAID aid seed (be_bytes 8 c) want \<longleftrightarrow> solves C pre want c"
  using assms by (simp add: pow_Check_def pow_Hash_def MaxNonce_def solves_def hasher_sum_def pow_Bits_def)

lemma found_solves:
  assumes "search_result (search_run C pre want procs ops) = Some (Inr nonce)"
  shows "\<exists>c. nonce = be_bytes 8 c \<and> solves C pre want c \<and> (procs \<le> 1 \<longrightarrow> (\<forall>c' < c. \<not> solves C pre want c'))"
proof -
  let ?s = "search_run C pre want procs ops" and ?n = "if procs < 1 then 1 else procs"
  obtain c cs where c: "ss_found ?s = c # cs" "nonce = be_bytes 8 c"
    using assms by (auto simp: search_result_def split: list.splits if_splits)
  have ok: "search_ok C pre want ?n ?s" by (rule run_ok)
  then obtain w where w: "w < ?n" "c = wk_c (ss_workers ?s ! w)" "solves C pre want c" using c by (auto simp: search_ok_def)
  have k: "worker_ok C pre want ?n w (ss_workers ?s ! w)" using ok w by (simp add: search_ok_def)
  have "\<not> solves C pre want c'" if "procs \<le> 1" "c' < c" for c'
  proof -
    have n: "?n = 1" "w = 0" using that(1) w(1) by (auto split: if_splits)
    have "c = of_nat (wk_i (ss_workers ?s ! w))" using k w(2) unfolding n by (simp add: worker_ok_def)
    then have "unat c \<le> wk_i (ss_workers ?s ! w)" by (simp add: unat_of_nat)
    then have "unat c' < wk_i (ss_workers ?s ! w)" using that(2) by (simp add: word_less_nat_alt)
    then show ?thesis using worker_tried [OF k, of "unat c'" c'] unfolding n by simp
  qed
  then show ?thesis using c(2) w(3) by blast
qed

text \<open>C33: whatever the schedule, \<open>Solve\<close> never reports its internal error, and a nonce it returns passes the hub's check;
  with a single worker it is the least 8-byte nonce that does.\<close>

theorem solve_sound:
  "Solve C hubAID aid seed want procs ops \<noteq> Some (Inl InternalError)
   \<and> (\<forall>nonce. Solve C hubAID aid seed want procs ops = Some (Inr nonce) \<longrightarrow>
        pow_Check C hubAID aid seed nonce want
        \<and> (procs \<le> 1 \<longrightarrow> (\<exists>c :: u64. nonce = be_bytes 8 c \<and> (\<forall>c' < c. \<not> pow_Check C hubAID aid seed (be_bytes 8 c') want))))"
proof (cases "want < 1 \<or> want > pow_Bits")
  case True
  then show ?thesis by (auto simp: Solve_def)
next
  case False
  then have want: "1 \<le> want" "want \<le> pow_Bits" by simp_all
  show ?thesis
  proof (cases "pow_prefix hubAID aid seed")
    case (Inl e)
    then have "e \<noteq> InternalError" by (auto simp: pow_prefix_def split: if_splits)
    then show ?thesis using False Inl by (simp add: Solve_def)
  next
    case (Inr pre)
    note check = Check_solves [OF Inr want]
    show ?thesis
    proof (cases "search_result (search_run C pre want procs ops)")
      case None
      then show ?thesis using False Inr by (simp add: Solve_def)
    next
      case (Some r)
      show ?thesis
      proof (cases r)
        case (Inl e)
        then have "e \<noteq> InternalError" using Some by (auto simp: search_result_def split: list.splits if_splits)
        then show ?thesis using False Inr Some Inl using \<open>pow_prefix hubAID aid seed = Inr pre\<close> by (simp add: Solve_def)
      next
        case n: (Inr nonce)
        obtain c where c: "nonce = be_bytes 8 c" "solves C pre want c" "procs \<le> 1 \<longrightarrow> (\<forall>c' < c. \<not> solves C pre want c')"
          using found_solves Some n by blast
        have "Solve C hubAID aid seed want procs ops = Some (Inr nonce)"
          using False \<open>pow_prefix hubAID aid seed = Inr pre\<close> Some n c check by (simp add: Solve_def)
        moreover have "pow_Check C hubAID aid seed nonce want" using c check by simp
        moreover have "\<exists>c :: u64. nonce = be_bytes 8 c \<and> (\<forall>c' < c. \<not> pow_Check C hubAID aid seed (be_bytes 8 c') want)" if "procs \<le> 1"
          using c that check by (intro exI [of _ c]) simp
        ultimately show ?thesis by simp
      qed
    qed
  qed
qed

text \<open>C34: the check as arithmetic: a nonce of 1 to 32 bytes passes for \<open>want\<close> bits exactly when the hash, read as a number
  of 256 bits, is below \<open>2 ^ (256 - want)\<close>.\<close>

theorem Check_iff:
  assumes "\<And>b. length (sha256 C b) = 32"
  shows "pow_Check C hubAID aid seed nonce want \<longleftrightarrow>
    1 \<le> want \<and> want \<le> 256 \<and> nonce \<noteq> [] \<and> length nonce \<le> 32 \<and> \<not> has_nul hubAID \<and> \<not> has_nul aid
    \<and> be_nat (sha256 C (ascii hashLabel @ [0] @ ascii hubAID @ [0] @ ascii aid @ [0] @ seed @ nonce)) < 2 ^ (256 - nat want)"
proof -
  have "int (zeroBits h) \<ge> want \<longleftrightarrow> be_nat h < 2 ^ (256 - nat want)" if "1 \<le> want" "want \<le> 256" "length h = 32" for h
    using zeroBits_ge [OF that(3), of "nat want"] that(1,2) by (simp add: nat_le_iff)
  then show ?thesis using assms
    by (auto simp: pow_Check_def pow_Hash_def pow_prefix_def MaxNonce_def)
qed

section \<open>Examples\<close>

text \<open>A hash that is all zeros for the nonce 5 only.\<close>

definition demo_pow :: crypto where
  "demo_pow = demo_crypto \<lparr>sha256 := (\<lambda>b. if drop (length b - 8) b = be_bytes 8 (5 :: u64) then replicate 32 0 else replicate 32 255)\<rparr>"

lemma demo_pow_solves: "solves demo_pow pre 22 5"
proof -
  have "22 \<le> zeroBits (replicate 32 0) \<longleftrightarrow> be_nat (replicate 32 0) < 2 ^ (256 - 22)" by (rule zeroBits_ge) simp_all
  moreover have "be_nat (replicate m 0) = 0" for m by (induction m) simp_all
  ultimately show ?thesis by (simp add: solves_def hasher_sum_def demo_pow_def)
qed

theorem search_finishes_witness:
  "\<exists>nonce. search_result (search_run demo_pow [] 22 4 [Work 1, Work 0, Work 1]) = Some (Inr nonce)"
  using search_finishes [OF demo_pow_solves refl, of "[Work 1, Work 0, Work 1]" 4 "[]"] by simp

theorem solve_sound_witness:
  "\<exists>nonce. Solve (demo_crypto \<lparr>sha256 := \<lambda>_. replicate 32 0\<rparr>) ''h'' ''a'' [] 22 1 [Work 0] = Some (Inr nonce)
     \<and> pow_Check (demo_crypto \<lparr>sha256 := \<lambda>_. replicate 32 0\<rparr>) ''h'' ''a'' [] nonce 22"
proof -
  let ?C = "demo_crypto \<lparr>sha256 := \<lambda>_. replicate 32 0\<rparr>"
  have z: "be_nat (replicate m 0) = 0" for m by (induction m) simp_all
  have "22 \<le> zeroBits (replicate 32 0)" using zeroBits_ge [of "replicate 32 0" 22] z by simp
  then have s: "solves ?C pre 22 c" for pre c by (simp add: solves_def hasher_sum_def)
  have "search_result (search_run ?C pre 22 1 [Work 0]) = Some (Inr (be_bytes 8 (0 :: u64)))" for pre
    by (simp add: search_run_def search_init_def search_result_def work_def s Let_def)
  then have "Solve ?C ''h'' ''a'' [] 22 1 [Work 0] = Some (Inr (be_bytes 8 (0 :: u64))) \<or> Solve ?C ''h'' ''a'' [] 22 1 [Work 0] = Some (Inl InternalError)"
    by (simp add: Solve_def pow_Bits_def pow_prefix_def has_nul_def)
  then show ?thesis using solve_sound [of ?C "''h''" "''a''" "[]" 22 1 "[Work 0]"] by blast
qed

theorem Check_iff_witness:
  "pow_Check demo_pow ''h'' ''a'' [] (be_bytes 8 (5 :: u64)) 22 \<and> \<not> pow_Check demo_pow ''h'' ''a'' [] (be_bytes 8 (5 :: u64)) 257"
proof -
  have l: "length (sha256 demo_pow b) = 32" for b by (simp add: demo_pow_def)
  have z: "be_nat (replicate m 0) = 0" for m by (induction m) simp_all
  have "length (be_bytes 8 (5 :: u64)) = 8" by simp
  then have ne: "be_bytes 8 (5 :: u64) \<noteq> []" and "drop (length (p @ be_bytes 8 (5 :: u64)) - 8) (p @ be_bytes 8 (5 :: u64)) = be_bytes 8 (5 :: u64)" for p by (simp_all flip: length_greater_0_conv)
  then have "sha256 demo_pow (p @ be_bytes 8 (5 :: u64)) = replicate 32 0" for p by (simp add: demo_pow_def)
  from this [of "ascii hashLabel @ [0] @ ascii ''h'' @ [0] @ ascii ''a'' @ [0]"] show ?thesis
    using Check_iff [OF l, of "''h''" "''a''" "[]" "be_bytes 8 (5 :: u64)" 22] Check_iff [OF l, of "''h''" "''a''" "[]" "be_bytes 8 (5 :: u64)" 257] z ne
    by (simp add: has_nul_def)
qed

end
