(* ===== verification/Mono_Clock.thy ===== *)
theory Mono_Clock
  imports Payment
begin

text \<open>
  The timestamps a client puts on signed hub requests (\<open>relayauth/monoclock.go\<close>): a counter per target hub that moves
  with the clock and past what a hub says it has seen. An \<open>int64\<close> is a \<open>64 word\<close> read by \<open>sint\<close>.
\<close>

definition MaxSkewMillis :: int where "MaxSkewMillis = 5 * 60 * 1000"
definition FloorClampMillis :: int where "FloorClampMillis = 60 * 1000"
definition MaxInt64 :: int where "MaxInt64 = 9223372036854775807"

type_synonym mono_clock = "string \<rightharpoonup> i64"

definition Next :: "mono_clock \<Rightarrow> string \<Rightarrow> i64 \<Rightarrow> mono_clock \<times> i64" where
  "Next c target now =
     (let ts = (case c target of
                  None \<Rightarrow> now
                | Some l \<Rightarrow> if sint l \<ge> sint now then (if sint l < MaxInt64 then l + 1 else l) else now)
      in (c(target \<mapsto> ts), ts))"

definition raise_limit :: "i64 \<Rightarrow> i64" where
  "raise_limit now =
     (if sint now \<le> MaxInt64 - (MaxSkewMillis - FloorClampMillis) then now + word_of_int (MaxSkewMillis - FloorClampMillis)
      else word_of_int MaxInt64)"

definition Raise :: "mono_clock \<Rightarrow> string \<Rightarrow> i64 \<Rightarrow> i64 \<Rightarrow> mono_clock \<times> bool" where
  "Raise c target floor now =
     (if sint floor > sint (raise_limit now) then (c, False)
      else (case c target of
              None \<Rightarrow> c(target \<mapsto> floor)
            | Some l \<Rightarrow> if sint floor > sint l then c(target \<mapsto> floor) else c, True))"

section \<open>Runs\<close>

text \<open>A use of the clock is some sequence of the two operations, each under the lock throughout.\<close>

datatype clock_op = NextOp string i64 | RaiseOp string i64 i64

fun op_target :: "clock_op \<Rightarrow> string" where
  "op_target (NextOp t now) = t"
| "op_target (RaiseOp t fl now) = t"

fun op_now :: "clock_op \<Rightarrow> i64" where
  "op_now (NextOp t now) = now"
| "op_now (RaiseOp t fl now) = now"

text \<open>\<open>stamps c t ops\<close> are the timestamps handed out for target \<open>t\<close>, in order.\<close>

fun stamps :: "mono_clock \<Rightarrow> string \<Rightarrow> clock_op list \<Rightarrow> i64 list" where
  "stamps c t [] = []"
| "stamps c t (NextOp u now # ops) =
     (if u = t then snd (Next c u now) # stamps (fst (Next c u now)) t ops else stamps (fst (Next c u now)) t ops)"
| "stamps c t (RaiseOp u fl now # ops) = stamps (fst (Raise c u fl now)) t ops"

lemma sint_range: "- 9223372036854775808 \<le> sint (x :: i64)" "sint (x :: i64) \<le> MaxInt64"
  using sint_greater_eq [of x] sint_less [of x] by (simp_all add: MaxInt64_def)

lemma sint_of_range: "- 9223372036854775808 \<le> k \<Longrightarrow> k \<le> MaxInt64 \<Longrightarrow> sint (word_of_int k :: i64) = k"
  by (simp add: sint_sbintrunc' signed_take_bit_int_eq_self MaxInt64_def)

lemma sint_plus:
  fixes a :: i64
  assumes "0 \<le> k" and "sint a + k \<le> MaxInt64"
  shows "sint (a + word_of_int k) = sint a + k"
proof -
  have "a + word_of_int k = word_of_int (sint a + k)" by (simp add: wi_hom_add [symmetric])
  then show ?thesis using assms sint_range(1) [of a] sint_of_range [of "sint a + k"] by simp
qed

lemma sint_plus_1: "sint (a :: i64) < MaxInt64 \<Longrightarrow> sint (a + 1) = sint a + 1"
  using sint_plus [of 1 a] by simp

lemma sint_raise_limit: "sint (raise_limit now) = min MaxInt64 (sint now + 240000)"
proof (cases "sint now \<le> MaxInt64 - 240000")
  case True
  then have "sint (now + word_of_int 240000) = sint now + 240000" by (intro sint_plus) simp_all
  then show ?thesis using True by (simp add: raise_limit_def MaxSkewMillis_def FloorClampMillis_def)
next
  case False
  have "sint (word_of_int MaxInt64 :: i64) = MaxInt64" by (rule sint_of_range) (simp_all add: MaxInt64_def)
  then show ?thesis using False by (simp add: raise_limit_def MaxSkewMillis_def FloorClampMillis_def)
qed

text \<open>\<open>later l x\<close>: a stamp after \<open>l\<close>; the last representable time is handed out again when it is reached.\<close>

definition later :: "i64 \<Rightarrow> i64 \<Rightarrow> bool" where
  "later l x \<longleftrightarrow> sint l < sint x \<or> sint x = MaxInt64"

definition after :: "mono_clock \<Rightarrow> string \<Rightarrow> i64 \<Rightarrow> bool" where
  "after c t x \<longleftrightarrow> (case c t of None \<Rightarrow> True | Some l \<Rightarrow> later l x)"

lemma Next_later:
  "sint now \<le> sint (snd (Next c t now))" "after c t (snd (Next c t now))"
  "fst (Next c t now) = c(t \<mapsto> snd (Next c t now))"
proof -
  show "fst (Next c t now) = c(t \<mapsto> snd (Next c t now))" by (simp add: Next_def Let_def)
  have "sint now \<le> sint (snd (Next c t now)) \<and> after c t (snd (Next c t now))"
  proof (cases "c t")
    case (Some l)
    then show ?thesis using sint_plus_1 [of l] sint_range [of l] sint_range [of now]
      by (auto simp: Next_def Let_def after_def later_def)
  qed (simp add: Next_def after_def)
  then show "sint now \<le> sint (snd (Next c t now))" "after c t (snd (Next c t now))" by simp_all
qed

lemma Raise_effect:
  "u \<noteq> t \<Longrightarrow> fst (Raise c u fl now) t = c t"
  "after (fst (Raise c t fl now)) t x \<Longrightarrow> after c t x"
  by (auto simp: Raise_def after_def later_def split: option.splits if_splits)

lemma after_later: "c t = Some l \<Longrightarrow> after c t x \<longleftrightarrow> later l x"
  by (simp add: after_def)

lemma stamps_sorted: "(\<forall>x \<in> set (stamps c t ops). after c t x) \<and> sorted_wrt later (stamps c t ops)"
proof (induction c t ops rule: stamps.induct)
  case (2 c t u now ops)
  define x where "x = snd (Next c u now)"
  have f: "fst (Next c u now) = c(u \<mapsto> x)" using Next_later(3) by (simp add: x_def)
  have a: "after c u x" using Next_later(2) by (simp add: x_def)
  show ?case
  proof (cases "u = t")
    case True
    then have ih: "\<forall>y \<in> set (stamps (c(t \<mapsto> x)) t ops). later x y" "sorted_wrt later (stamps (c(t \<mapsto> x)) t ops)"
      using 2 f by (auto simp: after_def)
    have trans: "after c t y" if "later x y" for y
      using a that True sint_range [of y] by (auto simp: after_def later_def split: option.splits)
    have "stamps c t (NextOp u now # ops) = x # stamps (c(t \<mapsto> x)) t ops" using True f by (simp add: x_def)
    then show ?thesis using True ih a trans by auto
  next
    case False
    have "after (c(u \<mapsto> x)) t y = after c t y" for y using False by (simp add: after_def)
    then show ?thesis using 2(2) [OF False, unfolded f] False f by (simp add: fun_upd_def)
  qed
next
  case (3 c t u fl now ops)
  then show ?case using Raise_effect(1) [of u t c fl now] Raise_effect(2) [of c t fl now]
    by (cases "u = t") (auto simp: after_def)
qed simp

lemma stamps_local: "c t = c' t \<Longrightarrow> stamps c t ops = stamps c' t (filter (\<lambda>x. op_target x = t) ops)"
proof (induction ops arbitrary: c c')
  case (Cons x ops)
  show ?case
  proof (cases x)
    case (NextOp u now)
    show ?thesis
    proof (cases "u = t")
      case True
      then have e: "snd (Next c t now) = snd (Next c' t now)" using Cons.prems by (simp add: Next_def Let_def)
      then have "fst (Next c t now) t = fst (Next c' t now) t" by (simp add: Next_later(3))
      with Cons.IH [of "fst (Next c t now)" "fst (Next c' t now)"] show ?thesis using NextOp True e by simp
    next
      case False
      then have "fst (Next c u now) t = c' t" using Cons.prems by (simp add: Next_later(3))
      with Cons.IH [of "fst (Next c u now)" c'] show ?thesis using NextOp False by simp
    qed
  next
    case (RaiseOp u fl now)
    show ?thesis
    proof (cases "u = t")
      case True
      then have "fst (Raise c t fl now) t = fst (Raise c' t fl now) t"
        using Cons.prems by (simp add: Raise_def split: option.splits)
      with Cons.IH [of "fst (Raise c t fl now)" "fst (Raise c' t fl now)"] show ?thesis using RaiseOp True by simp
    next
      case False
      then have "fst (Raise c u fl now) t = c' t" using Cons.prems Raise_effect(1) [OF False] by simp
      with Cons.IH [of "fst (Raise c u fl now)" c'] show ?thesis using RaiseOp False by simp
    qed
  qed
qed simp

text \<open>The timestamps for one hub strictly increase (the last representable one repeats when it is reached), whatever the
  clock does and whatever the hubs answer; and they depend on the operations for that hub alone.\<close>

theorem clock_increases:
  "sorted_wrt later (stamps c t ops) \<and> stamps c t ops = stamps (Map.empty(t := c t)) t (filter (\<lambda>x. op_target x = t) ops)"
  using stamps_sorted stamps_local [of c t "Map.empty(t := c t)" ops] by simp

text \<open>How far a stamp can be ahead of the clock: four minutes, and one millisecond for each request.\<close>

definition within :: "mono_clock \<Rightarrow> string \<Rightarrow> int \<Rightarrow> bool" where
  "within c t b \<longleftrightarrow> (case c t of None \<Rightarrow> True | Some l \<Rightarrow> sint l \<le> b)"

lemma stamps_bounded:
  assumes "\<forall>x \<in> set ops. sint (op_now x) \<le> now" and "within c t b" and "now + 240000 \<le> b"
  shows "\<forall>x \<in> set (stamps c t ops). sint x \<le> b + int (length (stamps c t ops))"
  using assms
proof (induction c t ops arbitrary: b rule: stamps.induct)
  case (2 c t u n ops)
  define x where "x = snd (Next c u n)"
  have f: "fst (Next c u n) = c(u \<mapsto> x)" using Next_later(3) by (simp add: x_def)
  show ?case
  proof (cases "u = t")
    case True
    have x: "sint x \<le> b + 1"
      using 2(3-5) True sint_plus_1 [of "the (c t)"] by (auto simp: x_def Next_def Let_def within_def split: option.splits)
    have "\<forall>y \<in> set (stamps (c(t \<mapsto> x)) t ops). sint y \<le> b + 1 + int (length (stamps (c(t \<mapsto> x)) t ops))"
      using 2(1) [OF True, of "b + 1"] 2(3,5) x f True by (simp add: within_def)
    moreover have "stamps c t (NextOp u n # ops) = x # stamps (c(t \<mapsto> x)) t ops" using True f by (simp add: x_def)
    ultimately show ?thesis using x by auto
  next
    case False
    have "within (c(u \<mapsto> x)) t b" using 2(4) False by (simp add: within_def)
    then show ?thesis using 2(2) [OF False, of b, unfolded f] 2(3,5) False f by (simp add: fun_upd_def)
  qed
next
  case (3 c t u fl n ops)
  have "within (fst (Raise c u fl n)) t b"
  proof (cases "u = t")
    case True
    then show ?thesis using 3(2-4) by (auto simp: Raise_def within_def sint_raise_limit split: option.splits if_splits)
  qed (use 3(3) Raise_effect(1) in \<open>simp add: within_def\<close>)
  then show ?case using 3 by simp
qed simp

text \<open>C37: a hub cannot push a client's timestamps out of the window every hub accepts. While the local clock is at most
  \<open>now\<close>, every stamp for a target the clock has not seen is at most \<open>now\<close> plus four minutes plus one millisecond for
  each request to it, whatever floors the hubs claim.\<close>

theorem clock_bounded:
  assumes "\<forall>x \<in> set ops. sint (op_now x) \<le> now" and "c t = None" and "x \<in> set (stamps c t ops)"
  shows "sint x \<le> now + (MaxSkewMillis - FloorClampMillis) + int (length (stamps c t ops))"
  using stamps_bounded [OF assms(1), of c t "now + 240000"] assms(2,3)
  by (simp add: within_def MaxSkewMillis_def FloorClampMillis_def)

theorem clock_bounded_witness:
  "sint (7 :: i64) \<le> 6 + (MaxSkewMillis - FloorClampMillis)
    + int (length (stamps Map.empty ''h'' [RaiseOp ''h'' 6 5, NextOp ''h'' 5]))"
proof (rule clock_bounded)
  show "(7 :: i64) \<in> set (stamps Map.empty ''h'' [RaiseOp ''h'' 6 5, NextOp ''h'' 5])"
    by (simp add: Raise_def Next_def Let_def sint_raise_limit MaxInt64_def)
qed simp_all

end
