(* ===== verification/Relay_Auth.thy ===== *)
theory Relay_Auth
  imports Mono_Clock Evidence_Commit Base64
begin

text \<open>
  What a client signs or MACs to authenticate a hub request (\<open>relayauth/relayauth.go\<close>, \<open>relayauth/session.go\<close>): the
  preimage of a signed request, the MAC of a session send, the sealed session key and the header encodings. HPKE is a
  parameter; \<open>strconv.FormatUint\<close> is \<open>decimal\<close>, SHA-256 the function of the \<open>crypto\<close> record.
\<close>

section \<open>Actions\<close>

definition validActions :: "string list" where
  "validActions =
     [''poll'', ''ack'', ''register'', ''profile'', ''visibility'', ''deregister'', ''balance'', ''ledger'',
      ''redemptions'', ''keys'', ''session'', ''revoke'', ''review'', ''liab_proof'', ''fed_forward'', ''fed_bucket'',
      ''fed_status'', ''fed_cards'', ''fed_settle'', ''fed_reviews'', ''fed_clear'']"

definition ValidAction :: "string \<Rightarrow> bool" where
  "ValidAction action \<longleftrightarrow> action \<in> set validActions"

section \<open>The signed request\<close>

definition escape_char :: "char \<Rightarrow> string" where
  "escape_char c = (if c = CHR ''%'' then ''%25'' else if c = CHR ''/'' then ''%2F'' else [c])"

definition escapeField :: "string \<Rightarrow> string" where
  "escapeField s =
     (if \<not> list_ex (\<lambda>c. c = CHR ''/'' \<or> c = CHR ''%'') s then s else concat (map escape_char s))"

record request =
  rq_action :: string
  rq_aid :: string
  rq_hub :: string
  rq_ts :: u64
  rq_method :: string
  rq_target :: string
  rq_body :: bytes

definition request_digest_input :: "request \<Rightarrow> bytes" where
  "request_digest_input r = ascii (rq_method r) @ [0] @ ascii (rq_target r) @ [0] @ rq_body r"

definition PreimageV2 :: "crypto \<Rightarrow> request \<Rightarrow> bytes" where
  "PreimageV2 C r =
     ascii (''anet-relay/v2/'' @ escapeField (rq_action r) @ ''/'' @ escapeField (rq_aid r) @ ''/'' @ escapeField (rq_hub r)
       @ ''/'' @ decimal (unat (rq_ts r)) @ ''/'' @ b64_encode (sha256 C (request_digest_input r)))"

section \<open>Header values\<close>

datatype relay_err = BadSig | SessionNUL | SessionInput | SessionKeyErr | SessionMACErr | SealFailed | BadSessionHeader

definition SessionIDLen :: nat where "SessionIDLen = 16"
definition SessionKeyLen :: nat where "SessionKeyLen = 32"
definition SessionMACLen :: nat where "SessionMACLen = 32"
definition SessionPublicKeyLen :: nat where "SessionPublicKeyLen = 32"
definition sessionEncLen :: nat where "sessionEncLen = 32"
definition sessionCTLen :: nat where "sessionCTLen = SessionKeyLen + 16"

text \<open>\<open>base64.Encoding.EncodedLen\<close> without padding.\<close>

definition EncodedLen :: "nat \<Rightarrow> nat" where
  "EncodedLen n = n div 3 * 4 + (n mod 3 * 8 + 5) div 6"

definition EncodeSig :: "bytes \<Rightarrow> string" where
  "EncodeSig sig = b64_encode sig"

definition DecodeSig :: "string \<Rightarrow> relay_err + bytes" where
  "DecodeSig s =
     (if length s \<noteq> EncodedLen 64 then Inl BadSig
      else case b64_decode s of
        None \<Rightarrow> Inl BadSig
      | Some b \<Rightarrow> if length b \<noteq> 64 then Inl BadSig else Inr b)"

definition relay_decodeExact :: "string \<Rightarrow> nat \<Rightarrow> nat \<Rightarrow> relay_err + bytes" where
  "relay_decodeExact s encodedLen n =
     (if length s \<noteq> encodedLen then Inl BadSessionHeader
      else case b64_decode s of
        None \<Rightarrow> Inl BadSessionHeader
      | Some b \<Rightarrow> if length b \<noteq> n then Inl BadSessionHeader else Inr b)"

definition EncodeSessionID :: "bytes \<Rightarrow> string" where "EncodeSessionID sid = b64_encode sid"
definition DecodeSessionID :: "string \<Rightarrow> relay_err + bytes" where
  "DecodeSessionID s = relay_decodeExact s (EncodedLen SessionIDLen) SessionIDLen"
definition EncodeMAC :: "bytes \<Rightarrow> string" where "EncodeMAC mac = b64_encode mac"
definition DecodeMAC :: "string \<Rightarrow> relay_err + bytes" where
  "DecodeMAC s = relay_decodeExact s (EncodedLen SessionMACLen) SessionMACLen"

section \<open>The session key\<close>

definition sessionKeyLabel :: string where "sessionKeyLabel = ''anet-sess-key/v1''"
definition sessionMACLabel :: string where "sessionMACLabel = ''anet-sess-mac/v1''"

text \<open>
  The HPKE suite: which 32 bytes are usable public keys, what a sender draws and writes, and what a recipient opens.
  \<open>hp_sender\<close> takes the randomness of the encapsulation and gives the encapsulated key and the sealing function.
\<close>

record hpke =
  hp_public :: "bytes \<Rightarrow> bool"
  hp_sender :: "bytes \<Rightarrow> bytes \<Rightarrow> bytes \<Rightarrow> (bytes \<times> (bytes \<Rightarrow> bytes \<Rightarrow> bytes option)) option"
  hp_private :: "bytes \<Rightarrow> bool"
  hp_recipient :: "bytes \<Rightarrow> bytes \<Rightarrow> bytes \<Rightarrow> (bytes \<Rightarrow> bytes \<Rightarrow> bytes option) option"

record ecdh_key =
  ek_x25519 :: bool
  ek_secret :: bytes

definition sessionKeyInfo :: "string \<Rightarrow> bytes \<Rightarrow> relay_err + bytes" where
  "sessionKeyInfo hubAID sid =
     (if hubAID = [] then Inl SessionInput
      else if has_nul hubAID then Inl SessionNUL
      else if length sid \<noteq> SessionIDLen then Inl SessionInput
      else Inr (ascii sessionKeyLabel @ [0] @ ascii hubAID @ [0] @ sid))"

definition SealSessionKey :: "hpke \<Rightarrow> bytes \<Rightarrow> bytes \<Rightarrow> string \<Rightarrow> bytes \<Rightarrow> bytes \<Rightarrow> relay_err + (bytes \<times> bytes)" where
  "SealSessionKey H rnd epk hubAID sid k =
     (if length epk \<noteq> SessionPublicKeyLen then Inl SessionInput
      else if length k \<noteq> SessionKeyLen then Inl SessionInput
      else ebind (sessionKeyInfo hubAID sid) (\<lambda>info.
        if \<not> hp_public H epk then Inl SessionInput
        else case hp_sender H rnd epk info of
          None \<Rightarrow> Inl SessionInput
        | Some (enc, seal) \<Rightarrow>
            (case seal [] k of None \<Rightarrow> Inl SealFailed | Some ct \<Rightarrow> Inr (enc, ct))))"

definition OpenSessionKey :: "hpke \<Rightarrow> ecdh_key option \<Rightarrow> string \<Rightarrow> bytes \<Rightarrow> bytes \<Rightarrow> bytes \<Rightarrow> relay_err + bytes" where
  "OpenSessionKey H esk hubAID sid enc ct =
     (case esk of
        None \<Rightarrow> Inl SessionInput
      | Some key \<Rightarrow>
        if \<not> ek_x25519 key then Inl SessionInput
        else ebind (sessionKeyInfo hubAID sid) (\<lambda>info.
          if length enc \<noteq> sessionEncLen \<or> length ct \<noteq> sessionCTLen then Inl SessionKeyErr
          else if \<not> hp_private H (ek_secret key) then Inl SessionInput
          else case hp_recipient H enc (ek_secret key) info of
            None \<Rightarrow> Inl SessionKeyErr
          | Some opn \<Rightarrow>
              (case opn [] ct of
                 None \<Rightarrow> Inl SessionKeyErr
               | Some k \<Rightarrow> if length k \<noteq> SessionKeyLen then Inl SessionKeyErr else Inr k)))"

section \<open>The session MAC\<close>

record session_send =
  sd_sid :: bytes
  sd_ts :: u64
  sd_method :: string
  sd_target :: string
  sd_home :: string
  sd_body :: bytes

definition sessionMACInput :: "crypto \<Rightarrow> session_send \<Rightarrow> relay_err + bytes" where
  "sessionMACInput C s =
     (if length (sd_sid s) \<noteq> SessionIDLen then Inl SessionInput
      else if list_ex has_nul [sd_method s, sd_target s, sd_home s] then Inl SessionNUL
      else Inr (ascii sessionMACLabel @ [0] @ sd_sid s @ [0] @ ascii (decimal (unat (sd_ts s))) @ [0] @ ascii (sd_method s)
        @ [0] @ ascii (sd_target s) @ [0] @ ascii (sd_home s) @ [0] @ sha256 C (sd_body s)))"

definition SessionMAC :: "crypto \<Rightarrow> bytes \<Rightarrow> session_send \<Rightarrow> relay_err + bytes" where
  "SessionMAC C k s =
     (if length k \<noteq> SessionKeyLen then Inl SessionInput
      else ebind (sessionMACInput C s) (\<lambda>inp. Inr (hmac_sha256 C k inp)))"

definition VerifySessionMAC :: "crypto \<Rightarrow> bytes \<Rightarrow> session_send \<Rightarrow> bytes \<Rightarrow> relay_err + unit" where
  "VerifySessionMAC C k s mac =
     ebind (SessionMAC C k s) (\<lambda>want. if want \<noteq> mac then Inl SessionMACErr else Inr ())"

section \<open>A signature covers the whole request\<close>

lemma escape_chars: "concat (map escape_char s) = concat (map escape_char t) \<Longrightarrow> s = t"
proof (induction s arbitrary: t)
  case Nil
  then show ?case by (cases t) (auto simp: escape_char_def split: if_splits)
next
  case (Cons c s)
  then show ?case by (cases t) (auto simp: escape_char_def split: if_splits)
qed

lemma escapeField_chars: "escapeField s = concat (map escape_char s)"
proof (cases "list_ex (\<lambda>c. c = CHR ''/'' \<or> c = CHR ''%'') s")
  case False
  then have "concat (map escape_char s) = s" by (induction s) (auto simp: escape_char_def)
  then show ?thesis using False by (simp add: escapeField_def)
qed (simp add: escapeField_def)

lemma escapeField_inj: "escapeField s = escapeField t \<longleftrightarrow> s = t"
  using escape_chars by (auto simp: escapeField_chars)

lemma escapeField_slash: "CHR ''/'' \<notin> set (escapeField s)"
  by (auto simp: escapeField_chars escape_char_def split: if_splits)

text \<open>The escape leaves every action as it is.\<close>

lemma escape_action: "ValidAction a \<Longrightarrow> escapeField a = a"
  unfolding ValidAction_def validActions_def by (auto simp: escapeField_def)

lemma decimal_inj: "decimal m = decimal n \<longleftrightarrow> m = n"
  using decimal_digits by metis

lemma decimal_no: "\<not> is_digit c \<Longrightarrow> c \<notin> set (decimal n)"
  using decimal_digits [of n] by (auto simp: list_all_iff)

lemma b64_encode_inj: "b64_encode a = b64_encode b \<longleftrightarrow> a = b"
  by (metis b64_decode_ok b64_newline_free option.inject)

lemma slash_fields:
  assumes "a @ CHR ''/'' # r = b @ CHR ''/'' # s" and "CHR ''/'' \<notin> set a" and "CHR ''/'' \<notin> set b"
  shows "a = b \<and> r = s"
  using assms by (rule separator_unique)

lemma request_fields:
  assumes "PreimageV2 C r = PreimageV2 C s"
  shows "rq_action r = rq_action s \<and> rq_aid r = rq_aid s \<and> rq_hub r = rq_hub s \<and> rq_ts r = rq_ts s
    \<and> sha256 C (request_digest_input r) = sha256 C (request_digest_input s)"
proof -
  have d: "CHR ''/'' \<notin> set (decimal n)" for n by (rule decimal_no) (simp add: is_digit_def)
  note e = escapeField_slash
  have a: "escapeField (rq_action r) = escapeField (rq_action s)"
    and 1: "escapeField (rq_aid r) @ CHR ''/'' # escapeField (rq_hub r) @ CHR ''/'' # decimal (unat (rq_ts r)) @ CHR ''/'' # b64_encode (sha256 C (request_digest_input r))
      = escapeField (rq_aid s) @ CHR ''/'' # escapeField (rq_hub s) @ CHR ''/'' # decimal (unat (rq_ts s)) @ CHR ''/'' # b64_encode (sha256 C (request_digest_input s))"
    using assms slash_fields [OF _ e e] by (auto simp: PreimageV2_def)
  from slash_fields [OF 1 e e] have b: "escapeField (rq_aid r) = escapeField (rq_aid s)"
    and 2: "escapeField (rq_hub r) @ CHR ''/'' # decimal (unat (rq_ts r)) @ CHR ''/'' # b64_encode (sha256 C (request_digest_input r))
      = escapeField (rq_hub s) @ CHR ''/'' # decimal (unat (rq_ts s)) @ CHR ''/'' # b64_encode (sha256 C (request_digest_input s))"
    by auto
  from slash_fields [OF 2 e e] have c: "escapeField (rq_hub r) = escapeField (rq_hub s)"
    and 3: "decimal (unat (rq_ts r)) @ CHR ''/'' # b64_encode (sha256 C (request_digest_input r))
      = decimal (unat (rq_ts s)) @ CHR ''/'' # b64_encode (sha256 C (request_digest_input s))"
    by auto
  from slash_fields [OF 3 d d] show ?thesis
    using a b c by (simp add: escapeField_inj decimal_inj b64_encode_inj flip: word_unat_eq_iff)
qed

text \<open>C35: a request signature covers every part of the request. Requests with one preimage agree in action, signer, hub
  and time, whatever those strings hold; and absent a SHA-256 collision between the two digest inputs, in method, target
  and body too when method and target are free of zero bytes, which \<open>PreimageV2\<close> does not check: with them, a zero byte may
  stand for the separator and two requests share a preimage.\<close>

theorem preimage_binds:
  assumes "PreimageV2 C r = PreimageV2 C s"
  shows "(rq_action r, rq_aid r, rq_hub r, rq_ts r) = (rq_action s, rq_aid s, rq_hub s, rq_ts s)
    \<and> (inj_on (sha256 C) {request_digest_input r, request_digest_input s}
        \<and> list_all (\<lambda>x. \<not> has_nul x) [rq_method r, rq_target r, rq_method s, rq_target s] \<longrightarrow> r = s)"
proof -
  have "r = s" if inj: "inj_on (sha256 C) {request_digest_input r, request_digest_input s}"
    and nul: "\<not> has_nul (rq_method r)" "\<not> has_nul (rq_target r)" "\<not> has_nul (rq_method s)" "\<not> has_nul (rq_target s)"
  proof -
    have "request_digest_input r = request_digest_input s" using request_fields [OF assms] inj by (auto dest: inj_onD)
    then have 0: "ascii (rq_method r) @ 0 # (ascii (rq_target r) @ 0 # rq_body r) = ascii (rq_method s) @ 0 # (ascii (rq_target s) @ 0 # rq_body s)"
      by (simp add: request_digest_input_def)
    from ascii_zero_unique [OF this nul(1,3)] have m: "rq_method r = rq_method s"
      and 1: "ascii (rq_target r) @ 0 # rq_body r = ascii (rq_target s) @ 0 # rq_body s" by auto
    from ascii_zero_unique [OF 1 nul(2,4)] show ?thesis using m request_fields [OF assms] by (simp add: request.equality)
  qed
  then show ?thesis using request_fields [OF assms] by simp
qed

theorem preimage_binds_witness:
  "let r = \<lparr>rq_action = ''a/b'', rq_aid = ''c'', rq_hub = ''h'', rq_ts = 7, rq_method = ''GET'', rq_target = ''/x'', rq_body = [1]\<rparr>
   in PreimageV2 demo_crypto r \<noteq> PreimageV2 demo_crypto (r \<lparr>rq_action := ''a'', rq_aid := ''b/c''\<rparr>)
     \<and> PreimageV2 demo_crypto r \<noteq> PreimageV2 demo_crypto (r \<lparr>rq_body := []\<rparr>)"
proof -
  let ?r = "\<lparr>rq_action = ''a/b'', rq_aid = ''c'', rq_hub = ''h'', rq_ts = 7, rq_method = ''GET'', rq_target = ''/x'', rq_body = [1]\<rparr>"
  have "inj_on (sha256 demo_crypto) S" for S by (simp add: inj_on_def)
  then show ?thesis
    using preimage_binds [of demo_crypto ?r "?r \<lparr>rq_action := ''a'', rq_aid := ''b/c''\<rparr>"] preimage_binds [of demo_crypto ?r "?r \<lparr>rq_body := []\<rparr>"]
    by (auto simp: has_nul_def Let_def)
qed

section \<open>Header values have one spelling\<close>

lemma encoded_length: "length (b64_encode b) = EncodedLen (length b)"
proof -
  have "8 * length b = 24 * (length b div 3) + 8 * (length b mod 3)" using div_mult_mod_eq [of "length b" 3] by linarith
  then have "(8 * length b + 5) div 6 = (8 * (length b mod 3) + 5 + 6 * (4 * (length b div 3))) div 6" by (simp add: algebra_simps)
  also have "\<dots> = 4 * (length b div 3) + (8 * (length b mod 3) + 5) div 6" by simp
  finally show ?thesis by (simp add: length_b64_encode EncodedLen_def mult.commute)
qed

lemma exact_decode:
  "length s = EncodedLen n \<and> b64_decode s = Some b \<and> length b = n \<longleftrightarrow> length b = n \<and> s = b64_encode b"
  using encoded_length [of b] length_b64_encode [of b] b64_decode_length [of s b] b64_newline_free [of b] by (auto simp: b64_decode_ok)

lemma relay_decodeExact_ok: "relay_decodeExact s (EncodedLen n) n = Inr b \<longleftrightarrow> length b = n \<and> s = b64_encode b"
  using exact_decode [of s n b] by (auto simp: relay_decodeExact_def split: option.splits)

text \<open>A signature, a session id and a MAC each have one accepted header value, the one their encoder writes, and it holds
  64, 16 and 32 bytes.\<close>

theorem headers_one_spelling:
  "(DecodeSig s = Inr b \<longleftrightarrow> length b = 64 \<and> s = EncodeSig b)
   \<and> (DecodeSessionID s = Inr b \<longleftrightarrow> length b = 16 \<and> s = EncodeSessionID b)
   \<and> (DecodeMAC s = Inr b \<longleftrightarrow> length b = 32 \<and> s = EncodeMAC b)"
  using exact_decode [of s 64 b]
  by (auto simp: DecodeSig_def EncodeSig_def DecodeSessionID_def EncodeSessionID_def DecodeMAC_def EncodeMAC_def
      relay_decodeExact_ok SessionIDLen_def SessionMACLen_def split: option.splits)

section \<open>A session MAC covers the whole send\<close>

lemma nul_in_decimal: "\<not> has_nul (decimal n)"
proof -
  have "CHR 0x00 \<notin> set (decimal n)" by (rule decimal_no) (simp add: is_digit_def)
  then show ?thesis by (simp add: has_nul_def)
qed

lemma sessionMACInput_ok:
  "sessionMACInput C s = Inr b \<longleftrightarrow> length (sd_sid s) = 16 \<and> \<not> has_nul (sd_method s) \<and> \<not> has_nul (sd_target s) \<and> \<not> has_nul (sd_home s)
    \<and> b = ascii sessionMACLabel @ [0] @ sd_sid s @ [0] @ ascii (decimal (unat (sd_ts s))) @ [0] @ ascii (sd_method s)
        @ [0] @ ascii (sd_target s) @ [0] @ ascii (sd_home s) @ [0] @ sha256 C (sd_body s)"
  by (auto simp: sessionMACInput_def SessionIDLen_def)

lemma mac_input_binds:
  assumes "sessionMACInput C s = Inr b" and "sessionMACInput C t = Inr b" and "inj_on (sha256 C) {sd_body s, sd_body t}"
  shows "s = t"
proof -
  have nul: "\<not> has_nul (sd_method s)" "\<not> has_nul (sd_target s)" "\<not> has_nul (sd_home s)"
      "\<not> has_nul (sd_method t)" "\<not> has_nul (sd_target t)" "\<not> has_nul (sd_home t)"
    and l: "length (sd_sid s) = length (sd_sid t)"
    using assms(1,2) by (simp_all add: sessionMACInput_ok)
  note d = nul_in_decimal
  have 0: "sd_sid s = sd_sid t"
    and 1: "ascii (decimal (unat (sd_ts s))) @ 0 # ascii (sd_method s) @ 0 # ascii (sd_target s) @ 0 # ascii (sd_home s) @ 0 # sha256 C (sd_body s)
      = ascii (decimal (unat (sd_ts t))) @ 0 # ascii (sd_method t) @ 0 # ascii (sd_target t) @ 0 # ascii (sd_home t) @ 0 # sha256 C (sd_body t)"
    using assms(1,2) l by (auto simp: sessionMACInput_ok)
  from ascii_zero_unique [OF 1 d d] have a: "unat (sd_ts s) = unat (sd_ts t)"
    and 2: "ascii (sd_method s) @ 0 # ascii (sd_target s) @ 0 # ascii (sd_home s) @ 0 # sha256 C (sd_body s)
      = ascii (sd_method t) @ 0 # ascii (sd_target t) @ 0 # ascii (sd_home t) @ 0 # sha256 C (sd_body t)"
    by (auto simp: decimal_inj)
  from ascii_zero_unique [OF 2 nul(1,4)] have b: "sd_method s = sd_method t"
    and 3: "ascii (sd_target s) @ 0 # ascii (sd_home s) @ 0 # sha256 C (sd_body s) = ascii (sd_target t) @ 0 # ascii (sd_home t) @ 0 # sha256 C (sd_body t)"
    by auto
  from ascii_zero_unique [OF 3 nul(2,5)] have c: "sd_target s = sd_target t"
    and 4: "ascii (sd_home s) @ 0 # sha256 C (sd_body s) = ascii (sd_home t) @ 0 # sha256 C (sd_body t)"
    by auto
  from ascii_zero_unique [OF 4 nul(3,6)] have "sd_home s = sd_home t" "sha256 C (sd_body s) = sha256 C (sd_body t)" by auto
  moreover from this(2) have "sd_body s = sd_body t" using assms(3) by (auto dest: inj_onD)
  moreover have "sd_ts s = sd_ts t" using a by (simp flip: word_unat_eq_iff)
  ultimately show ?thesis using 0 b c by (simp add: session_send.equality)
qed

text \<open>The two inputs SHA-256 gets inside an HMAC.\<close>

definition hmac_inner :: "crypto \<Rightarrow> bytes \<Rightarrow> bytes \<Rightarrow> bytes" where
  "hmac_inner C k m = map (\<lambda>b. xor b 0x36) (hmac_key C k) @ m"

definition hmac_outer :: "crypto \<Rightarrow> bytes \<Rightarrow> bytes \<Rightarrow> bytes" where
  "hmac_outer C k m = map (\<lambda>b. xor b 0x5C) (hmac_key C k) @ sha256 C (hmac_inner C k m)"

lemma hmac_binds:
  assumes "hmac_sha256 C k m = hmac_sha256 C k m'"
    and "inj_on (sha256 C) {hmac_outer C k m, hmac_outer C k m', hmac_inner C k m, hmac_inner C k m'}"
  shows "m = m'"
proof -
  have "sha256 C (hmac_outer C k m) = sha256 C (hmac_outer C k m')"
    using assms(1) by (simp add: hmac_sha256_def hmac_outer_def hmac_inner_def Let_def)
  then have "hmac_outer C k m = hmac_outer C k m'" using assms(2) by (auto dest: inj_onD)
  then have "sha256 C (hmac_inner C k m) = sha256 C (hmac_inner C k m')" by (simp add: hmac_outer_def)
  then have "hmac_inner C k m = hmac_inner C k m'" using assms(2) by (auto dest: inj_onD)
  then show ?thesis by (simp add: hmac_inner_def)
qed

text \<open>All that SHA-256 is given while a MAC is checked.\<close>

definition mac_hashed :: "crypto \<Rightarrow> bytes \<Rightarrow> session_send \<Rightarrow> bytes set" where
  "mac_hashed C k s = (case sessionMACInput C s of Inl _ \<Rightarrow> {} | Inr m \<Rightarrow> {sd_body s, hmac_outer C k m, hmac_inner C k m})"

lemma VerifySessionMAC_ok:
  "VerifySessionMAC C k s mac = Inr () \<longleftrightarrow> length k = 32 \<and> (\<exists>m. sessionMACInput C s = Inr m \<and> mac = hmac_sha256 C k m)"
  by (auto simp: VerifySessionMAC_def SessionMAC_def SessionKeyLen_def ebind_Inr_iff split: if_splits)

text \<open>C36: a MAC is good for one send only. The MAC \<open>SessionMAC\<close> computes is accepted for its send, and accepted for two
  sends under one key it shows them equal in session, time, method, target, home hub and body, absent a SHA-256
  collision among the inputs hashed for the two.\<close>

theorem mac_binds:
  "(SessionMAC C k s = Inr mac \<longrightarrow> VerifySessionMAC C k s mac = Inr ())
   \<and> (VerifySessionMAC C k s mac = Inr () \<and> VerifySessionMAC C k t mac = Inr ()
        \<and> inj_on (sha256 C) (mac_hashed C k s \<union> mac_hashed C k t) \<longrightarrow> s = t)"
proof -
  have "s = t" if s: "VerifySessionMAC C k s mac = Inr ()" and t: "VerifySessionMAC C k t mac = Inr ()"
    and inj: "inj_on (sha256 C) (mac_hashed C k s \<union> mac_hashed C k t)"
  proof -
    obtain m m' where m: "sessionMACInput C s = Inr m" "sessionMACInput C t = Inr m'" "hmac_sha256 C k m = hmac_sha256 C k m'"
      using s t by (auto simp: VerifySessionMAC_ok)
    have "inj_on (sha256 C) {hmac_outer C k m, hmac_outer C k m', hmac_inner C k m, hmac_inner C k m'}"
      by (rule inj_on_subset [OF inj]) (auto simp: mac_hashed_def m)
    then have "m = m'" by (rule hmac_binds [OF m(3)])
    moreover have "inj_on (sha256 C) {sd_body s, sd_body t}" by (rule inj_on_subset [OF inj]) (auto simp: mac_hashed_def m)
    ultimately show ?thesis using mac_input_binds [OF m(1)] m(2) by simp
  qed
  then show ?thesis by (auto simp: VerifySessionMAC_def)
qed

theorem mac_binds_witness:
  "let s = \<lparr>sd_sid = replicate 16 1, sd_ts = 5, sd_method = ''POST'', sd_target = ''/s'', sd_home = [], sd_body = [9]\<rparr>;
       k = replicate 32 7
   in \<exists>mac. SessionMAC demo_crypto k s = Inr mac \<and> VerifySessionMAC demo_crypto k s mac = Inr ()
        \<and> VerifySessionMAC demo_crypto k (s \<lparr>sd_home := ''h''\<rparr>) mac \<noteq> Inr ()"
proof -
  let ?s = "\<lparr>sd_sid = replicate 16 1, sd_ts = 5, sd_method = ''POST'', sd_target = ''/s'', sd_home = [], sd_body = [9]\<rparr>"
  have inj: "inj_on (sha256 demo_crypto) S" for S by (simp add: inj_on_def)
  have "\<exists>mac. SessionMAC demo_crypto (replicate 32 7) ?s = Inr mac"
    by (simp add: SessionMAC_def SessionKeyLen_def sessionMACInput_def SessionIDLen_def has_nul_def)
  then obtain mac where "SessionMAC demo_crypto (replicate 32 7) ?s = Inr mac" ..
  then show ?thesis
    using mac_binds [of demo_crypto "replicate 32 7" ?s mac "?s \<lparr>sd_home := ''h''\<rparr>"] inj by (auto simp: Let_def)
qed

section \<open>The sealed session key\<close>

lemma sessionKeyInfo_ok:
  "sessionKeyInfo hub sid = Inr i \<longleftrightarrow> hub \<noteq> [] \<and> \<not> has_nul hub \<and> length sid = 16 \<and> i = ascii sessionKeyLabel @ [0] @ ascii hub @ [0] @ sid"
  by (auto simp: sessionKeyInfo_def SessionIDLen_def)

lemma sessionKeyInfo_inj:
  assumes "sessionKeyInfo hub sid = Inr i" and "sessionKeyInfo hub' sid' = Inr i"
  shows "hub = hub' \<and> sid = sid'"
proof -
  have 1: "ascii hub @ 0 # sid = ascii hub' @ 0 # sid'" and n: "\<not> has_nul hub" "\<not> has_nul hub'"
    using assms by (auto simp: sessionKeyInfo_ok)
  from ascii_zero_unique [OF 1 n] show ?thesis by simp
qed

text \<open>What is relied on of HPKE: a recipient opens what a sender sealed to its key with the same info, and opens under
  no other info; the sizes are those of the suite.\<close>

definition hpke_pair :: "hpke \<Rightarrow> bytes \<Rightarrow> bytes \<Rightarrow> bool" where
  "hpke_pair H sk pk \<longleftrightarrow> hp_public H pk \<and> hp_private H sk
     \<and> (\<forall>rnd info enc seal pt ct. hp_sender H rnd pk info = Some (enc, seal) \<and> seal [] pt = Some ct \<longrightarrow>
          length enc = 32 \<and> length ct = length pt + 16
          \<and> (\<exists>opn. hp_recipient H enc sk info = Some opn \<and> opn [] ct = Some pt)
          \<and> (\<forall>info' opn. info' \<noteq> info \<and> hp_recipient H enc sk info' = Some opn \<longrightarrow> opn [] ct = None))"

text \<open>A session key sealed for a daemon opens with its one-time key to the key the hub chose, and for no other hub or
  session: the info binds both, and no choice of the two can be confused with another.\<close>

theorem session_key_binds:
  assumes "hpke_pair H sk epk" and "SealSessionKey H rnd epk hub sid k = Inr (enc, ct)"
  shows "OpenSessionKey H (Some \<lparr>ek_x25519 = True, ek_secret = sk\<rparr>) hub' sid' enc ct = Inr k' \<longleftrightarrow> hub' = hub \<and> sid' = sid \<and> k' = k"
proof -
  have "\<exists>i seal. sessionKeyInfo hub sid = Inr i \<and> hp_sender H rnd epk i = Some (enc, seal) \<and> seal [] k = Some ct \<and> length k = 32"
    using assms(2) by (auto simp: SealSessionKey_def SessionKeyLen_def ebind_Inr_iff split: if_splits option.splits)
  then obtain i seal where i: "sessionKeyInfo hub sid = Inr i" and s: "hp_sender H rnd epk i = Some (enc, seal)" "seal [] k = Some ct"
    and k: "length k = 32" by blast
  have "hp_private H sk \<and> length enc = 32 \<and> length ct = length k + 16 \<and> (\<exists>opn. hp_recipient H enc sk i = Some opn \<and> opn [] ct = Some k)
    \<and> (\<forall>i' opn. i' \<noteq> i \<and> hp_recipient H enc sk i' = Some opn \<longrightarrow> opn [] ct = None)"
    using assms(1) s unfolding hpke_pair_def by metis
  then obtain opn where h: "hp_private H sk" "length enc = 32" "length ct = 48" and o: "hp_recipient H enc sk i = Some opn" "opn [] ct = Some k"
    and other: "\<And>i' opn'. i' \<noteq> i \<Longrightarrow> hp_recipient H enc sk i' = Some opn' \<Longrightarrow> opn' [] ct = None" using k by auto
  show ?thesis
  proof
    assume "OpenSessionKey H (Some \<lparr>ek_x25519 = True, ek_secret = sk\<rparr>) hub' sid' enc ct = Inr k'"
    then have "\<exists>i' opn'. sessionKeyInfo hub' sid' = Inr i' \<and> hp_recipient H enc sk i' = Some opn' \<and> opn' [] ct = Some k'"
      by (auto simp: OpenSessionKey_def ebind_Inr_iff split: if_splits option.splits)
    then obtain i' opn' where i': "sessionKeyInfo hub' sid' = Inr i'" "hp_recipient H enc sk i' = Some opn'" "opn' [] ct = Some k'" by blast
    then have "i' = i" using other by force
    then show "hub' = hub \<and> sid' = sid \<and> k' = k" using i' o sessionKeyInfo_inj [OF i'(1)] i by simp
  next
    assume "hub' = hub \<and> sid' = sid \<and> k' = k"
    then show "OpenSessionKey H (Some \<lparr>ek_x25519 = True, ek_secret = sk\<rparr>) hub' sid' enc ct = Inr k'"
      using i o h k by (simp add: OpenSessionKey_def sessionEncLen_def sessionCTLen_def SessionKeyLen_def)
  qed
qed

end
