(* ===== verification/Utf8_Runes.thy ===== *)
theory Utf8_Runes
  imports Utf8
begin

text \<open>
  Runes: Go's loop over the runes of a string, \<open>utf8.DecodeRuneInString\<close> and \<open>WriteRune\<close>. A string is valid UTF-8
  exactly when it is what some list of Unicode scalar values is written as, and the two conversions undo each other.
\<close>

definition scalar :: "nat \<Rightarrow> bool" where
  "scalar r \<longleftrightarrow> r < 0xD800 \<or> 0xE000 \<le> r \<and> r < 0x110000"

definition byte_at :: "string \<Rightarrow> nat \<Rightarrow> nat" where
  "byte_at s i = of_char (s ! i)"

text \<open>The first rune, for a string that starts with one.\<close>

definition rune_of :: "string \<Rightarrow> nat" where
  "rune_of s =
     (if rune_width s = 1 then byte_at s 0
      else if rune_width s = 2 then (byte_at s 0 - 0xC0) * 64 + (byte_at s 1 - 0x80)
      else if rune_width s = 3 then (byte_at s 0 - 0xE0) * 4096 + (byte_at s 1 - 0x80) * 64 + (byte_at s 2 - 0x80)
      else if rune_width s = 4 then
        (byte_at s 0 - 0xF0) * 262144 + (byte_at s 1 - 0x80) * 4096 + (byte_at s 2 - 0x80) * 64 + (byte_at s 3 - 0x80)
      else 0xFFFD)"

definition put_rune :: "nat \<Rightarrow> string" where
  "put_rune r =
     (if r < 0x80 then [char_of r]
      else if r < 0x800 then [char_of (0xC0 + r div 64), char_of (0x80 + r mod 64)]
      else if \<not> scalar r then [char_of (0xEF :: nat), char_of (0xBF :: nat), char_of (0xBD :: nat)]
      else if r < 0x10000 then [char_of (0xE0 + r div 4096), char_of (0x80 + r div 64 mod 64), char_of (0x80 + r mod 64)]
      else [char_of (0xF0 + r div 262144), char_of (0x80 + r div 4096 mod 64), char_of (0x80 + r div 64 mod 64), char_of (0x80 + r mod 64)])"

definition put_runes :: "nat list \<Rightarrow> string" where
  "put_runes rs = concat (map put_rune rs)"

text \<open>\<open>for _, r := range s\<close>\<close>

function runes :: "string \<Rightarrow> nat list" where
  "runes s = (if s = [] then [] else if rune_width s = 0 then 0xFFFD # runes (tl s) else rune_of s # runes (drop (rune_width s) s))"
  by pat_completeness auto
termination by (relation "measure length") auto

declare runes.simps [simp del]

section \<open>One rune\<close>

lemma byte_in_length: "byte_in lo hi s i \<Longrightarrow> Suc i \<le> length s" "cont s i \<Longrightarrow> Suc i \<le> length s"
  by (simp_all add: byte_in_def cont_def)

lemma if_le: "(c \<Longrightarrow> a \<le> m) \<Longrightarrow> b \<le> m \<Longrightarrow> (if c then a else b) \<le> (m :: nat)"
  by simp

lemma rune_widths: "rune_width s \<le> 4" "rune_width s \<le> length s"
  unfolding rune_width_def by (intro if_le; simp) (intro if_le; use byte_in_length in fastforce)

lemma chars_nat: "n < 256 \<Longrightarrow> of_char (char_of n :: char) = (n :: nat)"
  by simp

lemma radix: "b < 64 \<Longrightarrow> (a * 64 + b) div 64 = a" "b < 64 \<Longrightarrow> (a * 64 + b) mod 64 = (b :: nat)"
  by simp_all

lemma radix_split: "(n :: nat) = n div 64 * 64 + n mod 64"
  by simp

lemma radix_div: "n div 4096 = n div 64 div (64 :: nat)" "n div 262144 = n div 64 div 64 div (64 :: nat)"
proof -
  have "(4096 :: nat) = 64 * 64" "(262144 :: nat) = 64 * 64 * 64" by simp_all
  then show "n div 4096 = n div 64 div 64" "n div 262144 = n div 64 div 64 div 64" by (simp_all only: div_mult2_eq)
qed

lemma put_rune_2:
  assumes "0x80 \<le> r" "r < 0x800"
  shows "rune_width (put_rune r @ t) = length (put_rune r) \<and> rune_of (put_rune r @ t) = r"
proof -
  define a b where "a = r div 64" and "b = r mod 64"
  have r: "r = a * 64 + b" "b < 64" by (simp_all add: a_def b_def)
  have ab: "2 \<le> a" "a < 32" using assms r by linarith+
  have p: "put_rune r = [char_of (0xC0 + a), char_of (0x80 + b)]" using assms by (simp add: put_rune_def a_def b_def)
  have w: "rune_width (put_rune r @ t) = 2" using ab r(2) by (simp add: rune_width_def byte_in_def cont_def p chars_nat)
  moreover have "rune_of (put_rune r @ t) = a * 64 + b" unfolding rune_of_def w using ab r(2) by (simp add: byte_at_def p chars_nat)
  ultimately show ?thesis using r(1) p by simp
qed

lemma put_rune_3:
  assumes "0x800 \<le> r" "r < 0x10000" "scalar r"
  shows "rune_width (put_rune r @ t) = length (put_rune r) \<and> rune_of (put_rune r @ t) = r"
proof -
  define a b c where "a = r div 4096" and "b = r div 64 mod 64" and "c = r mod 64"
  have "r div 64 = a * 64 + b" "r = r div 64 * 64 + c"
    unfolding a_def b_def c_def radix_div by (rule radix_split)+
  then have r: "r = a * 4096 + b * 64 + c" by linarith
  have r': "b < 64" "c < 64" by (simp_all add: b_def c_def)
  have a: "a < 16" using assms(2) r by linarith
  have bounds: "a = 0 \<Longrightarrow> 32 \<le> b" "a = 13 \<Longrightarrow> b < 32" using assms r r' unfolding scalar_def by linarith+
  have p: "put_rune r = [char_of (0xE0 + a), char_of (0x80 + b), char_of (0x80 + c)]" using assms by (simp add: put_rune_def a_def b_def c_def)
  have w: "rune_width (put_rune r @ t) = 3"
  proof -
    consider "a = 0" | "1 \<le> a" "a \<le> 12" | "a = 13" | "14 \<le> a" "a < 16" using a by linarith
    then show ?thesis using r' bounds by cases (simp_all add: rune_width_def byte_in_def cont_def p chars_nat)
  qed
  moreover have "rune_of (put_rune r @ t) = a * 4096 + b * 64 + c" unfolding rune_of_def w using a r' by (simp add: byte_at_def p chars_nat)
  ultimately show ?thesis using r p by simp
qed

lemma put_rune_4:
  assumes "0x10000 \<le> r" "scalar r"
  shows "rune_width (put_rune r @ t) = length (put_rune r) \<and> rune_of (put_rune r @ t) = r"
proof -
  define a b c d where "a = r div 262144" and "b = r div 4096 mod 64" and "c = r div 64 mod 64" and "d = r mod 64"
  have "r div 4096 = a * 64 + b" "r div 64 = r div 4096 * 64 + c" "r = r div 64 * 64 + d"
    unfolding a_def b_def c_def d_def radix_div by (rule radix_split)+
  then have r: "r = a * 262144 + b * 4096 + c * 64 + d" by linarith
  have r': "b < 64" "c < 64" "d < 64" by (simp_all add: b_def c_def d_def)
  have a: "a < 5" using assms(2) r unfolding scalar_def by linarith
  have bounds: "a = 0 \<Longrightarrow> 16 \<le> b" "a = 4 \<Longrightarrow> b < 16" using assms r r' unfolding scalar_def by linarith+
  have p: "put_rune r = [char_of (0xF0 + a), char_of (0x80 + b), char_of (0x80 + c), char_of (0x80 + d)]"
    using assms by (simp add: put_rune_def a_def b_def c_def d_def)
  have w: "rune_width (put_rune r @ t) = 4"
  proof -
    consider "a = 0" | "1 \<le> a" "a \<le> 3" | "a = 4" using a by linarith
    then show ?thesis using r' bounds by cases (simp_all add: rune_width_def byte_in_def cont_def p chars_nat)
  qed
  moreover have "rune_of (put_rune r @ t) = a * 262144 + b * 4096 + c * 64 + d" unfolding rune_of_def w using a r' by (simp add: byte_at_def p chars_nat)
  ultimately show ?thesis using r p by simp
qed

lemma put_rune_first:
  assumes "scalar r"
  shows "rune_width (put_rune r @ t) = length (put_rune r)" "rune_of (put_rune r @ t) = r" "put_rune r \<noteq> []"
proof -
  consider "r < 0x80" | "0x80 \<le> r" "r < 0x800" | "0x800 \<le> r" "r < 0x10000" | "0x10000 \<le> r" by linarith
  then have "rune_width (put_rune r @ t) = length (put_rune r) \<and> rune_of (put_rune r @ t) = r"
  proof cases
    case 1
    then show ?thesis by (simp add: put_rune_def rune_width_def byte_in_def rune_of_def byte_at_def chars_nat)
  qed (use put_rune_2 put_rune_3 put_rune_4 assms in blast)+
  then show "rune_width (put_rune r @ t) = length (put_rune r)" "rune_of (put_rune r @ t) = r" by blast+
  show "put_rune r \<noteq> []" by (simp add: put_rune_def)
qed

lemma take_nths:
  "n = 1 \<Longrightarrow> n \<le> length s \<Longrightarrow> take n s = [s ! 0]"
  "n = 2 \<Longrightarrow> n \<le> length s \<Longrightarrow> take n s = [s ! 0, s ! 1]"
  "n = 3 \<Longrightarrow> n \<le> length s \<Longrightarrow> take n s = [s ! 0, s ! 1, s ! 2]"
  "n = 4 \<Longrightarrow> n \<le> length s \<Longrightarrow> take n s = [s ! 0, s ! 1, s ! 2, s ! 3]"
  by (auto simp: numeral_eq_Suc take_Suc_conv_app_nth neq_Nil_conv Suc_le_length_iff)

lemma char_byte: "char_of (byte_at s i) = s ! i"
  by (simp add: byte_at_def)

lemma byte_at_less: "byte_at s i < 256"
  unfolding byte_at_def by (rule nat_of_char_less_256)

lemma first_put_rune:
  assumes "rune_width s \<noteq> 0"
  shows "scalar (rune_of s) \<and> put_rune (rune_of s) = take (rune_width s) s"
proof -
  consider "rune_width s = 1" | "rune_width s = 2" | "rune_width s = 3" | "rune_width s = 4"
    using assms rune_widths(1) [of s] by linarith
  then show ?thesis
  proof cases
    case 1
    then have "byte_at s 0 < 0x80" "s \<noteq> []" by (auto simp: rune_width_def byte_in_def byte_at_def split: if_splits)
    then show ?thesis using 1 rune_widths(2) [of s] by (simp add: rune_of_def put_rune_def scalar_def char_byte take_nths)
  next
    case 2
    then have b: "0xC2 \<le> byte_at s 0" "byte_at s 0 \<le> 0xDF" "0x80 \<le> byte_at s 1" "byte_at s 1 \<le> 0xBF"
      by (auto simp: rune_width_def byte_in_def cont_def byte_at_def split: if_splits)
    define a where "a = byte_at s 0 - 0xC0"
    define c where "c = byte_at s 1 - 0x80"
    have e: "byte_at s 0 = 0xC0 + a" "byte_at s 1 = 0x80 + c" using b by (simp_all add: a_def c_def)
    have "rune_of s = a * 64 + c" using 2 by (simp add: rune_of_def a_def c_def)
    moreover have "c < 64" "2 \<le> a" "a < 32" using b e by linarith+
    ultimately have "scalar (rune_of s) \<and> put_rune (rune_of s) = [char_of (0xC0 + a), char_of (0x80 + c)]"
      by (simp add: put_rune_def scalar_def)
    then show ?thesis using 2 rune_widths(2) [of s] by (simp add: take_nths e [symmetric] char_byte)
  next
    case 3
    then have b: "0xE0 \<le> byte_at s 0" "byte_at s 0 \<le> 0xEF" "0x80 \<le> byte_at s 1" "byte_at s 1 \<le> 0xBF" "0x80 \<le> byte_at s 2" "byte_at s 2 \<le> 0xBF"
        "byte_at s 0 = 0xE0 \<longrightarrow> 0xA0 \<le> byte_at s 1" "byte_at s 0 = 0xED \<longrightarrow> byte_at s 1 \<le> 0x9F"
      by (auto simp: rune_width_def byte_in_def cont_def byte_at_def split: if_splits)
    define a where "a = byte_at s 0 - 0xE0"
    define c where "c = byte_at s 1 - 0x80"
    define d where "d = byte_at s 2 - 0x80"
    have e: "byte_at s 0 = 0xE0 + a" "byte_at s 1 = 0x80 + c" "byte_at s 2 = 0x80 + d" using b by (simp_all add: a_def c_def d_def)
    have r: "rune_of s = a * 4096 + c * 64 + d" using 3 by (simp add: rune_of_def a_def c_def d_def)
    have l: "c < 64" "d < 64" "a < 16" "a = 0 \<Longrightarrow> 32 \<le> c" "a = 13 \<Longrightarrow> c < 32" using b e by linarith+
    have dv: "rune_of s div 4096 = a" "rune_of s div 64 mod 64 = c" "rune_of s mod 64 = d"
    proof -
      have "rune_of s = (a * 64 + c) * 64 + d" using r by simp
      then have "rune_of s div 64 = a * 64 + c" "rune_of s mod 64 = d" using radix [OF l(2)] by metis+
      then show "rune_of s div 4096 = a" "rune_of s div 64 mod 64 = c" "rune_of s mod 64 = d"
        using radix [OF l(1)] by (simp_all only: radix_div)
    qed
    have "0x800 \<le> rune_of s" using r l by (cases "a = 0") linarith+
    moreover have "rune_of s < 0x10000" using r l by linarith
    moreover have "scalar (rune_of s)" unfolding scalar_def using r l by (cases "a < 13"; cases "a = 13") linarith+
    ultimately have "scalar (rune_of s) \<and> put_rune (rune_of s) = [char_of (0xE0 + a), char_of (0x80 + c), char_of (0x80 + d)]"
      by (simp add: put_rune_def dv)
    then show ?thesis using 3 rune_widths(2) [of s] by (simp add: take_nths e [symmetric] char_byte)
  next
    case 4
    then have b: "0xF0 \<le> byte_at s 0" "byte_at s 0 \<le> 0xF4" "0x80 \<le> byte_at s 1" "byte_at s 1 \<le> 0xBF" "0x80 \<le> byte_at s 2" "byte_at s 2 \<le> 0xBF"
        "0x80 \<le> byte_at s 3" "byte_at s 3 \<le> 0xBF"
        "byte_at s 0 = 0xF0 \<longrightarrow> 0x90 \<le> byte_at s 1" "byte_at s 0 = 0xF4 \<longrightarrow> byte_at s 1 \<le> 0x8F"
      by (auto simp: rune_width_def byte_in_def cont_def byte_at_def split: if_splits)
    define a where "a = byte_at s 0 - 0xF0"
    define c where "c = byte_at s 1 - 0x80"
    define d where "d = byte_at s 2 - 0x80"
    define f where "f = byte_at s 3 - 0x80"
    have e: "byte_at s 0 = 0xF0 + a" "byte_at s 1 = 0x80 + c" "byte_at s 2 = 0x80 + d" "byte_at s 3 = 0x80 + f"
      using b by (simp_all add: a_def c_def d_def f_def)
    have r: "rune_of s = a * 262144 + c * 4096 + d * 64 + f" using 4 by (simp add: rune_of_def a_def c_def d_def f_def)
    have l: "c < 64" "d < 64" "f < 64" "a < 5" "a = 0 \<Longrightarrow> 16 \<le> c" "a = 4 \<Longrightarrow> c < 16" using b e by linarith+
    have dv: "rune_of s div 262144 = a" "rune_of s div 4096 mod 64 = c" "rune_of s div 64 mod 64 = d" "rune_of s mod 64 = f"
    proof -
      have "rune_of s = (a * 4096 + c * 64 + d) * 64 + f" using r by simp
      moreover have "a * 4096 + c * 64 + d = (a * 64 + c) * 64 + d" by simp
      ultimately have "rune_of s div 64 = (a * 64 + c) * 64 + d" "rune_of s mod 64 = f" using radix [OF l(3)] by metis+
      then show "rune_of s div 262144 = a" "rune_of s div 4096 mod 64 = c" "rune_of s div 64 mod 64 = d" "rune_of s mod 64 = f"
        using radix [OF l(2)] radix [OF l(1)] by (simp_all only: radix_div)
    qed
    have "0x10000 \<le> rune_of s" using r l by (cases "a = 0") linarith+
    moreover have "rune_of s < 0x110000" using r l by (cases "a = 4") linarith+
    ultimately have "scalar (rune_of s) \<and> put_rune (rune_of s) = [char_of (0xF0 + a), char_of (0x80 + c), char_of (0x80 + d), char_of (0x80 + f)]"
      by (simp add: put_rune_def dv scalar_def)
    then show ?thesis using 4 rune_widths(2) [of s] by (simp add: take_nths e [symmetric] char_byte)
  qed
qed

section \<open>Whole strings\<close>

lemma runes_Nil [simp]: "runes [] = []"
  by (simp add: runes.simps)

lemma put_runes_simps [simp]: "put_runes [] = []" "put_runes (r # rs) = put_rune r @ put_runes rs" "put_runes (rs @ ts) = put_runes rs @ put_runes ts"
  by (simp_all add: put_runes_def)

lemma runes_put: "list_all scalar rs \<Longrightarrow> runes (put_runes rs) = rs \<and> ValidString (put_runes rs)"
proof (induction rs)
  case Nil
  then show ?case by (simp add: ValidString.simps)
next
  case (Cons r rs)
  then have s: "scalar r" and ih: "runes (put_runes rs) = rs" "ValidString (put_runes rs)" by simp_all
  note f = put_rune_first(1,2) [OF s, of "put_runes rs"] put_rune_first(3) [OF s]
  show ?case using ih f by (simp add: runes.simps [of "put_rune r @ _"] ValidString.simps [of "put_rune r @ _"])
qed

lemma put_runes_runes: "ValidString s \<Longrightarrow> put_runes (runes s) = s \<and> list_all scalar (runes s)"
proof (induction s rule: ValidString.induct)
  case (1 s)
  show ?case
  proof (cases "s = []")
    case False
    then have w: "rune_width s \<noteq> 0" "ValidString (drop (rune_width s) s)"
      using 1(2) by (auto simp: ValidString.simps [of s] split: if_splits)
    then have "put_runes (runes (drop (rune_width s) s)) = drop (rune_width s) s \<and> list_all scalar (runes (drop (rune_width s) s))"
      using 1(1) False by blast
    then show ?thesis using first_put_rune [OF w(1)] False w(1) by (simp add: runes.simps [of s])
  qed simp
qed

lemma ValidString_iff: "ValidString s \<longleftrightarrow> (\<exists>rs. list_all scalar rs \<and> s = put_runes rs)"
  using put_runes_runes runes_put by metis

lemma ValidString_append: "ValidString s \<Longrightarrow> ValidString t \<Longrightarrow> ValidString (s @ t)"
  unfolding ValidString_iff by (metis list_all_append put_runes_simps(3))

lemma ascii_rune: "c < 128 \<Longrightarrow> put_rune c = [char_of c]"
  by (simp add: put_rune_def)

lemma ValidString_ascii: "list_all (\<lambda>c. of_char c < (128 :: nat)) s \<Longrightarrow> ValidString s"
proof -
  assume a: "list_all (\<lambda>c. of_char c < (128 :: nat)) s"
  then have "put_runes (map of_char s) = s" by (induction s) (simp_all add: ascii_rune)
  moreover have "list_all scalar (map of_char s)" using a by (auto simp: list_all_iff scalar_def)
  ultimately show ?thesis by (metis ValidString_iff)
qed

lemma ValidString_concat: "list_all ValidString ss \<Longrightarrow> ValidString (concat ss)"
  by (induction ss) (auto simp: ValidString_append ValidString.simps [of "[]"])

end
