(* ===== verification/Agent_Uri.thy ===== *)
theory Agent_Uri
  imports Utf8_Runes "HOL-Library.List_Lexorder" "HOL-Library.Char_ord"
begin

text \<open>
  The \<open>agent://\<close> URI scheme (\<open>agenturi/agenturi.go\<close>): decoding, folding and rejecting of components, \<open>Parse\<close>,
  \<open>Serialize\<close> and the entry points over them, on Go strings as lists of bytes. Unicode NFC (\<open>x/text/unicode/norm\<close>)
  and the category and script tables are parameters.
\<close>

datatype uri_err =
    EMPTY_LABEL | BAD_PCT_ENCODING | WILDCARD_IN_LABEL | ILLEGAL_CHAR | BAD_UTF8 | DISALLOWED_CODEPOINT | MIXED_SCRIPT
  | SCHEME_MISMATCH | FRAGMENT_PRESENT | WILDCARD_FORM | EMPTY_AUTHORITY | UNMARKED_SEGMENT | DUPLICATE_MARKER
  | POSITION_ORDER | QUERY_SYNTAX | WRONG_FORM

datatype uri_form = Concrete | CapabilityQuery

record parse_value =
  pv_form :: uri_form
  pv_org :: string
  pv_ns :: string
  pv_svc :: string
  pv_inst :: string
  pv_capability :: string
  pv_query :: "(string \<times> string) list"
  pv_has_ns :: bool
  pv_has_svc :: bool
  pv_has_inst :: bool

record unicode =
  nfc :: "string \<Rightarrow> string"
  is_Cc :: "nat \<Rightarrow> bool"
  is_Cf :: "nat \<Rightarrow> bool"
  is_Zl :: "nat \<Rightarrow> bool"
  is_Zp :: "nat \<Rightarrow> bool"
  is_Latin :: "nat \<Rightarrow> bool"
  is_Cyrillic :: "nat \<Rightarrow> bool"
  is_Greek :: "nat \<Rightarrow> bool"

section \<open>Character classes\<close>

definition within_runes :: "nat \<Rightarrow> nat \<Rightarrow> nat \<Rightarrow> bool" where
  "within_runes r lo hi \<longleftrightarrow> lo \<le> r \<and> r \<le> hi"

definition isUnreserved :: "nat \<Rightarrow> bool" where
  "isUnreserved r \<longleftrightarrow> within_runes r 97 122 \<or> within_runes r 65 90 \<or> within_runes r 48 57 \<or> r \<in> {45, 46, 95, 126}"

definition isUcschar :: "nat \<Rightarrow> bool" where
  "isUcschar r \<longleftrightarrow> within_runes r 0x00A0 0xD7FF \<or> within_runes r 0xF900 0xFDCF \<or> within_runes r 0xFDF0 0xFFEF
     \<or> within_runes r 0x10000 0x1FFFD \<or> within_runes r 0x20000 0x2FFFD \<or> within_runes r 0x30000 0x3FFFD
     \<or> within_runes r 0x40000 0x4FFFD \<or> within_runes r 0x50000 0x5FFFD \<or> within_runes r 0x60000 0x6FFFD
     \<or> within_runes r 0x70000 0x7FFFD \<or> within_runes r 0x80000 0x8FFFD \<or> within_runes r 0x90000 0x9FFFD
     \<or> within_runes r 0xA0000 0xAFFFD \<or> within_runes r 0xB0000 0xBFFFD \<or> within_runes r 0xC0000 0xCFFFD
     \<or> within_runes r 0xD0000 0xDFFFD \<or> within_runes r 0xE1000 0xEFFFD"

definition hexVal :: "char \<Rightarrow> nat option" where
  "hexVal c =
     (let b = (of_char c :: nat) in
      if within_runes b 48 57 then Some (b - 48)
      else if within_runes b 97 102 then Some (b - 97 + 10)
      else if within_runes b 65 70 then Some (b - 65 + 10)
      else None)"

section \<open>Percent-decoding\<close>

text \<open>The loop of \<open>decodeComponent\<close> and of \<open>decodeQ\<close> over what is left of the input; the first names a literal \<open>*\<close>
  with an error of its own.\<close>

function decode_octets :: "bool \<Rightarrow> string \<Rightarrow> uri_err + string" where
  "decode_octets label s =
     (if s = [] then Inr []
      else if s ! 0 = CHR ''%'' then
        (if length s \<le> 2 then Inl BAD_PCT_ENCODING
         else (case (hexVal (s ! 1), hexVal (s ! 2)) of
                 (Some hi, Some lo) \<Rightarrow> ebind (decode_octets label (drop 3 s)) (\<lambda>out. Inr (char_of (hi * 16 + lo) # out))
               | _ \<Rightarrow> Inl BAD_PCT_ENCODING))
      else if of_char (s ! 0) < (0x80 :: nat) then
        (if label \<and> s ! 0 = CHR ''*'' then Inl WILDCARD_IN_LABEL
         else if \<not> isUnreserved (of_char (s ! 0)) then Inl ILLEGAL_CHAR
         else ebind (decode_octets label (drop 1 s)) (\<lambda>out. Inr (s ! 0 # out)))
      else if rune_width s = 0 then Inl BAD_UTF8
      else if \<not> isUcschar (rune_of s) then Inl ILLEGAL_CHAR
      else ebind (decode_octets label (drop (rune_width s) s)) (\<lambda>out. Inr (take (rune_width s) s @ out)))"
  by pat_completeness auto
termination by (relation "measure (\<lambda>(label, s). length s)") auto

declare decode_octets.simps [simp del]

definition decodeComponent :: "string \<Rightarrow> uri_err + string" where
  "decodeComponent s =
     (if s = [] then Inl EMPTY_LABEL
      else ebind (decode_octets True s) (\<lambda>out. if \<not> ValidString out then Inl BAD_UTF8 else Inr out))"

definition decodeQ :: "string \<Rightarrow> uri_err + string" where
  "decodeQ s = ebind (decode_octets False s) (\<lambda>out. if \<not> ValidString out then Inl BAD_UTF8 else Inr out)"

section \<open>Folding and rejecting\<close>

definition fold_rune :: "nat \<Rightarrow> string" where
  "fold_rune r =
     (if r = 0x200C \<or> r = 0x200D then []
      else if r = 0x00DF then ''ss''
      else if r = 0x03C2 then put_rune 0x03C3
      else if within_runes r 65 90 then put_rune (r + 32)
      else put_rune r)"

definition foldLabel :: "unicode \<Rightarrow> string \<Rightarrow> string" where
  "foldLabel U s = nfc U (concat (map fold_rune (runes (nfc U s))))"

definition disallowed :: "unicode \<Rightarrow> nat \<Rightarrow> bool" where
  "disallowed U r \<longleftrightarrow> \<not> (r = 0x200C \<or> r = 0x200D) \<and> (is_Cc U r \<or> is_Cf U r \<or> is_Zl U r \<or> is_Zp U r)"

definition rejectCheck :: "unicode \<Rightarrow> string \<Rightarrow> uri_err + unit" where
  "rejectCheck U label =
     (if label = [] then Inl EMPTY_LABEL
      else if list_ex (disallowed U) (runes label) then Inl DISALLOWED_CODEPOINT
      else let latin = list_ex (is_Latin U) (runes label);
               cyrillic = list_ex (\<lambda>r. \<not> is_Latin U r \<and> is_Cyrillic U r) (runes label);
               greek = list_ex (\<lambda>r. \<not> is_Latin U r \<and> \<not> is_Cyrillic U r \<and> is_Greek U r) (runes label)
           in if latin \<and> (cyrillic \<or> greek) then Inl MIXED_SCRIPT else Inr ())"

section \<open>Markers and splitting\<close>

text \<open>\<open>strings.EqualFold\<close> with an ASCII second argument in lower case: runes that fold to the same letter. Besides the
  ASCII capital, U+017F folds to \<open>s\<close> and U+212A to \<open>k\<close>.\<close>

definition simple_fold :: "nat \<Rightarrow> nat" where
  "simple_fold r = (if within_runes r 65 90 then r + 32 else if r = 0x17F then 115 else if r = 0x212A then 107 else r)"

definition EqualFold :: "string \<Rightarrow> string \<Rightarrow> bool" where
  "EqualFold s t \<longleftrightarrow> map simple_fold (runes s) = map of_char t"

definition markers :: "(string \<times> nat) list" where
  "markers = [(''ns='', 2), (''svc='', 3), (''inst='', 4)]"

fun match_markers :: "(string \<times> nat) list \<Rightarrow> string \<Rightarrow> (nat \<times> string) option" where
  "match_markers [] seg = None"
| "match_markers ((prefix, pos) # ms) seg =
     (if length seg \<ge> length prefix \<and> EqualFold (take (length prefix) seg) prefix then Some (pos, drop (length prefix) seg)
      else match_markers ms seg)"

definition matchMarker :: "string \<Rightarrow> (nat \<times> string) option" where
  "matchMarker seg = match_markers markers seg"

text \<open>\<open>strings.Split\<close> at a one-byte separator, \<open>strings.IndexByte\<close> with the two parts, and \<open>strings.Index\<close>.\<close>

fun split_at :: "char \<Rightarrow> string \<Rightarrow> string list" where
  "split_at c [] = [[]]"
| "split_at c (x # xs) = (if x = c then [] # split_at c xs else (case split_at c xs of p # ps \<Rightarrow> (x # p) # ps | [] \<Rightarrow> [[x]]))"

fun cut :: "char \<Rightarrow> string \<Rightarrow> (string \<times> string) option" where
  "cut c [] = None"
| "cut c (x # xs) = (if x = c then Some ([], xs) else (case cut c xs of None \<Rightarrow> None | Some (a, b) \<Rightarrow> Some (x # a, b)))"

fun cut_scheme :: "string \<Rightarrow> (string \<times> string) option" where
  "cut_scheme [] = None"
| "cut_scheme (x # xs) =
     (if take 3 (x # xs) = ''://'' then Some ([], drop 3 (x # xs))
      else (case cut_scheme xs of None \<Rightarrow> None | Some (a, b) \<Rightarrow> Some (x # a, b)))"

section \<open>Parse\<close>

definition assigned :: "parse_value \<Rightarrow> nat \<Rightarrow> bool" where
  "assigned v pos = (if pos = 2 then pv_has_ns v else if pos = 3 then pv_has_svc v else if pos = 4 then pv_has_inst v else False)"

definition setPos :: "parse_value \<Rightarrow> nat \<Rightarrow> string \<Rightarrow> parse_value" where
  "setPos v pos val =
     (if pos = 2 then v \<lparr>pv_ns := val, pv_has_ns := True\<rparr>
      else if pos = 3 then v \<lparr>pv_svc := val, pv_has_svc := True\<rparr>
      else if pos = 4 then v \<lparr>pv_inst := val, pv_has_inst := True\<rparr>
      else v)"

text \<open>Decode, fold and check one label.\<close>

definition parse_label :: "unicode \<Rightarrow> string \<Rightarrow> uri_err + string" where
  "parse_label U seg =
     ebind (decodeComponent seg) (\<lambda>l. ebind (rejectCheck U (foldLabel U l)) (\<lambda>_. Inr (foldLabel U l)))"

fun parse_segs :: "unicode \<Rightarrow> nat \<Rightarrow> string list \<Rightarrow> parse_value \<Rightarrow> uri_err + parse_value" where
  "parse_segs U pos [] v = Inr v"
| "parse_segs U pos (seg # segs) v =
     (case matchMarker seg of
        None \<Rightarrow> Inl (if CHR ''*'' \<in> set seg then WILDCARD_IN_LABEL else UNMARKED_SEGMENT)
      | Some (mpos, restseg) \<Rightarrow>
          if mpos \<le> pos then Inl (if assigned v mpos then DUPLICATE_MARKER else POSITION_ORDER)
          else if assigned v mpos then Inl DUPLICATE_MARKER
          else ebind (parse_label U restseg) (\<lambda>l. parse_segs U mpos segs (setPos v mpos l)))"

fun parse_pairs :: "unicode \<Rightarrow> string list \<Rightarrow> uri_err + (string \<times> string) list" where
  "parse_pairs U [] = Inr []"
| "parse_pairs U (p # ps) =
     (case cut (CHR ''='') p of
        None \<Rightarrow> Inl QUERY_SYNTAX
      | Some (k, val) \<Rightarrow>
          if k = [] then Inl QUERY_SYNTAX
          else ebind (decodeQ k) (\<lambda>dk. ebind (decodeQ val) (\<lambda>dv.
               ebind (parse_pairs U ps) (\<lambda>out. Inr ((nfc U dk, nfc U dv) # out)))))"

definition parseQuery :: "unicode \<Rightarrow> string \<Rightarrow> uri_err + (string \<times> string) list" where
  "parseQuery U qs = (if qs = [] then Inl QUERY_SYNTAX else parse_pairs U (split_at (CHR ''&'') qs))"

definition zero_value :: parse_value where
  "zero_value = \<lparr>pv_form = Concrete, pv_org = [], pv_ns = [], pv_svc = [], pv_inst = [], pv_capability = [], pv_query = [],
     pv_has_ns = False, pv_has_svc = False, pv_has_inst = False\<rparr>"

definition parse_path :: "unicode \<Rightarrow> string \<Rightarrow> uri_err + parse_value" where
  "parse_path U path =
     (let segs = split_at (CHR ''/'') path in
      if segs ! 0 = ''*'' then
        (if length segs \<noteq> 2 then Inl WILDCARD_FORM
         else ebind (parse_label U (segs ! 1)) (\<lambda>c. Inr (zero_value \<lparr>pv_form := CapabilityQuery, pv_capability := c\<rparr>)))
      else if segs ! 0 = [] then Inl EMPTY_AUTHORITY
      else if CHR ''*'' \<in> set (segs ! 0) then Inl WILDCARD_IN_LABEL
      else ebind (parse_label U (segs ! 0)) (\<lambda>l.
        if [] \<in> set (tl segs) then Inl EMPTY_LABEL
        else parse_segs U 1 (tl segs) (zero_value \<lparr>pv_org := l\<rparr>)))"

definition Parse :: "unicode \<Rightarrow> string \<Rightarrow> uri_err + parse_value" where
  "Parse U s =
     (if \<not> ValidString s then Inl BAD_UTF8
      else case cut_scheme s of
        None \<Rightarrow> Inl SCHEME_MISMATCH
      | Some (scheme, rest) \<Rightarrow>
          if \<not> EqualFold scheme ''agent'' then Inl SCHEME_MISMATCH
          else if CHR ''#'' \<in> set rest then Inl FRAGMENT_PRESENT
          else (case cut (CHR ''?'') rest of
                  None \<Rightarrow> parse_path U rest
                | Some (path, qs) \<Rightarrow>
                    ebind (parse_path U path) (\<lambda>v. ebind (parseQuery U qs) (\<lambda>pairs. Inr (v \<lparr>pv_query := pairs\<rparr>)))))"

section \<open>Serialize\<close>

definition hex_upper :: "nat \<Rightarrow> char" where
  "hex_upper d = ''0123456789ABCDEF'' ! d"

definition percent :: "char \<Rightarrow> string" where
  "percent c = [CHR ''%'', hex_upper (of_char c div 16), hex_upper (of_char c mod 16)]"

definition enc_rune :: "nat \<Rightarrow> string" where
  "enc_rune r = (if isUnreserved r \<or> isUcschar r then put_rune r else concat (map percent (put_rune r)))"

definition encLabel :: "string \<Rightarrow> string" where
  "encLabel s = concat (map enc_rune (runes s))"

fun join :: "char \<Rightarrow> string list \<Rightarrow> string" where
  "join c [] = []"
| "join c [p] = p"
| "join c (p # ps) = p @ c # join c ps"

definition enc_pair :: "string \<times> string \<Rightarrow> string" where
  "enc_pair p = encLabel (fst p) @ CHR ''='' # encLabel (snd p)"

definition serialize_path :: "parse_value \<Rightarrow> string" where
  "serialize_path v =
     (case pv_form v of
        CapabilityQuery \<Rightarrow> ''*/'' @ encLabel (pv_capability v)
      | Concrete \<Rightarrow>
          encLabel (pv_org v)
          @ (if pv_has_ns v then ''/ns='' @ encLabel (pv_ns v) else [])
          @ (if pv_has_svc v then ''/svc='' @ encLabel (pv_svc v) else [])
          @ (if pv_has_inst v then ''/inst='' @ encLabel (pv_inst v) else []))"

definition Serialize :: "parse_value \<Rightarrow> string" where
  "Serialize v =
     ''agent://'' @ serialize_path v
     @ (if length (pv_query v) > 0 then CHR ''?'' # join (CHR ''&'') (sort (map enc_pair (pv_query v))) else [])"

definition Canonical :: "unicode \<Rightarrow> string \<Rightarrow> uri_err + string" where
  "Canonical U s = ebind (Parse U s) (\<lambda>v. Inr (Serialize v))"

definition Equals :: "unicode \<Rightarrow> string \<Rightarrow> string \<Rightarrow> uri_err + bool" where
  "Equals U a b = ebind (Canonical U a) (\<lambda>ca. ebind (Canonical U b) (\<lambda>cb. Inr (ca = cb)))"

definition ValidateCapabilityQuery :: "unicode \<Rightarrow> string \<Rightarrow> uri_err + string" where
  "ValidateCapabilityQuery U s =
     ebind (Parse U s) (\<lambda>v. if pv_form v \<noteq> CapabilityQuery then Inl WRONG_FORM else Inr (Serialize v))"

definition RequireConcreteLocator :: "unicode \<Rightarrow> string \<Rightarrow> uri_err + string" where
  "RequireConcreteLocator U s =
     ebind (Parse U s) (\<lambda>v. if pv_form v \<noteq> Concrete then Inl WRONG_FORM else Inr (Serialize v))"

end
