(* ===== verification/Agent_Uri_Props.thy ===== *)
theory Agent_Uri_Props
  imports Agent_Uri "HOL-Library.Multiset"
begin

text \<open>
  The canonical form of an agent URI is a fixed point: what \<open>Serialize\<close> writes for a parsed URI is parsed to the same
  value, with its query sorted, and written again as it is. The lemmas follow the two directions of the code: encoding
  and decoding of a component, splitting and joining, labels, segments, queries.
\<close>

section \<open>Splitting\<close>

lemma split_at_free: "c \<notin> set s \<Longrightarrow> split_at c s = [s]"
  by (induction s) auto

lemma split_at_append: "c \<notin> set a \<Longrightarrow> split_at c (a @ c # b) = a # split_at c b"
proof (induction a)
  case (Cons x a)
  then show ?case by (cases "split_at c b") auto
qed simp

lemma split_join: "ps \<noteq> [] \<Longrightarrow> \<forall>p \<in> set ps. c \<notin> set p \<Longrightarrow> split_at c (join c ps) = ps"
proof (induction c ps rule: join.induct)
  case (3 c p q ps)
  then show ?case by (simp add: split_at_append)
qed (simp_all add: split_at_free)

lemma cut_free: "c \<notin> set s \<Longrightarrow> cut c s = None"
  by (induction s) auto

lemma cut_append: "c \<notin> set a \<Longrightarrow> cut c (a @ c # b) = Some (a, b)"
  by (induction a) auto

lemma set_join: "x \<in> set (join c ps) \<Longrightarrow> x = c \<or> (\<exists>p \<in> set ps. x \<in> set p)"
  by (induction c ps rule: join.induct) auto

lemma ValidString_Nil [simp]: "ValidString []"
  by (simp add: ValidString.simps)

lemma ValidString_Cons: "of_char c < (128 :: nat) \<Longrightarrow> ValidString s \<Longrightarrow> ValidString (c # s)"
  using ValidString_append [of "[c]" s] ValidString_ascii [of "[c]"] by simp

lemma ValidString_join: "of_char c < (128 :: nat) \<Longrightarrow> \<forall>p \<in> set ps. ValidString p \<Longrightarrow> ValidString (join c ps)"
  by (induction c ps rule: join.induct) (auto intro: ValidString_append ValidString_Cons)

section \<open>A component is decoded to what was encoded\<close>

lemma hexVal_upper: "d < 16 \<Longrightarrow> hexVal (hex_upper d) = Some d"
proof -
  have "\<forall>d \<in> set [0..<16]. hexVal (hex_upper d) = Some d" by code_simp
  then show "d < 16 \<Longrightarrow> ?thesis" by auto
qed

lemma hex_upper_in: "d < 16 \<Longrightarrow> hex_upper d \<in> set ''0123456789ABCDEF''"
  unfolding hex_upper_def by (rule nth_mem) simp

lemma decode_percent:
  "decode_octets b (concat (map percent cs) @ t) = ebind (decode_octets b t) (\<lambda>out. Inr (cs @ out))"
proof (induction cs)
  case Nil
  then show ?case by (cases "decode_octets b t") simp_all
next
  case (Cons c cs)
  have h: "(of_char c :: nat) div 16 < 16" using nat_of_char_less_256 [of c] by linarith
  have "char_of ((of_char c :: nat) div 16 * 16 + of_char c mod 16) = c" by simp
  then have "decode_octets b (percent c @ s) = ebind (decode_octets b s) (\<lambda>out. Inr (c # out))" for s
    using h unfolding percent_def by (subst decode_octets.simps) (simp add: hexVal_upper)
  then show ?case using Cons by (cases "decode_octets b t") simp_all
qed

lemma unreserved_small: "isUnreserved r \<Longrightarrow> r < 128 \<and> r \<noteq> 37 \<and> r \<noteq> 42 \<and> r \<noteq> 35 \<and> r \<noteq> 38 \<and> r \<noteq> 47 \<and> r \<noteq> 61 \<and> r \<noteq> 63"
  by (auto simp: isUnreserved_def within_runes_def)

lemma ucschar_big: "isUcschar r \<Longrightarrow> 128 \<le> r"
  by (auto simp: isUcschar_def within_runes_def)

lemma put_rune_bytes: "128 \<le> r \<Longrightarrow> c \<in> set (put_rune r) \<Longrightarrow> 128 \<le> (of_char c :: nat)"
proof -
  have m: "128 \<le> (of_char (char_of (128 + n) :: char) :: nat)" if "n < 128" for n :: nat using that by simp
  assume "128 \<le> r" "c \<in> set (put_rune r)"
  then show ?thesis
  proof (cases "r < 0x800")
    case True
    then have "c = char_of (128 + (64 + r div 64)) \<or> c = char_of (128 + r mod 64)" "64 + r div 64 < 128" "r mod 64 < 128"
      using \<open>128 \<le> r\<close> \<open>c \<in> _\<close> by (auto simp: put_rune_def)
    then show ?thesis using m by blast
  next
    case False
    have l: "r div 4096 < 16" if "r < 0x10000" using that by linarith
    have l4: "r div 262144 < 5" if "scalar r" using that unfolding scalar_def by linarith
    have "\<exists>n < 128. c = char_of (128 + n :: nat)"
    proof (cases "scalar r")
      case True
      show ?thesis
      proof (cases "r < 0x10000")
        case True
        then have "c \<in> {char_of (128 + (96 + r div 4096)), char_of (128 + r div 64 mod 64), char_of (128 + r mod 64)}"
          using False \<open>scalar r\<close> \<open>c \<in> _\<close> by (auto simp: put_rune_def)
        moreover have "96 + r div 4096 < 128" "r div 64 mod 64 < 128" "r mod 64 < 128" using l [OF True] by simp_all
        ultimately show ?thesis by blast
      next
        case 4: False
        then have "c \<in> {char_of (128 + (112 + r div 262144)), char_of (128 + r div 4096 mod 64), char_of (128 + r div 64 mod 64), char_of (128 + r mod 64)}"
          using False \<open>scalar r\<close> \<open>c \<in> _\<close> by (auto simp: put_rune_def)
        moreover have "112 + r div 262144 < 128" "r div 4096 mod 64 < 128" "r div 64 mod 64 < 128" "r mod 64 < 128" using l4 [OF True] by simp_all
        ultimately show ?thesis by blast
      qed
    next
      case nonscalar: False
      then have "c \<in> {char_of (128 + 111 :: nat), char_of (128 + 63 :: nat), char_of (128 + 61 :: nat)}"
        using False \<open>c \<in> _\<close> by (auto simp: put_rune_def)
      moreover have "(111 :: nat) < 128" "(63 :: nat) < 128" "(61 :: nat) < 128" by simp_all
      ultimately show ?thesis by blast
    qed
    then show ?thesis using m by blast
  qed
qed

lemma decode_enc_rune:
  assumes "scalar r"
  shows "decode_octets b (enc_rune r @ t) = ebind (decode_octets b t) (\<lambda>out. Inr (put_rune r @ out))"
proof -
  consider "isUnreserved r" | "\<not> isUnreserved r" "isUcschar r" | "\<not> isUnreserved r" "\<not> isUcschar r" by blast
  then show ?thesis
  proof cases
    case 1
    then have p: "put_rune r = [char_of r]" "r < 128" "r \<noteq> 37" "r \<noteq> 42" using unreserved_small by (simp_all add: ascii_rune)
    have "char_of r \<noteq> CHR ''%''" "char_of r \<noteq> CHR ''*''" using p(2-4) by (auto dest!: arg_cong [where f = "of_char :: char \<Rightarrow> nat"])
    then show ?thesis using 1 p(1,2) by (simp add: enc_rune_def decode_octets.simps [of b "char_of r # t"])
  next
    case 2
    note big = ucschar_big [OF 2(2)]
    note f = put_rune_first(1,2) [OF assms, of t] put_rune_first(3) [OF assms]
    have h: "(put_rune r @ t) ! 0 \<in> set (put_rune r)" using f(3) by (simp add: nth_append)
    then have "128 \<le> (of_char ((put_rune r @ t) ! 0) :: nat)" using put_rune_bytes [OF big] by blast
    then show ?thesis using 2 f
      by (subst decode_octets.simps) (auto simp: enc_rune_def)
  next
    case 3
    then show ?thesis by (simp add: enc_rune_def decode_percent)
  qed
qed

lemma decode_put_runes:
  "list_all scalar rs \<Longrightarrow> decode_octets b (concat (map enc_rune rs)) = Inr (put_runes rs)"
proof (induction rs)
  case Nil
  then show ?case by (simp add: decode_octets.simps)
next
  case (Cons r rs)
  then show ?case by (simp add: decode_enc_rune)
qed

lemma decode_encLabel: "ValidString s \<Longrightarrow> decode_octets b (encLabel s) = Inr s"
  using put_runes_runes [of s] decode_put_runes [of "runes s" b] by (simp add: encLabel_def)

text \<open>The characters of an encoded component.\<close>

definition enc_char :: "char \<Rightarrow> bool" where
  "enc_char c \<longleftrightarrow> (of_char c :: nat) \<notin> {35, 38, 42, 47, 61, 63}"

lemma percent_chars: "list_all (\<lambda>x. enc_char x \<and> of_char x < (128 :: nat)) (percent c)"
proof -
  have "\<forall>x \<in> set ''0123456789ABCDEF''. enc_char x \<and> of_char x < (128 :: nat)" by (simp add: enc_char_def)
  then have "enc_char (hex_upper d) \<and> of_char (hex_upper d) < (128 :: nat)" if "d < 16" for d using hex_upper_in [OF that] by blast
  moreover have "(of_char c :: nat) div 16 < 16" "(of_char c :: nat) mod 16 < 16" using nat_of_char_less_256 [of c] by linarith+
  moreover have "enc_char (CHR ''%'')" by (simp add: enc_char_def)
  ultimately show ?thesis by (simp add: percent_def)
qed

lemma enc_rune_chars: "c \<in> set (enc_rune r) \<Longrightarrow> enc_char c"
proof -
  assume c: "c \<in> set (enc_rune r)"
  consider "isUnreserved r" | "\<not> isUnreserved r" "isUcschar r" | "\<not> isUnreserved r" "\<not> isUcschar r" by blast
  then show ?thesis
  proof cases
    case 1
    then show ?thesis using c unreserved_small [OF 1] by (auto simp: enc_rune_def ascii_rune enc_char_def)
  next
    case 2
    then show ?thesis using c put_rune_bytes [OF ucschar_big [OF 2(2)], of c] by (auto simp: enc_rune_def enc_char_def)
  next
    case 3
    then show ?thesis using c percent_chars by (auto simp: enc_rune_def list_all_iff)
  qed
qed

lemma encLabel_chars:
  "CHR ''/'' \<notin> set (encLabel s)" "CHR ''?'' \<notin> set (encLabel s)" "CHR ''#'' \<notin> set (encLabel s)" "CHR ''&'' \<notin> set (encLabel s)"
  "CHR ''='' \<notin> set (encLabel s)" "CHR ''*'' \<notin> set (encLabel s)"
proof -
  have "enc_char c" if "c \<in> set (encLabel s)" for c using that enc_rune_chars by (auto simp: encLabel_def)
  moreover have "\<forall>c \<in> set ''/?#&=*''. \<not> enc_char c" by (simp add: enc_char_def)
  ultimately show "CHR ''/'' \<notin> set (encLabel s)" "CHR ''?'' \<notin> set (encLabel s)" "CHR ''#'' \<notin> set (encLabel s)" "CHR ''&'' \<notin> set (encLabel s)"
    "CHR ''='' \<notin> set (encLabel s)" "CHR ''*'' \<notin> set (encLabel s)" by auto
qed

lemma ValidString_enc_rune: "scalar r \<Longrightarrow> ValidString (enc_rune r)"
proof -
  assume s: "scalar r"
  have "ValidString (put_rune r)" using runes_put [of "[r]"] s by simp
  moreover have "ValidString (concat (map percent cs))" for cs
    using percent_chars by (intro ValidString_ascii) (fastforce simp: list_all_iff)
  ultimately show ?thesis by (simp add: enc_rune_def)
qed

lemma ValidString_encLabel: "ValidString s \<Longrightarrow> ValidString (encLabel s)"
  using put_runes_runes [of s] ValidString_enc_rune unfolding encLabel_def by (intro ValidString_concat) (auto simp: list_all_iff)

lemma runes_Nil_iff: "runes s = [] \<longleftrightarrow> s = []"
  by (subst runes.simps) auto

lemma encLabel_Nil_iff: "encLabel s = [] \<longleftrightarrow> s = []"
proof
  assume "encLabel s = []"
  moreover have "enc_rune r \<noteq> []" for r by (auto simp: enc_rune_def put_rune_def percent_def)
  ultimately have "runes s = []" by (auto simp: encLabel_def)
  then show "s = []" by (simp add: runes_Nil_iff)
qed (simp add: encLabel_def)

section \<open>Labels\<close>

text \<open>
  What is relied on of Unicode normalization, on valid strings: NFC is idempotent, keeps a string valid and non-empty,
  replaces U+212A, and brings in no rune the fold maps (an ASCII capital, U+00DF, U+03C2, U+200C, U+200D) that the
  string without U+212A did not hold.
\<close>

definition folds :: "nat \<Rightarrow> bool" where
  "folds r \<longleftrightarrow> r \<in> {0x200C, 0x200D, 0x00DF, 0x03C2} \<or> within_runes r 65 90"

definition unicode_ok :: "unicode \<Rightarrow> bool" where
  "unicode_ok U \<longleftrightarrow> (\<forall>s. ValidString s \<longrightarrow>
     ValidString (nfc U s) \<and> nfc U (nfc U s) = nfc U s \<and> (nfc U s = [] \<longleftrightarrow> s = []) \<and> 0x212A \<notin> set (runes (nfc U s))
     \<and> (0x212A \<notin> set (runes s) \<longrightarrow> (\<forall>r \<in> set (runes (nfc U s)). folds r \<longrightarrow> r \<in> set (runes s))))"

lemma unicode_okD:
  assumes "unicode_ok U" and "ValidString s"
  shows "ValidString (nfc U s)" "nfc U (nfc U s) = nfc U s" "nfc U s = [] \<longleftrightarrow> s = []" "0x212A \<notin> set (runes (nfc U s))"
    "0x212A \<notin> set (runes s) \<Longrightarrow> r \<in> set (runes (nfc U s)) \<Longrightarrow> folds r \<Longrightarrow> r \<in> set (runes s)"
  using assms unfolding unicode_ok_def by blast+

definition folded_runes :: "nat \<Rightarrow> nat list" where
  "folded_runes r =
     (if r = 0x200C \<or> r = 0x200D then []
      else if r = 0x00DF then [115, 115]
      else if r = 0x03C2 then [0x03C3]
      else if within_runes r 65 90 then [r + 32]
      else [r])"

lemma fold_rune_runes: "fold_rune r = put_runes (folded_runes r)"
proof -
  have "put_rune 115 = ''s''" by code_simp
  then show ?thesis by (simp add: fold_rune_def folded_runes_def)
qed

lemma folded_runes_ok:
  "scalar r \<Longrightarrow> list_all scalar (folded_runes r)"
  "x \<in> set (folded_runes r) \<Longrightarrow> \<not> folds x"
  "x \<in> set (folded_runes r) \<Longrightarrow> r \<noteq> 0x212A \<Longrightarrow> x \<noteq> 0x212A"
  by (auto simp: folded_runes_def folds_def scalar_def within_runes_def split: if_splits)

lemma folded_same: "\<not> folds r \<Longrightarrow> folded_runes r = [r]"
  by (auto simp: folded_runes_def folds_def)

lemma foldLabel_runes: "foldLabel U s = nfc U (put_runes (concat (map folded_runes (runes (nfc U s)))))"
proof -
  have "concat (map fold_rune rs) = put_runes (concat (map folded_runes rs))" for rs
    by (induction rs) (simp_all add: fold_rune_runes)
  then show ?thesis by (simp add: foldLabel_def)
qed

lemma fold_twice:
  assumes "unicode_ok U" and "ValidString s"
  shows "ValidString (foldLabel U s)" "foldLabel U (foldLabel U s) = foldLabel U s"
proof -
  note n = unicode_okD [OF assms]
  define rs where "rs = concat (map folded_runes (runes (nfc U s)))"
  define m where "m = put_runes rs"
  have l: "foldLabel U s = nfc U m" by (simp add: foldLabel_runes m_def rs_def)
  have "list_all scalar (runes (nfc U s))" using put_runes_runes [OF n(1)] by simp
  then have rs: "list_all scalar rs" using folded_runes_ok(1) by (auto simp: rs_def list_all_iff)
  have m: "ValidString m" "runes m = rs" using runes_put [OF rs] by (simp_all add: m_def)
  have no: "0x212A \<notin> set rs" "\<And>r. r \<in> set rs \<Longrightarrow> \<not> folds r"
    using folded_runes_ok(2,3) n(4) by (auto simp: rs_def)
  note k = unicode_okD [OF assms(1) m(1)]
  show "ValidString (foldLabel U s)" using k(1) l by simp
  have "\<not> folds r" if "r \<in> set (runes (nfc U m))" for r using k(5) [of r] that no m(2) by auto
  then have "concat (map folded_runes (runes (nfc U m))) = runes (nfc U m)"
    by (induction "runes (nfc U m)") (simp_all add: folded_same map_idI concat_map_singleton cong: map_cong)
  then show "foldLabel U (foldLabel U s) = foldLabel U s"
    using k(1,2) put_runes_runes [OF k(1)] by (simp add: l foldLabel_runes [of U "nfc U m"])
qed

definition label_ok :: "unicode \<Rightarrow> string \<Rightarrow> bool" where
  "label_ok U l \<longleftrightarrow> l \<noteq> [] \<and> ValidString l \<and> foldLabel U l = l \<and> rejectCheck U l = Inr ()"

lemma parse_label_sound: "unicode_ok U \<Longrightarrow> parse_label U seg = Inr l \<Longrightarrow> label_ok U l"
  using fold_twice [of U] by (auto simp: parse_label_def decodeComponent_def label_ok_def chain_iff) (simp add: rejectCheck_def)

lemma parse_label_enc: "label_ok U l \<Longrightarrow> parse_label U (encLabel l) = Inr l"
  by (simp add: label_ok_def parse_label_def decodeComponent_def decode_encLabel encLabel_Nil_iff)

section \<open>Values\<close>

definition pair_ok :: "unicode \<Rightarrow> string \<times> string \<Rightarrow> bool" where
  "pair_ok U p \<longleftrightarrow> fst p \<noteq> [] \<and> ValidString (fst p) \<and> ValidString (snd p) \<and> nfc U (fst p) = fst p \<and> nfc U (snd p) = snd p"

definition path_ok :: "unicode \<Rightarrow> parse_value \<Rightarrow> bool" where
  "path_ok U v \<longleftrightarrow>
     (case pv_form v of
        CapabilityQuery \<Rightarrow> (\<exists>c. label_ok U c \<and> v = zero_value \<lparr>pv_form := CapabilityQuery, pv_capability := c, pv_query := pv_query v\<rparr>)
      | Concrete \<Rightarrow> label_ok U (pv_org v) \<and> pv_capability v = []
          \<and> (if pv_has_ns v then label_ok U (pv_ns v) else pv_ns v = [])
          \<and> (if pv_has_svc v then label_ok U (pv_svc v) else pv_svc v = [])
          \<and> (if pv_has_inst v then label_ok U (pv_inst v) else pv_inst v = []))"

lemma path_ok_query: "path_ok U (v \<lparr>pv_query := q\<rparr>) = path_ok U v"
  by (cases v) (auto simp: path_ok_def zero_value_def split: uri_form.splits)

lemma setPos_ok:
  assumes "path_ok U v" and "pv_form v = Concrete" and "label_ok U l"
  shows "path_ok U (setPos v pos l) \<and> pv_form (setPos v pos l) = Concrete"
  using assms by (simp add: path_ok_def setPos_def)

lemma parse_segs_ok:
  "unicode_ok U \<Longrightarrow> parse_segs U pos segs v = Inr v' \<Longrightarrow> path_ok U v \<Longrightarrow> pv_form v = Concrete \<Longrightarrow> pv_query v = []
    \<Longrightarrow> path_ok U v' \<and> pv_form v' = Concrete \<and> pv_query v' = []"
proof (induction U pos segs v rule: parse_segs.induct)
  case (2 U pos seg segs v)
  then obtain mpos restseg l where "matchMarker seg = Some (mpos, restseg)" "\<not> mpos \<le> pos" "\<not> assigned v mpos"
      "parse_label U restseg = Inr l" "parse_segs U mpos segs (setPos v mpos l) = Inr v'"
    by (auto simp: chain_iff split: option.splits if_splits)
  moreover have "label_ok U l" using parse_label_sound 2(2) calculation(4) by blast
  ultimately show ?case using 2 setPos_ok [of U v l mpos] by (auto simp: setPos_def)
qed simp

lemma parse_path_ok:
  assumes "unicode_ok U" and "parse_path U path = Inr v"
  shows "path_ok U v \<and> pv_query v = []"
proof -
  let ?segs = "split_at (CHR ''/'') path"
  show ?thesis
  proof (cases "?segs ! 0 = ''*''")
    case True
    then obtain c where "parse_label U (?segs ! 1) = Inr c" "v = zero_value \<lparr>pv_form := CapabilityQuery, pv_capability := c\<rparr>"
      using assms(2) by (auto simp: parse_path_def Let_def chain_iff split: if_splits)
    then show ?thesis using parse_label_sound [OF assms(1)] by (auto simp: path_ok_def zero_value_def)
  next
    case False
    then obtain l where l: "parse_label U (?segs ! 0) = Inr l" "parse_segs U 1 (tl ?segs) (zero_value \<lparr>pv_org := l\<rparr>) = Inr v"
      using assms(2) by (auto simp: parse_path_def Let_def chain_iff split: if_splits)
    have "path_ok U (zero_value \<lparr>pv_org := l\<rparr>)" using parse_label_sound [OF assms(1) l(1)] by (simp add: path_ok_def zero_value_def)
    then show ?thesis using parse_segs_ok [OF assms(1) l(2)] by (simp add: zero_value_def)
  qed
qed

lemma decode_octets_Nil: "decode_octets b s = Inr [] \<Longrightarrow> s = []"
  by (subst (asm) decode_octets.simps) (auto simp: chain_iff split: if_splits option.splits)

lemma parse_pairs_ok:
  "unicode_ok U \<Longrightarrow> parse_pairs U ps = Inr q \<Longrightarrow> (\<forall>p \<in> set q. pair_ok U p) \<and> length q = length ps"
proof (induction U ps arbitrary: q rule: parse_pairs.induct)
  case (2 U p ps)
  then obtain k val dk dv out where c: "cut (CHR ''='') p = Some (k, val)" "k \<noteq> []" "decodeQ k = Inr dk" "decodeQ val = Inr dv"
      "parse_pairs U ps = Inr out" "q = (nfc U dk, nfc U dv) # out"
    by (auto simp: chain_iff split: option.splits if_splits)
  have v: "ValidString dk" "ValidString dv" "dk \<noteq> []"
    using c(2,3,4) decode_octets_Nil [of False k] by (auto simp: decodeQ_def chain_iff)
  have "pair_ok U (nfc U dk, nfc U dv)"
    using unicode_okD [OF 2(2) v(1)] unicode_okD [OF 2(2) v(2)] v(3) by (simp add: pair_ok_def)
  then show ?case using 2(1) [OF c(1) refl c(2) 2(2) c(5)] c(6) by simp
qed simp

lemma split_at_ne: "split_at c s \<noteq> []"
  by (induction s) (auto split: list.splits)

text \<open>A value \<open>Parse\<close> can return.\<close>

definition value_ok :: "unicode \<Rightarrow> parse_value \<Rightarrow> bool" where
  "value_ok U v \<longleftrightarrow> path_ok U v \<and> (\<forall>p \<in> set (pv_query v). pair_ok U p)"

lemma Parse_ok:
  assumes "unicode_ok U" and "Parse U s = Inr v"
  shows "value_ok U v"
proof -
  obtain rest where r: "(case cut (CHR ''?'') rest of
                  None \<Rightarrow> parse_path U rest
                | Some (path, qs) \<Rightarrow>
                    ebind (parse_path U path) (\<lambda>v. ebind (parseQuery U qs) (\<lambda>pairs. Inr (v \<lparr>pv_query := pairs\<rparr>)))) = Inr v"
    using assms(2) by (auto simp: Parse_def split: if_splits option.splits)
  show ?thesis
  proof (cases "cut (CHR ''?'') rest")
    case None
    then show ?thesis using r parse_path_ok [OF assms(1)] by (simp add: value_ok_def)
  next
    case (Some pq)
    then obtain v0 pairs where "parse_path U (fst pq) = Inr v0" "parseQuery U (snd pq) = Inr pairs" "v = v0 \<lparr>pv_query := pairs\<rparr>"
      using r by (auto simp: chain_iff split: prod.splits)
    then show ?thesis using parse_path_ok [OF assms(1)] parse_pairs_ok [OF assms(1)]
      by (auto simp: value_ok_def path_ok_query parseQuery_def split: if_splits)
  qed
qed

section \<open>What was written is parsed\<close>

lemma runes_ascii: "list_all (\<lambda>c. of_char c < (128 :: nat)) s \<Longrightarrow> runes s = map of_char s"
proof -
  assume a: "list_all (\<lambda>c. of_char c < (128 :: nat)) s"
  then have "put_runes (map of_char s) = s" by (induction s) (simp_all add: ascii_rune)
  moreover have "list_all scalar (map of_char s)" using a by (auto simp: list_all_iff scalar_def)
  ultimately show ?thesis by (metis runes_put)
qed

lemma markers_fold:
  "EqualFold ''ns='' ''ns=''" "\<not> EqualFold ''svc'' ''ns=''" "EqualFold ''svc='' ''svc=''" "\<not> EqualFold ''ins'' ''ns=''"
  "\<not> EqualFold ''inst'' ''svc=''" "EqualFold ''inst='' ''inst=''" "EqualFold ''agent'' ''agent''"
  by (simp_all add: EqualFold_def runes_ascii simple_fold_def within_runes_def)

lemma match_own_marker:
  "matchMarker (''ns='' @ t) = Some (2, t)" "matchMarker (''svc='' @ t) = Some (3, t)" "matchMarker (''inst='' @ t) = Some (4, t)"
  using markers_fold by (simp_all add: matchMarker_def markers_def)

definition path_segs :: "parse_value \<Rightarrow> string list" where
  "path_segs v =
     (if pv_has_ns v then [''ns='' @ encLabel (pv_ns v)] else [])
     @ (if pv_has_svc v then [''svc='' @ encLabel (pv_svc v)] else [])
     @ (if pv_has_inst v then [''inst='' @ encLabel (pv_inst v)] else [])"

lemma serialize_path_join:
  "pv_form v = Concrete \<Longrightarrow> serialize_path v = join (CHR ''/'') (encLabel (pv_org v) # path_segs v)"
  "pv_form v = CapabilityQuery \<Longrightarrow> serialize_path v = join (CHR ''/'') [''*'', encLabel (pv_capability v)]"
  by (simp_all add: serialize_path_def path_segs_def)

lemma serialize_path_query [simp]: "serialize_path (v \<lparr>pv_query := q\<rparr>) = serialize_path v"
  by (cases "pv_form v") (simp_all add: serialize_path_def)

lemma path_segs_free: "p \<in> set (path_segs v) \<Longrightarrow> CHR ''/'' \<notin> set p \<and> p \<noteq> []"
  using encLabel_chars(1) by (auto simp: path_segs_def split: if_splits)

lemma parse_own_path:
  assumes "path_ok U v" and "pv_query v = []"
  shows "parse_path U (serialize_path v) = Inr v"
proof (cases "pv_form v")
  case CapabilityQuery
  then obtain c where c: "label_ok U c" "v = zero_value \<lparr>pv_form := CapabilityQuery, pv_capability := c, pv_query := pv_query v\<rparr>"
    using assms(1) by (auto simp: path_ok_def)
  then have cap: "pv_capability v = c" by (metis parse_value.select_convs(6) parse_value.update_convs(7,6) parse_value.surjective)
  have "split_at (CHR ''/'') (serialize_path v) = [''*'', encLabel c]"
    unfolding serialize_path_join(2) [OF CapabilityQuery] cap by (rule split_join) (use encLabel_chars(1) in auto)
  then show ?thesis using c(2) assms(2) parse_label_enc [OF c(1)] by (simp add: parse_path_def Let_def zero_value_def)
next
  case Concrete
  have "split_at (CHR ''/'') (serialize_path v) = encLabel (pv_org v) # path_segs v"
    unfolding serialize_path_join(1) [OF Concrete] by (rule split_join) (use encLabel_chars(1) path_segs_free in auto)
  moreover have o: "label_ok U (pv_org v)" using assms(1) Concrete by (simp add: path_ok_def)
  moreover have "encLabel (pv_org v) \<noteq> []" using o by (simp add: label_ok_def encLabel_Nil_iff)
  moreover have "encLabel (pv_org v) \<noteq> ''*''" "CHR ''*'' \<notin> set (encLabel (pv_org v))" using encLabel_chars(6) [of "pv_org v"] by auto
  moreover have "[] \<notin> set (path_segs v)" using path_segs_free by blast
  moreover have "parse_segs U 1 (path_segs v) (zero_value \<lparr>pv_org := pv_org v\<rparr>) = Inr v"
    using assms Concrete parse_label_enc [of U] match_own_marker
    by (cases v) (auto simp: path_ok_def path_segs_def zero_value_def assigned_def setPos_def)
  ultimately show ?thesis using parse_label_enc [OF o] by (simp add: parse_path_def Let_def)
qed

lemma parse_own_pairs:
  "\<forall>p \<in> set q. pair_ok U p \<Longrightarrow> parse_pairs U (map enc_pair q) = Inr q"
proof (induction q)
  case (Cons p q)
  have "cut (CHR ''='') (enc_pair p) = Some (encLabel (fst p), encLabel (snd p))"
    unfolding enc_pair_def by (rule cut_append) (rule encLabel_chars(5))
  then show ?case using Cons by (simp add: pair_ok_def encLabel_Nil_iff decodeQ_def decode_encLabel)
qed simp

lemma sort_map_key: "sort (map f xs) = map f (sort_key f xs)"
  by (rule properties_for_sort) simp_all

lemma sort_key_idem: "map f (sort_key f (sort_key f xs)) = map f (sort_key f xs)"
  unfolding sort_map_key [symmetric] by (simp add: sort_map_key sort_key_id_if_sorted)

lemma enc_pair_free: "CHR ''&'' \<notin> set (enc_pair p)" "enc_pair p \<noteq> []"
  using encLabel_chars(4) by (auto simp: enc_pair_def)

lemma parse_own_query:
  assumes "\<forall>p \<in> set q. pair_ok U p" and "q \<noteq> []"
  shows "parseQuery U (join (CHR ''&'') (sort (map enc_pair q))) = Inr (sort_key enc_pair q)"
proof -
  let ?q = "sort_key enc_pair q"
  have ne: "map enc_pair ?q \<noteq> []" using assms(2) by (metis length_0_conv length_map length_sort)
  have "split_at (CHR ''&'') (join (CHR ''&'') (map enc_pair ?q)) = map enc_pair ?q"
    using ne by (rule split_join) (use enc_pair_free in auto)
  moreover have "join (CHR ''&'') (map enc_pair ?q) \<noteq> []"
    using ne enc_pair_free(2) by (cases "map enc_pair ?q" rule: list.exhaust; cases "tl (map enc_pair ?q)") auto
  ultimately show ?thesis using parse_own_pairs [of ?q U] assms(1) by (simp add: parseQuery_def sort_map_key)
qed

lemma serialize_valid:
  assumes "value_ok U v"
  shows "ValidString (serialize_path v)" "\<forall>p \<in> set (pv_query v). ValidString (enc_pair p)"
proof -
  have "list_all (\<lambda>c. of_char c < (128 :: nat)) ''/ns=''" "list_all (\<lambda>c. of_char c < (128 :: nat)) ''/svc=''"
    "list_all (\<lambda>c. of_char c < (128 :: nat)) ''/inst=''" "list_all (\<lambda>c. of_char c < (128 :: nat)) ''*/''" by simp_all
  then have a: "ValidString ''/ns=''" "ValidString ''/svc=''" "ValidString ''/inst=''" "ValidString ''*/''"
    using ValidString_ascii by blast+
  have l: "ValidString (encLabel l)" if "label_ok U l" for l using that ValidString_encLabel by (simp add: label_ok_def)
  show "ValidString (serialize_path v)"
  proof (cases "pv_form v")
    case CapabilityQuery
    then obtain c where c: "label_ok U c" "v = zero_value \<lparr>pv_form := CapabilityQuery, pv_capability := c, pv_query := pv_query v\<rparr>"
      using assms by (auto simp: value_ok_def path_ok_def)
    then have cap: "pv_capability v = c" by (metis parse_value.select_convs(6) parse_value.update_convs(7,6) parse_value.surjective)
    show ?thesis using CapabilityQuery cap ValidString_append [OF a(4) l [OF c(1)]] by (simp add: serialize_path_def)
  next
    case Concrete
    then have "label_ok U (pv_org v)" "pv_has_ns v \<longrightarrow> label_ok U (pv_ns v)" "pv_has_svc v \<longrightarrow> label_ok U (pv_svc v)"
        "pv_has_inst v \<longrightarrow> label_ok U (pv_inst v)"
      using assms by (simp_all add: value_ok_def path_ok_def split: if_splits)
    then show ?thesis using Concrete l by (auto simp: serialize_path_def intro!: ValidString_append ValidString_Cons)
  qed
  show "\<forall>p \<in> set (pv_query v). ValidString (enc_pair p)"
    using assms by (auto simp: value_ok_def pair_ok_def enc_pair_def intro!: ValidString_append ValidString_Cons ValidString_encLabel)
qed

lemma serialize_path_free: "CHR ''?'' \<notin> set (serialize_path v)" "CHR ''#'' \<notin> set (serialize_path v)"
  using encLabel_chars(2,3) by (auto simp: serialize_path_def split: uri_form.splits)

lemma query_free: "CHR ''#'' \<notin> set (join (CHR ''&'') (sort (map enc_pair q)))"
proof
  assume "CHR ''#'' \<in> set (join (CHR ''&'') (sort (map enc_pair q)))"
  from set_join [OF this] obtain p where "CHR ''#'' \<in> set (enc_pair p)" by auto
  then show False using encLabel_chars(3) by (auto simp: enc_pair_def)
qed

definition sorted_value :: "parse_value \<Rightarrow> parse_value" where
  "sorted_value v = v \<lparr>pv_query := sort_key enc_pair (pv_query v)\<rparr>"

lemma Parse_Serialize:
  assumes "value_ok U v"
  shows "Parse U (Serialize v) = Inr (sorted_value v)"
proof -
  let ?q = "join (CHR ''&'') (sort (map enc_pair (pv_query v)))"
  define rest where "rest = serialize_path v @ (if length (pv_query v) > 0 then CHR ''?'' # ?q else [])"
  have s: "Serialize v = ''agent://'' @ rest" by (simp add: Serialize_def rest_def)
  have c: "cut_scheme (''agent://'' @ rest) = Some (''agent'', rest)" by simp
  have "ValidString ''agent://''" by (rule ValidString_ascii) simp
  moreover have "ValidString ?q" using serialize_valid(2) [OF assms] by (intro ValidString_join) auto
  ultimately have v: "ValidString (''agent://'' @ rest)"
    using serialize_valid(1) [OF assms] unfolding rest_def by (intro ValidString_append) (auto intro: ValidString_Cons)
  have f: "CHR ''#'' \<notin> set rest" using serialize_path_free(2) query_free by (simp add: rest_def)
  have p: "path_ok U (v \<lparr>pv_query := []\<rparr>)" "serialize_path (v \<lparr>pv_query := []\<rparr>) = serialize_path v"
    using assms by (simp_all add: value_ok_def path_ok_query)
  then have path: "parse_path U (serialize_path v) = Inr (v \<lparr>pv_query := []\<rparr>)" using parse_own_path [OF p(1)] by simp
  show ?thesis
  proof (cases "pv_query v = []")
    case True
    then have "v \<lparr>pv_query := []\<rparr> = sorted_value v" by (cases v) (simp add: sorted_value_def)
    then show ?thesis using True s c v f path cut_free [OF serialize_path_free(1), of v] markers_fold(7)
      by (simp add: Parse_def rest_def del: cut_scheme.simps)
  next
    case False
    have "parseQuery U ?q = Inr (sort_key enc_pair (pv_query v))" using parse_own_query False assms by (simp add: value_ok_def)
    then show ?thesis using False s c v f path cut_append [OF serialize_path_free(1), of v ?q] markers_fold(7)
      by (simp add: Parse_def rest_def sorted_value_def del: cut_scheme.simps)
  qed
qed

lemma Serialize_sorted: "Serialize (sorted_value v) = Serialize v"
proof -
  have "pv_query (sorted_value v) = [] \<longleftrightarrow> pv_query v = []" by (simp add: sorted_value_def) (metis length_0_conv length_sort)
  moreover have "sort (map enc_pair (pv_query (sorted_value v))) = sort (map enc_pair (pv_query v))"
    by (simp add: sorted_value_def sort_map_key sort_key_idem)
  moreover have "serialize_path (sorted_value v) = serialize_path v" by (simp add: sorted_value_def)
  ultimately show ?thesis by (simp add: Serialize_def)
qed

text \<open>C38: the canonical form is a fixed point. Whatever spelling of a URI is accepted, its canonical form is valid UTF-8, is
  its own canonical form, is equal to the spelling it came from, and keeps the form of the URI: a wildcard query is
  never taken for a locator, nor a locator for a query.\<close>

theorem canonical_fixed:
  assumes "unicode_ok U" and "Canonical U s = Inr c"
  shows "Canonical U c = Inr c \<and> Equals U s c = Inr True \<and> ValidString c
    \<and> (RequireConcreteLocator U s = Inr c \<longrightarrow> RequireConcreteLocator U c = Inr c \<and> ValidateCapabilityQuery U c = Inl WRONG_FORM)
    \<and> (ValidateCapabilityQuery U s = Inr c \<longrightarrow> ValidateCapabilityQuery U c = Inr c \<and> RequireConcreteLocator U c = Inl WRONG_FORM)"
proof -
  obtain v where v: "Parse U s = Inr v" "c = Serialize v" using assms(2) by (auto simp: Canonical_def chain_iff)
  have p: "Parse U c = Inr (sorted_value v)" using Parse_Serialize [OF Parse_ok [OF assms(1) v(1)]] v(2) by simp
  have f: "pv_form (sorted_value v) = pv_form v" by (simp add: sorted_value_def)
  have c: "Canonical U c = Inr c" using p v(2) by (simp add: Canonical_def Serialize_sorted)
  moreover have "Equals U s c = Inr True" using c assms(2) by (simp add: Equals_def)
  moreover have "ValidString c" using p by (auto simp: Parse_def split: if_splits)
  ultimately show ?thesis using p v f by (auto simp: RequireConcreteLocator_def ValidateCapabilityQuery_def Serialize_sorted)
qed

text \<open>A normalization that only replaces the Kelvin sign.\<close>

definition kelvin :: "nat \<Rightarrow> nat" where
  "kelvin r = (if r = 0x212A then 75 else r)"

definition demo_unicode :: unicode where
  "demo_unicode = \<lparr>nfc = (\<lambda>s. put_runes (map kelvin (runes s))),
     is_Cc = (\<lambda>r. r < 32), is_Cf = (\<lambda>r. r = 0x200B), is_Zl = (\<lambda>r. r = 0x2028), is_Zp = (\<lambda>r. r = 0x2029),
     is_Latin = (\<lambda>r. within_runes r 65 122), is_Cyrillic = (\<lambda>r. within_runes r 0x400 0x4FF), is_Greek = (\<lambda>r. within_runes r 0x370 0x3FF)\<rparr>"

lemma demo_nfc: "list_all (\<lambda>c. of_char c < (128 :: nat)) s \<Longrightarrow> nfc demo_unicode s = s"
proof -
  assume a: "list_all (\<lambda>c. of_char c < (128 :: nat)) s"
  then have "map kelvin (runes s) = runes s" by (auto simp: kelvin_def runes_ascii list_all_iff intro!: map_idI)
  then show ?thesis using put_runes_runes [OF ValidString_ascii [OF a]] by (simp add: demo_unicode_def)
qed

lemma demo_unicode_ok: "unicode_ok demo_unicode"
  unfolding unicode_ok_def
proof (intro allI impI)
  fix s assume v: "ValidString s"
  have n: "nfc demo_unicode t = put_runes (map kelvin (runes t))" for t by (simp add: demo_unicode_def)
  have "list_all scalar (map kelvin (runes s))" using put_runes_runes [OF v] by (auto simp: kelvin_def list_all_iff scalar_def)
  from runes_put [OF this] have r: "runes (nfc demo_unicode s) = map kelvin (runes s)" "ValidString (nfc demo_unicode s)"
    by (simp_all only: n)
  have "kelvin (kelvin x) = kelvin x" for x by (simp add: kelvin_def)
  then have "map kelvin (map kelvin (runes s)) = map kelvin (runes s)" by simp
  then have i: "nfc demo_unicode (nfc demo_unicode s) = nfc demo_unicode s" unfolding n [of "nfc demo_unicode s"] r(1) by (simp only: n)
  have e: "nfc demo_unicode s = [] \<longleftrightarrow> s = []"
    using r(1) runes_Nil_iff [of s] runes_Nil_iff [of "nfc demo_unicode s"] by simp
  have k: "0x212A \<notin> set (runes (nfc demo_unicode s))" unfolding r(1) by (auto simp: kelvin_def)
  have f: "r \<in> set (runes s)" if "0x212A \<notin> set (runes s)" "r \<in> set (runes (nfc demo_unicode s))" for r
    using that unfolding r(1) by (auto simp: kelvin_def split: if_splits)
  show "ValidString (nfc demo_unicode s) \<and> nfc demo_unicode (nfc demo_unicode s) = nfc demo_unicode s
     \<and> (nfc demo_unicode s = [] \<longleftrightarrow> s = []) \<and> 0x212A \<notin> set (runes (nfc demo_unicode s))
     \<and> (0x212A \<notin> set (runes s) \<longrightarrow> (\<forall>r \<in> set (runes (nfc demo_unicode s)). folds r \<longrightarrow> r \<in> set (runes s)))"
    using r(2) i e k f by blast
qed

lemma demo_uri: "Canonical demo_unicode ''Agent://A'' = Inr ''agent://a''"
proof -
  have r: "runes ''A'' = [65]" "runes ''a'' = [97]" "runes ''Agent'' = [65, 103, 101, 110, 116]" by (simp_all add: runes_ascii)
  have n: "nfc demo_unicode ''A'' = ''A''" "nfc demo_unicode ''a'' = ''a''" by (rule demo_nfc, simp)+
  have p: "put_rune 97 = ''a''" by code_simp
  have "decode_octets True ''A'' = Inr ''A''" by (subst decode_octets.simps) (simp add: decode_octets.simps isUnreserved_def within_runes_def)
  then have "decodeComponent ''A'' = Inr ''A''" by (simp add: decodeComponent_def ValidString_ascii)
  moreover have f: "foldLabel demo_unicode ''A'' = ''a''" by (simp add: foldLabel_def n r fold_rune_def within_runes_def p)
  moreover have "rejectCheck demo_unicode ''a'' = Inr ()" by (simp add: rejectCheck_def r disallowed_def demo_unicode_def within_runes_def)
  ultimately have l: "parse_label demo_unicode ''A'' = Inr ''a''" by (simp add: parse_label_def)
  have "EqualFold ''Agent'' ''agent''" by (simp add: EqualFold_def r simple_fold_def within_runes_def)
  moreover have "ValidString ''Agent://A''" by (rule ValidString_ascii) simp
  ultimately have "Parse demo_unicode ''Agent://A'' = Inr (zero_value \<lparr>pv_org := ''a''\<rparr>)"
    using l by (simp add: Parse_def parse_path_def Let_def zero_value_def)
  moreover have "encLabel ''a'' = ''a''" by (simp add: encLabel_def r enc_rune_def isUnreserved_def within_runes_def p)
  ultimately show ?thesis by (simp add: Canonical_def Serialize_def serialize_path_def zero_value_def)
qed

theorem canonical_fixed_witness:
  "Canonical demo_unicode ''agent://a'' = Inr ''agent://a'' \<and> Equals demo_unicode ''Agent://A'' ''agent://a'' = Inr True"
  using canonical_fixed [OF demo_unicode_ok demo_uri] by blast

end
