(* ===== verification/Seal_Fields.thy ===== *)
theory Seal_Fields
  imports Relay_Auth
begin

unbundle bit_operations_syntax

text \<open>
  Sealed envelopes, the layer of fields and padding (\<open>seal/fields.go\<close>): integer-keyed CBOR maps whose values stay encoded,
  the strict field decoders, the signature preimage, and the Padme padding of the first-layer plaintext. A Go map from
  \<open>uint64\<close> is the list of its entries in the order of their keys. The CoreDet coders are a parameter.
\<close>

section \<open>Field maps\<close>

type_synonym field_map = "(u64 \<times> bytes) list"

fun fm_put :: "u64 \<Rightarrow> bytes \<Rightarrow> field_map \<Rightarrow> field_map" where
  "fm_put k v [] = [(k, v)]"
| "fm_put k v ((k', v') # m) =
     (if k < k' then (k, v) # (k', v') # m else if k = k' then (k, v) # m else (k', v') # fm_put k v m)"

definition fm_del :: "u64 \<Rightarrow> field_map \<Rightarrow> field_map" where
  "fm_del k m = filter (\<lambda>p. fst p \<noteq> k) m"

definition fm_has :: "field_map \<Rightarrow> u64 \<Rightarrow> bool" where
  "fm_has m k \<longleftrightarrow> map_of m k \<noteq> None"

definition fm_ok :: "field_map \<Rightarrow> bool" where
  "fm_ok m \<longleftrightarrow> sorted_wrt (<) (map fst m)"

record coredet =
  enc_map :: "field_map \<Rightarrow> bytes option"
  dec_map :: "bytes \<Rightarrow> field_map option"
  enc_uint :: "u64 \<Rightarrow> bytes option"
  dec_uint :: "bytes \<Rightarrow> u64 option"
  enc_text :: "string \<Rightarrow> bytes option"
  dec_text :: "bytes \<Rightarrow> string option"
  enc_bstr :: "bytes \<Rightarrow> bytes option"
  dec_bstr :: "bytes \<Rightarrow> bytes option"
  enc_list :: "bytes list \<Rightarrow> bytes option"
  dec_list :: "bytes \<Rightarrow> bytes list option"
  item_ok :: "bytes \<Rightarrow> bool"
  item_depth :: "bytes \<Rightarrow> nat"

definition majorUint :: nat where "majorUint = 0"
definition majorBytes :: nat where "majorBytes = 2"
definition majorText :: nat where "majorText = 3"
definition majorArray :: nat where "majorArray = 4"
definition majorMap :: nat where "majorMap = 5"

lemmas majors = majorUint_def majorBytes_def majorText_def majorArray_def majorMap_def

definition has_major :: "bytes \<Rightarrow> nat \<Rightarrow> bool" where
  "has_major raw major \<longleftrightarrow> raw \<noteq> [] \<and> unat (drop_bit 5 (raw ! 0)) = major"

definition decodeFields :: "coredet \<Rightarrow> bytes \<Rightarrow> field_map option" where
  "decodeFields D b =
     (if \<not> has_major b majorMap then None
      else case dec_map D b of
        None \<Rightarrow> None
      | Some m \<Rightarrow>
          (case enc_map D m of
             None \<Rightarrow> None
           | Some re \<Rightarrow> if re \<noteq> b then None else Some m))"

definition FirstIgnorableKey :: u64 where "FirstIgnorableKey = 64"

text \<open>The keys that must be understood and are not; the code reports the smallest.\<close>

definition firstUnknownCritical :: "field_map \<Rightarrow> u64 list \<Rightarrow> u64 option" where
  "firstUnknownCritical m known =
     (case filter (\<lambda>k. k < FirstIgnorableKey \<and> k \<notin> set known) (map fst m) of [] \<Rightarrow> None | k # ks \<Rightarrow> Some (fold min ks k))"

definition raw_field :: "field_map \<Rightarrow> u64 \<Rightarrow> nat \<Rightarrow> (bytes \<Rightarrow> 'a option) \<Rightarrow> 'a option" where
  "raw_field m k major dec =
     (case map_of m k of
        None \<Rightarrow> None
      | Some raw \<Rightarrow> if \<not> has_major raw major then None else dec raw)"

definition rawUint :: "coredet \<Rightarrow> field_map \<Rightarrow> u64 \<Rightarrow> u64 option" where
  "rawUint D m k = raw_field m k majorUint (dec_uint D)"

definition rawText :: "coredet \<Rightarrow> field_map \<Rightarrow> u64 \<Rightarrow> string option" where
  "rawText D m k = raw_field m k majorText (dec_text D)"

definition rawBytes :: "coredet \<Rightarrow> field_map \<Rightarrow> u64 \<Rightarrow> bytes option" where
  "rawBytes D m k = raw_field m k majorBytes (dec_bstr D)"

section \<open>The signature preimage\<close>

definition SigLabel :: string where "SigLabel = ''anet-relay-sig/v2''"
definition keyBody :: u64 where "keyBody = 9"
definition keySig :: u64 where "keySig = 20"
definition preKeys :: "u64 list" where "preKeys = [0, 30, 31, 32, 33, 34]"
definition cborNull :: bytes where "cborNull = [0xf6]"

text \<open>Set one encoded field; an encoding that fails ends the construction.\<close>

definition put_enc :: "u64 \<Rightarrow> bytes option \<Rightarrow> field_map option \<Rightarrow> field_map option" where
  "put_enc k e m = (case m of None \<Rightarrow> None | Some m \<Rightarrow> (case e of None \<Rightarrow> None | Some v \<Rightarrow> Some (fm_put k v m)))"

definition sigPreimage ::
  "crypto \<Rightarrow> coredet \<Rightarrow> field_map \<Rightarrow> bytes \<Rightarrow> bytes \<Rightarrow> u64 \<Rightarrow> bytes option \<Rightarrow> bytes option \<Rightarrow> bytes option" where
  "sigPreimage C D fm enc kid suite ikid enc2 =
     (if (ikid = None) \<noteq> (enc2 = None) then None
      else if list_ex (\<lambda>k. fm_has fm k) preKeys then None
      else case rawBytes D fm keyBody of
        None \<Rightarrow> None
      | Some body \<Rightarrow>
          (let m = put_enc keyBody (enc_bstr D (sha256 C body)) (Some (fm_del keySig fm));
               m = put_enc 0 (enc_text D SigLabel) m;
               m = put_enc 30 (enc_bstr D enc) m;
               m = put_enc 31 (enc_bstr D kid) m;
               m = put_enc 32 (enc_uint D suite) m;
               m = put_enc 33 (case ikid of None \<Rightarrow> Some cborNull | Some i \<Rightarrow> enc_bstr D i) m;
               m = put_enc 34 (case enc2 of None \<Rightarrow> Some cborNull | Some e \<Rightarrow> enc_bstr D e) m
           in case m of None \<Rightarrow> None | Some m \<Rightarrow> enc_map D m))"

section \<open>Padme\<close>

fun bits_Len :: "nat \<Rightarrow> nat" where
  "bits_Len n = (if n = 0 then 0 else Suc (bits_Len (n div 2)))"

declare bits_Len.simps [simp del]

definition MaxInt :: int where "MaxInt = 9223372036854775807"

definition pad_mask :: "int \<Rightarrow> int" where
  "pad_mask n = (let e = bits_Len (nat n) - 1; s = bits_Len e in push_bit (e - s) 1 - 1)"

definition Padme :: "int \<Rightarrow> int" where
  "Padme n =
     (if n < 2 then n
      else if n > MaxInt - pad_mask n then n
      else (n + pad_mask n) AND NOT (pad_mask n))"

definition cborHeadLen :: "nat \<Rightarrow> nat" where
  "cborHeadLen n = (if n < 24 then 1 else if n \<le> 0xff then 2 else if n \<le> 0xffff then 3 else if n \<le> 0xffffffff then 5 else 9)"

definition encodedLen :: "field_map \<Rightarrow> nat" where
  "encodedLen m = cborHeadLen (length m) + sum_list (map (\<lambda>(k, v). cborHeadLen (unat k) + length v) m)"

definition padLenFor :: "int \<Rightarrow> int option" where
  "padLenFor d =
     (if d < 0 then None
      else (case filter (\<lambda>h. d - (int h - 1) \<ge> 0 \<and> cborHeadLen (nat (d - (int h - 1))) = h) [1, 2, 3, 5, 9] of
              [] \<Rightarrow> None
            | h # _ \<Rightarrow> Some (d - (int h - 1))))"

section \<open>Padme rounds up to few lengths\<close>

lemma bits_Len_bounds: "0 < n \<Longrightarrow> 2 ^ (bits_Len n - 1) \<le> n \<and> n < 2 ^ bits_Len n \<and> 0 < bits_Len n"
proof (induction n rule: bits_Len.induct)
  case (1 n)
  show ?case
  proof (cases "n div 2 = 0")
    case True
    then have "n = 1" using 1(2) by simp
    then show ?thesis by (simp add: bits_Len.simps)
  next
    case False
    then have ih: "2 ^ (bits_Len (n div 2) - 1) \<le> n div 2" "n div 2 < 2 ^ bits_Len (n div 2)" "0 < bits_Len (n div 2)"
      using 1 by auto
    have "bits_Len n = Suc (bits_Len (n div 2))" using 1(2) by (simp add: bits_Len.simps [of n])
    moreover have "(2 :: nat) ^ bits_Len (n div 2) = 2 * 2 ^ (bits_Len (n div 2) - 1)" using ih(3) by (simp flip: power_Suc)
    moreover have "n = 2 * (n div 2) + n mod 2" "n mod 2 < 2" by simp_all
    moreover have "(2 :: nat) ^ (bits_Len n - 1) = 2 * 2 ^ (bits_Len (n div 2) - 1)" "(2 :: nat) ^ bits_Len n = 4 * 2 ^ (bits_Len (n div 2) - 1)" "0 < bits_Len n"
      using calculation(1,2) by simp_all
    ultimately show ?thesis using ih by linarith
  qed
qed

lemma bits_Len_unique: "2 ^ e \<le> n \<Longrightarrow> n < 2 ^ Suc e \<Longrightarrow> bits_Len n = Suc e"
proof -
  assume a: "2 ^ e \<le> n" "n < 2 ^ Suc e"
  then have "0 < n" by (meson less_le_trans zero_less_numeral zero_less_power)
  then have b: "2 ^ (bits_Len n - 1) \<le> n" "n < 2 ^ bits_Len n" "0 < bits_Len n" using bits_Len_bounds by auto
  have "(2 :: nat) ^ (bits_Len n - 1) < 2 ^ Suc e" using b(1) a(2) by linarith
  then have "bits_Len n - 1 < Suc e" by (simp only: power_less_imp_less_exp [of "2 :: nat"] one_less_numeral_iff semiring_norm)
  moreover have "(2 :: nat) ^ e < 2 ^ bits_Len n" using b(2) a(1) by linarith
  then have "e < bits_Len n" by (simp only: power_less_imp_less_exp [of "2 :: nat"] one_less_numeral_iff semiring_norm)
  ultimately show ?thesis by linarith
qed

lemma bits_Len_le: "bits_Len e \<le> e"
  if "0 < e"
  using that
proof (induction e rule: bits_Len.induct)
  case (1 e)
  show ?case
  proof (cases "e div 2 = 0")
    case True
    then show ?thesis using 1(2) by (simp add: bits_Len.simps [of e] bits_Len.simps [of 0])
  next
    case False
    then have "bits_Len (e div 2) \<le> e div 2" using 1 by auto
    moreover have "bits_Len e = Suc (bits_Len (e div 2))" using 1(2) by (simp add: bits_Len.simps [of e])
    moreover have "e = 2 * (e div 2) + e mod 2" by simp
    ultimately show ?thesis using False by linarith
  qed
qed

text \<open>For \<open>2 ^ e \<le> n < 2 ^ (e + 1)\<close> the length is rounded up to a multiple of \<open>2 ^ k\<close>, \<open>k = e - bits_Len e\<close>.\<close>

lemma pad_mask_at:
  assumes "2 ^ e \<le> n" and "n < 2 ^ Suc e"
  shows "pad_mask (int n) = 2 ^ (e - bits_Len e) - 1"
  using bits_Len_unique [OF assms] by (simp add: pad_mask_def Let_def push_bit_eq_mult)

lemma and_not_mask: "(x :: int) AND NOT (2 ^ k - 1) = x div 2 ^ k * 2 ^ k"
proof -
  have "x AND NOT (mask k) = push_bit k (drop_bit k x)" by (rule bit_eqI) (auto simp: bit_simps)
  then show ?thesis by (simp add: mask_eq_exp_minus_1 push_bit_eq_mult drop_bit_eq_div)
qed

text \<open>For lengths that do not come near the end of the range: what \<open>Padme\<close> adds, and that it is a projection.\<close>

lemma Padme_at:
  assumes "1 \<le> e" and "2 ^ e \<le> n" and "n < 2 ^ Suc e" and "int n \<le> MaxInt - pad_mask (int n)"
  defines "k \<equiv> e - bits_Len e"
  shows "Padme (int n) = (int n + 2 ^ k - 1) div 2 ^ k * 2 ^ k"
proof -
  have "(2 :: nat) ^ 1 \<le> 2 ^ e" using assms(1) by (rule power_increasing) simp
  then have "2 \<le> n" using assms(2) by simp
  then show ?thesis using assms(4) pad_mask_at [OF assms(2,3)] and_not_mask [of "int n + 2 ^ k - 1" k]
    by (simp add: Padme_def k_def add_diff_eq)
qed

lemma log_exists: "2 \<le> (n :: nat) \<Longrightarrow> \<exists>e \<ge> 1. 2 ^ e \<le> n \<and> n < 2 ^ Suc e"
proof -
  assume "2 \<le> n"
  then have b: "2 ^ (bits_Len n - 1) \<le> n" "n < 2 ^ bits_Len n" "0 < bits_Len n" using bits_Len_bounds [of n] by auto
  then obtain e where e: "bits_Len n = Suc e" by (cases "bits_Len n") auto
  have "1 \<le> e" using b(2) e \<open>2 \<le> n\<close> by (cases e) simp_all
  moreover have "2 ^ e \<le> n" "n < 2 ^ Suc e" using b e by simp_all
  ultimately show ?thesis by blast
qed

lemma round_up:
  fixes x p :: int
  assumes "0 < p"
  shows "x \<le> (x + p - 1) div p * p" "(x + p - 1) div p * p < x + p" "p dvd (x + p - 1) div p * p"
proof -
  have "x + p - 1 = (x + p - 1) div p * p + (x + p - 1) mod p" by simp
  moreover have "0 \<le> (x + p - 1) mod p" "(x + p - 1) mod p < p" using assms by simp_all
  ultimately show "x \<le> (x + p - 1) div p * p" "(x + p - 1) div p * p < x + p" by linarith+
qed simp

lemma round_up_least:
  fixes x y p :: int
  assumes "0 < p" and "x \<le> y" and "p dvd y"
  shows "(x + p - 1) div p * p \<le> y"
proof -
  obtain q where q: "y = p * q" using assms(3) by auto
  have "(x + p - 1) div p \<le> (p * q + (p - 1)) div p" using assms q by (intro zdiv_mono1) simp_all
  also have "\<dots> = q + (p - 1) div p" using assms(1) by simp
  also have "(p - 1) div p = 0" using assms(1) by simp
  finally show ?thesis using assms(1) q by (metis add.right_neutral mult.commute mult_left_mono order_less_imp_le)
qed

lemma Padme_ge: "n \<le> Padme n"
proof (cases "n < 2 \<or> n > MaxInt - pad_mask n")
  case False
  then have "2 \<le> nat n" by linarith
  then obtain e where e: "1 \<le> e" "2 ^ e \<le> nat n" "nat n < 2 ^ Suc e" using log_exists by blast
  have i: "int (nat n) = n" using False by simp
  show ?thesis using Padme_at [OF e] False i round_up(1) [of "2 ^ (e - bits_Len e)" n] by simp
qed (auto simp: Padme_def)

lemma Padme_small_add:
  assumes "2 \<le> n" and "n \<le> MaxInt - pad_mask n"
  shows "(Padme n - n) * 2 ^ bits_Len (bits_Len (nat n) - 1) < n" "Padme (Padme n) = Padme n"
proof -
  have "2 \<le> nat n" using assms(1) by linarith
  then obtain e where e: "1 \<le> e" "2 ^ e \<le> nat n" "nat n < 2 ^ Suc e" using log_exists by blast
  define k where "k = e - bits_Len e"
  define p where "p = Padme n"
  have i: "int (nat n) = n" using assms(1) by simp
  have l: "bits_Len e \<le> e" using e(1) by (intro bits_Len_le) simp
  have len: "bits_Len (nat n) - 1 = e" using bits_Len_unique [OF e(2,3)] by simp
  have at: "p = (n + 2 ^ k - 1) div 2 ^ k * 2 ^ k" using Padme_at [OF e] assms(2) i by (simp add: p_def k_def)
  have r: "n \<le> p" "p < n + 2 ^ k" "2 ^ k dvd p" using round_up [of "2 ^ k" n] unfolding at by simp_all
  have lo: "(2 :: int) ^ e \<le> n" and hi: "n < 2 ^ Suc e" using e(2,3) i
    by (metis of_nat_le_iff of_nat_numeral of_nat_power, metis of_nat_less_iff of_nat_numeral of_nat_power)
  have "(p - n) * 2 ^ bits_Len e < 2 ^ k * 2 ^ bits_Len e" using r(2) by (intro mult_strict_right_mono) simp_all
  also have "\<dots> = (2 :: int) ^ e" using l by (simp add: k_def flip: power_add)
  finally show "(Padme n - n) * 2 ^ bits_Len (bits_Len (nat n) - 1) < n" using lo len by (simp add: p_def)
  show "Padme (Padme n) = Padme n"
  proof (cases "p > MaxInt - pad_mask p \<or> p < 2")
    case True
    then show ?thesis by (auto simp: Padme_def [of p] simp flip: p_def)
  next
    case False
    then have pn: "int (nat p) = p" by simp
    have "k \<le> Suc e" by (simp add: k_def)
    then have d: "(2 :: int) ^ k dvd 2 ^ Suc e" by (rule le_imp_power_dvd)
    have top: "p \<le> 2 ^ Suc e" unfolding at by (rule round_up_least) (use hi d in simp_all)
    show ?thesis
    proof (cases "p = 2 ^ Suc e")
      case True
      have "nat p = 2 ^ Suc e" using True by (metis nat_int of_nat_numeral of_nat_power)
      then have "2 ^ Suc e \<le> nat p" "nat p < 2 ^ Suc (Suc e)" by simp_all
      note q = Padme_at [OF _ this]
      define j where "j = Suc e - bits_Len (Suc e)"
      have "Padme p = (p + 2 ^ j - 1) div 2 ^ j * 2 ^ j" using q False pn by (simp add: j_def)
      moreover have "(2 :: int) ^ j dvd p" unfolding True by (rule le_imp_power_dvd) (simp add: j_def)
      then have "(p + 2 ^ j - 1) div 2 ^ j * 2 ^ j \<le> p" by (intro round_up_least) simp_all
      ultimately show ?thesis using Padme_ge [of p] by (simp add: p_def)
    next
      case False2: False
      then have "p < 2 ^ Suc e" using top by simp
      then have "2 ^ e \<le> nat p" "nat p < 2 ^ Suc e" using lo r(1) by (simp_all add: nat_less_iff le_nat_iff)
      note q = Padme_at [OF e(1) this]
      have "Padme p = (p + 2 ^ k - 1) div 2 ^ k * 2 ^ k" using q False pn by (simp add: k_def)
      moreover have "(p + 2 ^ k - 1) div 2 ^ k * 2 ^ k \<le> p" using r(3) by (intro round_up_least) simp_all
      ultimately show ?thesis using Padme_ge [of p] by (simp add: p_def)
    qed
  qed
qed

lemma Padme_again: "Padme (Padme n) = Padme n"
proof (cases "n < 2 \<or> n > MaxInt - pad_mask n")
  case True
  then have "Padme n = n" by (auto simp: Padme_def)
  then show ?thesis by simp
next
  case False
  then show ?thesis by (intro Padme_small_add(2)) simp_all
qed

section \<open>The pad\<close>

lemma padLenFor_cases:
  "padLenFor d = (if d < 0 then None else if d < 24 then Some d else if d = 24 then None else if d \<le> 256 then Some (d - 1)
     else if d = 257 then None else if d \<le> 65537 then Some (d - 2) else if d \<le> 65539 then None
     else if d \<le> 4294967299 then Some (d - 4) else if d \<le> 4294967303 then None else Some (d - 8))"
  by (auto simp: padLenFor_def cborHeadLen_def nat_le_iff nat_less_iff)

lemma padLenFor_length:
  assumes "padLenFor d = Some n"
  shows "0 \<le> n \<and> n + int (cborHeadLen (nat n)) = d + 1"
proof -
  have "0 \<le> n" using assms by (auto simp: padLenFor_cases split: if_splits)
  then show ?thesis using assms by (auto simp: padLenFor_cases cborHeadLen_def nat_le_iff nat_less_iff split: if_splits)
qed

text \<open>The loop of \<open>applyPad\<close> ends: \<open>Padme\<close> never goes down, and only finitely many offsets have no pad.\<close>

function pad_target :: "int \<Rightarrow> int \<Rightarrow> int \<times> int" where
  "pad_target base target =
     (case padLenFor (target - base) of
        Some n \<Rightarrow> (target, n)
      | None \<Rightarrow> pad_target base (Padme (target + 1)))"
  by pat_completeness auto
termination
proof (relation "measure (\<lambda>(base, target). nat (base + 4294967305 - target))")
  fix base target :: int
  assume "padLenFor (target - base) = None"
  then have "target - base \<le> 4294967303" by (auto simp: padLenFor_cases split: if_splits)
  then show "((base, Padme (target + 1)), base, target) \<in> measure (\<lambda>(base, target). nat (base + 4294967305 - target))"
    using Padme_ge [of "target + 1"] by auto
qed simp

declare pad_target.simps [simp del]

definition wrapKeyPad :: u64 where "wrapKeyPad = 21"

definition applyPad :: "coredet \<Rightarrow> field_map \<Rightarrow> (field_map \<times> int)" where
  "applyPad D wrap =
     (let wrap = fm_put wrapKeyPad [0x40] wrap;
          base = int (encodedLen wrap);
          (target, n) = pad_target base (Padme base)
      in (fm_put wrapKeyPad (case enc_bstr D (replicate (nat n) 0) of None \<Rightarrow> [] | Some pad \<Rightarrow> pad) wrap, target))"

lemma pad_target_spec:
  assumes "Padme target = target" and "base \<le> target"
  shows "\<exists>n. padLenFor (fst (pad_target base target) - base) = Some n \<and> snd (pad_target base target) = n
    \<and> Padme (fst (pad_target base target)) = fst (pad_target base target) \<and> base \<le> fst (pad_target base target)"
  using assms
proof (induction base target rule: pad_target.induct)
  case (1 base target)
  show ?case
  proof (cases "padLenFor (target - base)")
    case None
    have "base \<le> Padme (target + 1)" using Padme_ge [of "target + 1"] 1(3) by linarith
    then show ?thesis using 1(1) [OF None Padme_again] None by (simp add: pad_target.simps [of base target])
  next
    case (Some n)
    then show ?thesis using 1(2,3) by (simp add: pad_target.simps [of base target])
  qed
qed

section \<open>What the coders do\<close>

text \<open>
  The documented behaviour of the CoreDet coders. What encodes also decodes, to the value it encodes; an encoding starts
  with its major type and has the length RFC 8949 gives it; a map that encodes to what it was decoded from has each key once
  and well-formed items as its values; arrays and maps nest; null is an item; and a value encodes when its length fits an
  \<open>int\<close> and it stays within the decoder's limits, since the encoder decodes what it wrote.
\<close>

definition in_memory :: "'a list \<Rightarrow> bool" where
  "in_memory xs \<longleftrightarrow> int (length xs) \<le> MaxInt"

definition fm_items :: "coredet \<Rightarrow> field_map \<Rightarrow> bool" where
  "fm_items D m \<longleftrightarrow> fm_ok m \<and> list_all (\<lambda>p. item_ok D (snd p)) m"

text \<open>The limits the decoder sets by default: the nesting of arrays and maps, and the entries of one.\<close>

definition max_levels :: nat where "max_levels = 32"
definition max_entries :: nat where "max_entries = 131072"

text \<open>What may be an entry of a larger item.\<close>

definition fits :: "coredet \<Rightarrow> bytes \<Rightarrow> bool" where
  "fits D b \<longleftrightarrow> item_ok D b \<and> item_depth D b < max_levels"

definition scalar_laws :: "coredet \<Rightarrow> bool" where
  "scalar_laws D \<longleftrightarrow>
     (\<forall>x. \<exists>b. enc_uint D x = Some b \<and> has_major b majorUint \<and> dec_uint D b = Some x \<and> item_ok D b \<and> length b = cborHeadLen (unat x))
   \<and> (\<forall>x b. enc_text D x = Some b \<longrightarrow>
        has_major b majorText \<and> dec_text D b = Some x \<and> item_ok D b \<and> length b = cborHeadLen (length x) + length x)
   \<and> (\<forall>x. ValidString x \<and> in_memory x \<longrightarrow> enc_text D x \<noteq> None)
   \<and> (\<forall>x b. enc_bstr D x = Some b \<longrightarrow>
        has_major b majorBytes \<and> dec_bstr D b = Some x \<and> item_ok D b \<and> length b = cborHeadLen (length x) + length x)
   \<and> (\<forall>x. in_memory x \<longrightarrow> enc_bstr D x \<noteq> None)"

definition list_laws :: "coredet \<Rightarrow> bool" where
  "list_laws D \<longleftrightarrow>
     (\<forall>xs b. list_all (item_ok D) xs \<and> enc_list D xs = Some b \<longrightarrow>
        has_major b majorArray \<and> dec_list D b = Some xs \<and> item_ok D b \<and> length b = cborHeadLen (length xs) + sum_list (map length xs))
   \<and> (\<forall>xs. list_all (fits D) xs \<and> length xs \<le> max_entries \<longrightarrow> enc_list D xs \<noteq> None)"

definition map_laws :: "coredet \<Rightarrow> bool" where
  "map_laws D \<longleftrightarrow>
     (\<forall>m b. fm_items D m \<and> enc_map D m = Some b \<longrightarrow>
        has_major b majorMap \<and> dec_map D b = Some m \<and> item_ok D b \<and> length b = encodedLen m)
   \<and> (\<forall>m. fm_ok m \<and> list_all (\<lambda>p. fits D (snd p)) m \<and> length m \<le> max_entries \<longrightarrow> enc_map D m \<noteq> None)
   \<and> (\<forall>b m. dec_map D b = Some m \<and> enc_map D m = Some b \<longrightarrow> fm_items D m)"

definition item_laws :: "coredet \<Rightarrow> bool" where
  "item_laws D \<longleftrightarrow>
     (\<forall>b. item_ok D b \<and> \<not> has_major b majorArray \<and> \<not> has_major b majorMap \<longrightarrow> item_depth D b = 0)
   \<and> (\<forall>xs b n. list_all (item_ok D) xs \<and> enc_list D xs = Some b \<and> list_all (\<lambda>x. item_depth D x \<le> n) xs \<longrightarrow> item_depth D b \<le> Suc n)
   \<and> (\<forall>m b n. fm_items D m \<and> enc_map D m = Some b \<and> list_all (\<lambda>p. item_depth D (snd p) \<le> n) m \<longrightarrow> item_depth D b \<le> Suc n)
   \<and> item_ok D cborNull \<and> item_ok D [0x40] \<and> \<not> item_ok D []"

definition coredet_ok :: "coredet \<Rightarrow> bool" where
  "coredet_ok D \<longleftrightarrow> scalar_laws D \<and> list_laws D \<and> map_laws D \<and> item_laws D"

lemma enc_uintE:
  assumes "coredet_ok D"
  obtains b where "enc_uint D x = Some b" "has_major b majorUint" "dec_uint D b = Some x" "item_ok D b" "length b = cborHeadLen (unat x)"
  using assms unfolding coredet_ok_def scalar_laws_def by blast

lemma enc_textD:
  assumes "coredet_ok D" and "enc_text D x = Some b"
  shows "has_major b majorText" "dec_text D b = Some x" "item_ok D b" "length b = cborHeadLen (length x) + length x"
  using assms unfolding coredet_ok_def scalar_laws_def by blast+

lemma enc_bstrD:
  assumes "coredet_ok D" and "enc_bstr D x = Some b"
  shows "has_major b majorBytes" "dec_bstr D b = Some x" "item_ok D b" "length b = cborHeadLen (length x) + length x"
  using assms unfolding coredet_ok_def scalar_laws_def by blast+

lemma enc_listD:
  assumes "coredet_ok D" and "list_all (item_ok D) xs" and "enc_list D xs = Some b"
  shows "has_major b majorArray" "dec_list D b = Some xs" "item_ok D b" "length b = cborHeadLen (length xs) + sum_list (map length xs)"
  using assms unfolding coredet_ok_def list_laws_def by blast+

lemma enc_mapD:
  assumes "coredet_ok D" and "fm_items D m" and "enc_map D m = Some b"
  shows "has_major b majorMap" "dec_map D b = Some m" "item_ok D b" "length b = encodedLen m"
  using assms unfolding coredet_ok_def map_laws_def by blast+

lemma encodes:
  assumes "coredet_ok D"
  shows "ValidString t \<Longrightarrow> in_memory t \<Longrightarrow> \<exists>b. enc_text D t = Some b"
    "in_memory y \<Longrightarrow> \<exists>b. enc_bstr D y = Some b"
    "list_all (fits D) ys \<Longrightarrow> length ys \<le> max_entries \<Longrightarrow> \<exists>b. enc_list D ys = Some b"
    "fm_ok m \<Longrightarrow> list_all (\<lambda>p. fits D (snd p)) m \<Longrightarrow> length m \<le> max_entries \<Longrightarrow> \<exists>b. enc_map D m = Some b"
    "dec_map D e = Some m \<Longrightarrow> enc_map D m = Some e \<Longrightarrow> fm_items D m"
    "item_ok D cborNull" "item_ok D [0x40]" "item_ok D e \<Longrightarrow> e \<noteq> []"
proof -
  have l: "scalar_laws D" "list_laws D" "map_laws D" "item_laws D" using assms by (simp_all add: coredet_ok_def)
  show "ValidString t \<Longrightarrow> in_memory t \<Longrightarrow> \<exists>b. enc_text D t = Some b" "in_memory y \<Longrightarrow> \<exists>b. enc_bstr D y = Some b"
    using l(1) unfolding scalar_laws_def by blast+
  show "list_all (fits D) ys \<Longrightarrow> length ys \<le> max_entries \<Longrightarrow> \<exists>b. enc_list D ys = Some b"
    using l(2) unfolding list_laws_def by blast
  show "fm_ok m \<Longrightarrow> list_all (\<lambda>p. fits D (snd p)) m \<Longrightarrow> length m \<le> max_entries \<Longrightarrow> \<exists>b. enc_map D m = Some b"
    "dec_map D e = Some m \<Longrightarrow> enc_map D m = Some e \<Longrightarrow> fm_items D m"
    using l(3) unfolding map_laws_def by blast+
  show "item_ok D cborNull" "item_ok D [0x40]" "item_ok D e \<Longrightarrow> e \<noteq> []" using l(4) unfolding item_laws_def by auto
qed

lemma depths:
  assumes "coredet_ok D"
  shows "list_all (item_ok D) ys \<Longrightarrow> enc_list D ys = Some b \<Longrightarrow> list_all (\<lambda>x. item_depth D x \<le> n) ys \<Longrightarrow> item_depth D b \<le> Suc n"
    "fm_items D m \<Longrightarrow> enc_map D m = Some b \<Longrightarrow> list_all (\<lambda>p. item_depth D (snd p) \<le> n) m \<Longrightarrow> item_depth D b \<le> Suc n"
    "item_ok D e \<Longrightarrow> \<not> has_major e majorArray \<Longrightarrow> \<not> has_major e majorMap \<Longrightarrow> item_depth D e = 0"
  using assms unfolding coredet_ok_def item_laws_def by simp_all

lemma flat_items:
  assumes "coredet_ok D"
  shows "enc_uint D x = Some b \<Longrightarrow> item_depth D b = 0" "enc_text D t = Some b \<Longrightarrow> item_depth D b = 0"
    "enc_bstr D y = Some b \<Longrightarrow> item_depth D b = 0" "item_depth D cborNull = 0"
proof -
  have flat: "item_depth D b = 0" if "item_ok D b" and "has_major b n" and "n \<noteq> majorArray" and "n \<noteq> majorMap" for b n
    using that by (intro depths(3) [OF assms]) (auto simp: has_major_def)
  show "enc_uint D x = Some b \<Longrightarrow> item_depth D b = 0"
    by (rule enc_uintE [OF assms, of x]) (auto intro!: flat [of _ majorUint] simp: majors)
  show "enc_text D t = Some b \<Longrightarrow> item_depth D b = 0"
    using enc_textD [OF assms, of t b] flat [of b majorText] by (simp add: majors)
  show "enc_bstr D y = Some b \<Longrightarrow> item_depth D b = 0"
    using enc_bstrD [OF assms, of y b] flat [of b majorBytes] by (simp add: majors)
  have "has_major cborNull 7" by (simp add: has_major_def cborNull_def)
  then show "item_depth D cborNull = 0" using flat [of cborNull 7] encodes(6) [OF assms] by (simp add: majors)
qed

lemma flat_fits:
  assumes "coredet_ok D"
  shows "enc_uint D x = Some b \<Longrightarrow> fits D b" "enc_text D t = Some b \<Longrightarrow> fits D b" "enc_bstr D y = Some b \<Longrightarrow> fits D b" "fits D cborNull"
proof -
  show "enc_uint D x = Some b \<Longrightarrow> fits D b"
    using enc_uintE [OF assms, of x] flat_items(1) [OF assms] by (metis fits_def max_levels_def option.inject zero_less_numeral)
  show "enc_text D t = Some b \<Longrightarrow> fits D b"
    using enc_textD(3) [OF assms] flat_items(2) [OF assms] by (simp add: fits_def max_levels_def)
  show "enc_bstr D y = Some b \<Longrightarrow> fits D b"
    using enc_bstrD(3) [OF assms] flat_items(3) [OF assms] by (simp add: fits_def max_levels_def)
  show "fits D cborNull" using encodes(6) [OF assms] flat_items(4) [OF assms] by (simp add: fits_def max_levels_def)
qed

lemma fits_items: "fm_ok m \<Longrightarrow> list_all (\<lambda>p. fits D (snd p)) m \<Longrightarrow> fm_items D m"
  by (auto simp: fm_items_def fits_def list_all_iff)

lemma fm_put_same: "fm_put k v (fm_put k w m) = fm_put k v m"
  by (induction m) auto

lemma map_of_fm_put [simp]: "map_of (fm_put k v m) = (map_of m)(k \<mapsto> v)"
  by (induction m) auto

lemma keys_fm_put: "set (map fst (fm_put k v m)) = insert k (set (map fst m))"
  by (simp add: dom_map_of_conv_image_fst [symmetric])

lemma fm_ok_put: "fm_ok m \<Longrightarrow> fm_ok (fm_put k v m)"
proof (induction m)
  case (Cons p m)
  obtain k' v' where p: "p = (k', v')" by (cases p)
  have s: "fm_ok m" "\<forall>x \<in> set (map fst m). k' < x" using Cons.prems by (auto simp: fm_ok_def p)
  show ?case
  proof (cases "k < k' \<or> k = k'")
    case True
    then show ?thesis using Cons.prems p s by (auto simp: fm_ok_def)
  next
    case False
    then have "\<forall>x \<in> set (map fst (fm_put k v m)). k' < x" using s(2) unfolding keys_fm_put by auto
    then show ?thesis using False Cons.IH [OF s(1)] p by (simp add: fm_ok_def)
  qed
qed (simp add: fm_ok_def)

lemma set_fm_put: "set (fm_put k v m) \<subseteq> insert (k, v) (set m)"
  by (induction k v m rule: fm_put.induct) auto

lemma fm_items_put: "fm_items D m \<Longrightarrow> item_ok D v \<Longrightarrow> fm_items D (fm_put k v m)"
  using set_fm_put [of k v m] by (auto simp: fm_items_def fm_ok_put list_all_iff)

lemma fm_items_del: "fm_items D m \<Longrightarrow> fm_items D (fm_del k m)"
  by (auto simp: fm_items_def fm_ok_def fm_del_def list_all_iff sorted_wrt_map sorted_wrt_filter)

lemma fm_items_nil [simp]: "fm_items D []"
  by (simp add: fm_items_def fm_ok_def)

lemma map_of_fm_del: "map_of (fm_del k m) = (map_of m)(k := None)"
  by (induction m) (auto simp: fm_del_def)

lemma fm_items_value: "fm_items D m \<Longrightarrow> map_of m k = Some v \<Longrightarrow> item_ok D v"
  by (force simp: fm_items_def list_all_iff dest: map_of_SomeD)

lemma map_of_key: "map_of m k = Some v \<Longrightarrow> k \<in> set (map fst m)"
  by (force dest: map_of_SomeD)

text \<open>A field map is determined by the values of its keys.\<close>

lemma fm_ext: "fm_ok m \<Longrightarrow> fm_ok m' \<Longrightarrow> map_of m = map_of m' \<Longrightarrow> m = m'"
proof (induction m arbitrary: m')
  case Nil
  then show ?case by (cases m') (auto split: if_splits dest: fun_cong)
next
  case (Cons p m)
  obtain k v where p: "p = (k, v)" by (cases p)
  have s: "fm_ok m" "\<forall>x \<in> set (map fst m). k < x" using Cons.prems(1) by (auto simp: fm_ok_def p)
  have kd: "map_of m' k = Some v" using Cons.prems(3) p by (metis map_of_Cons_code(2))
  then obtain k' v' m2 where m': "m' = (k', v') # m2" by (cases m') auto
  have s': "fm_ok m2" "\<forall>x \<in> set (map fst m2). k' < x" using Cons.prems(2) by (auto simp: fm_ok_def m')
  have "k' = k"
  proof (rule ccontr)
    assume "k' \<noteq> k"
    then have "map_of m2 k = Some v" using kd by (simp add: m')
    then have "k \<in> set (map fst m2)" by (rule map_of_key)
    moreover have "map_of (p # m) k' = Some v'" unfolding Cons.prems(3) m' by simp
    then have "map_of m k' = Some v'" using \<open>k' \<noteq> k\<close> p by simp
    then have "k' \<in> set (map fst m)" by (rule map_of_key)
    ultimately show False using s(2) s'(2) by (metis less_asym)
  qed
  then have v: "v' = v" using kd m' by simp
  have "map_of m = map_of m2"
  proof
    fix x show "map_of m x = map_of m2 x"
    proof (cases "x = k")
      case True
      then have "x \<notin> set (map fst m)" "x \<notin> set (map fst m2)" using s(2) s'(2) \<open>k' = k\<close> by auto
      then have "map_of m x = None" "map_of m2 x = None" by (simp_all only: map_of_eq_None_iff set_map not_False_eq_True)
      then show ?thesis by simp
    next
      case False
      then show ?thesis using fun_cong [OF Cons.prems(3), of x] p m' \<open>k' = k\<close> by simp
    qed
  qed
  then show ?case using Cons.IH [OF s(1) s'(1)] p m' v \<open>k' = k\<close> by simp
qed

lemma encodedLen_put: "encodedLen (fm_put k v m) + length w = encodedLen (fm_put k w m) + length v"
proof -
  have "length (fm_put k v m) = length (fm_put k w m)" by (induction m) auto
  moreover have "sum_list (map (\<lambda>(k, v). cborHeadLen (unat k) + length v) (fm_put k v m)) + length w
      = sum_list (map (\<lambda>(k, v). cborHeadLen (unat k) + length v) (fm_put k w m)) + length v"
    by (induction m) auto
  ultimately show ?thesis by (simp add: encodedLen_def)
qed

text \<open>The padded Wrap: its length is the target, and the pad is the encoding of zero bytes.\<close>

lemma applyPad_spec:
  assumes "coredet_ok D" and "applyPad D wrap = (padded, target)" and "target \<le> MaxInt"
  shows "int (encodedLen padded) = target \<and> Padme target = target
    \<and> (\<exists>n pad. padded = fm_put wrapKeyPad pad wrap \<and> enc_bstr D (replicate n 0) = Some pad)"
proof -
  let ?w = "fm_put wrapKeyPad [0x40] wrap"
  define base where "base = int (encodedLen ?w)"
  obtain n where n: "padLenFor (fst (pad_target base (Padme base)) - base) = Some n" "snd (pad_target base (Padme base)) = n"
      "Padme (fst (pad_target base (Padme base))) = fst (pad_target base (Padme base))"
    using pad_target_spec [OF Padme_again Padme_ge] by blast
  have t: "target = fst (pad_target base (Padme base))"
    using assms(2) by (auto simp: applyPad_def Let_def base_def split: prod.splits)
  have len: "0 \<le> n \<and> n + int (cborHeadLen (nat n)) = target - base + 1" using padLenFor_length n(1) t by simp
  moreover have "1 \<le> cborHeadLen (nat n)" "0 \<le> base" by (simp_all add: cborHeadLen_def base_def)
  ultimately have small: "in_memory (replicate (nat n) (0 :: byte))" using assms(3) by (simp add: in_memory_def)
  obtain pad where pad: "enc_bstr D (replicate (nat n) 0) = Some pad" "length pad = cborHeadLen (nat n) + nat n"
    using encodes(2) [OF assms(1) small] enc_bstrD [OF assms(1)] by fastforce
  have a: "padded = fm_put wrapKeyPad pad wrap"
    using assms(2) n(2) pad(1) by (auto simp: applyPad_def Let_def base_def fm_put_same split: prod.splits)
  have "encodedLen padded + 1 = encodedLen ?w + length pad"
    using encodedLen_put [of wrapKeyPad pad wrap "[0x40]"] by (simp add: a)
  then have "int (encodedLen padded) + 1 = base + int (length pad)" unfolding base_def by (metis of_nat_1 of_nat_add)
  then have "int (encodedLen padded) = target" using pad(2) len by simp
  then show ?thesis using a t n(3) pad(1) by auto
qed

text \<open>The target is not much longer than the map.\<close>

lemma Padme_le: "0 \<le> n \<Longrightarrow> Padme n \<le> 2 * n"
proof (cases "n < 2 \<or> n > MaxInt - pad_mask n")
  case False
  then have "2 \<le> n" "n \<le> MaxInt - pad_mask n" by simp_all
  note s = Padme_small_add(1) [OF this]
  have "(Padme n - n) * 1 \<le> (Padme n - n) * 2 ^ bits_Len (bits_Len (nat n) - 1)"
    using Padme_ge [of n] by (intro mult_left_mono) simp_all
  then have "Padme n - n < n" using s by simp
  then show ?thesis by simp
qed (auto simp: Padme_def)

lemma pad_target_le:
  "0 \<le> base \<Longrightarrow> fst (pad_target base target) \<le> max target (2 * (base + 4294967304))"
proof (induction base target rule: pad_target.induct)
  case (1 base target)
  show ?case
  proof (cases "padLenFor (target - base)")
    case None
    then have t: "target + 1 \<le> base + 4294967304" by (auto simp: padLenFor_cases split: if_splits)
    have "Padme (target + 1) \<le> 2 * (base + 4294967304)"
    proof (cases "0 \<le> target + 1")
      case True
      then have "2 * (target + 1) \<le> 2 * (base + 4294967304)" using t by simp
      then show ?thesis using Padme_le [OF True] by (rule order_trans [rotated])
    next
      case False
      then show ?thesis using 1(2) by (simp add: Padme_def)
    qed
    then show ?thesis using 1(1) [OF None 1(2)] None by (simp add: pad_target.simps [of base target])
  next
    case (Some n)
    then show ?thesis by (simp add: pad_target.simps [of base target])
  qed
qed

text \<open>A bound on the length of a map's encoding that adds up.\<close>

definition fm_weight :: "field_map \<Rightarrow> nat" where
  "fm_weight m = sum_list (map (\<lambda>p. 9 + length (snd p)) m)"

lemma fm_weight_put: "fm_weight (fm_put k v m) \<le> fm_weight m + 9 + length v"
  by (induction k v m rule: fm_put.induct) (auto simp: fm_weight_def)

lemma length_weight: "9 * length m \<le> fm_weight m"
  by (induction m) (auto simp: fm_weight_def)

lemma encodedLen_weight: "encodedLen m \<le> 9 + fm_weight m"
proof -
  have h: "cborHeadLen n \<le> 9" for n by (simp add: cborHeadLen_def)
  have "sum_list (map (\<lambda>(k, v). cborHeadLen (unat k) + length v) m) \<le> fm_weight m"
    unfolding fm_weight_def by (rule sum_list_mono) (use h in \<open>auto simp: add_mono\<close>)
  then show ?thesis using h [of "length m"] by (simp add: encodedLen_def)
qed

lemma applyPad_target: "snd (applyPad D wrap) \<le> 4 * int (fm_weight wrap) + 8589934700"
proof -
  let ?w = "fm_put wrapKeyPad [0x40] wrap"
  have b: "encodedLen ?w \<le> fm_weight wrap + 19"
    using encodedLen_weight [of ?w] fm_weight_put [of wrapKeyPad "[0x40]" wrap] by simp
  have "snd (applyPad D wrap) = fst (pad_target (int (encodedLen ?w)) (Padme (int (encodedLen ?w))))"
    by (simp add: applyPad_def Let_def split: prod.splits)
  also have "\<dots> \<le> max (Padme (int (encodedLen ?w))) (2 * (int (encodedLen ?w) + 4294967304))" by (rule pad_target_le) simp
  also have "\<dots> \<le> 2 * (int (encodedLen ?w) + 4294967304)" using Padme_le [of "int (encodedLen ?w)"] by simp
  finally have "snd (applyPad D wrap) \<le> 2 * (int (encodedLen ?w) + 4294967304)" .
  moreover have "int (encodedLen ?w) \<le> int (fm_weight wrap) + 19" using b by simp
  ultimately show ?thesis by presburger
qed

lemma fm_del_put: "fm_del k (fm_put k v m) = fm_del k m"
  by (induction k v m rule: fm_put.induct) (auto simp: fm_del_def)

lemma decodeFields_enc:
  "coredet_ok D \<Longrightarrow> fm_items D m \<Longrightarrow> enc_map D m = Some b \<Longrightarrow> decodeFields D b = Some m"
  using enc_mapD [of D m b] by (simp add: decodeFields_def)

lemma decodeFields_items: "coredet_ok D \<Longrightarrow> decodeFields D b = Some m \<Longrightarrow> fm_items D m \<and> enc_map D m = Some b"
  by (auto simp: decodeFields_def encodes(5) split: option.splits if_splits)

end
