(* ===== verification/Seal_Keys.thy ===== *)
theory Seal_Keys
  imports Seal_Fields Signed_Object
begin

text \<open>
  Sealed envelopes, the published keys (\<open>seal/limits.go\<close>, \<open>seal/suite.go\<close>, \<open>seal/errors.go\<close>, \<open>seal/enckeys.go\<close>,
  \<open>seal/highwater.go\<close>) and the high-water marks of key sets and agent cards (\<open>a2acard/highwater.go\<close>). The struct
  coders of a key set, which go through reflection, are a parameter.
\<close>

section \<open>Limits and reasons\<close>

definition minuteMS :: u64 where "minuteMS = 60 * 1000"
definition hourMS :: u64 where "hourMS = 60 * minuteMS"
definition dayMS :: u64 where "dayMS = 24 * hourMS"
definition ClockSkewMS :: u64 where "ClockSkewMS = 5 * minuteMS"
definition EpochMS :: u64 where "EpochMS = dayMS"
definition PublishAheadMS :: u64 where "PublishAheadMS = 14 * dayMS"
definition DeliveryDeadlineMS :: u64 where "DeliveryDeadlineMS = hourMS"
definition MaxKeyValidityMS :: u64 where "MaxKeyValidityMS = 2 * dayMS"
definition MaxMessageLifetimeMS :: u64 where "MaxMessageLifetimeMS = 15 * dayMS"
definition MaxKeysPerSet :: nat where "MaxKeysPerSet = 32"
definition MaxKELEvents :: nat where "MaxKELEvents = 256"
definition MaxKELBytes :: nat where "MaxKELBytes = 65536"
definition MIDLen :: nat where "MIDLen = 16"
definition SigLen :: nat where "SigLen = 64"

lemmas limit_defs = minuteMS_def hourMS_def dayMS_def ClockSkewMS_def MaxKeyValidityMS_def MaxMessageLifetimeMS_def

datatype reason =
    BadOuter | BadVersion | UnknownSuite | WrongRecipient | AccessInvalid | UnknownKey | Decrypt
  | BadInner | UnknownField | ToMismatch | ExpMismatch | KELTooLarge | BadKEL | FromMismatch | Expired | FromFuture
  | BadLifetime | BadSig | BadKeyState | RevokedKey | GraceExpired | AIDMismatch | BadKeySet | NoUsableKey | InvalidInput
  | InternalError | BadWrap | BadRK | SealedToClosedInteraction | IKeyMismatch
  | WitnessMissing | WitnessStale | WitnessMismatch | WitnessInvalid | WitnessUnknown | KELFromFuture

text \<open>An \<open>*Error\<close>: its reason, and its detail where that is the name of a step; other detail texts are free-form.\<close>

datatype seal_err = SealError (reason_of: reason) (detail_of: string)

definition fail :: "reason \<Rightarrow> seal_err + 'a" where
  "fail r = Inl (SealError r [])"

definition fail_at :: "reason \<Rightarrow> string \<Rightarrow> seal_err + 'a" where
  "fail_at r step = Inl (SealError r step)"

definition Permanent :: "seal_err \<Rightarrow> bool" where
  "Permanent e \<longleftrightarrow> reason_of e \<noteq> InternalError \<and> reason_of e \<noteq> WitnessUnknown"

lemma fail_not_Inr [simp]: "fail r \<noteq> Inr x" "fail_at r s \<noteq> Inr x" "Inr x \<noteq> fail r" "Inr x \<noteq> fail_at r s"
  by (simp_all add: fail_def fail_at_def)

lemma ebind_fail [simp]: "ebind (fail r) f = fail r" "ebind (fail_at r s) f = fail_at r s"
  by (simp_all add: fail_def fail_at_def ebind_def)

text \<open>An inner check whose error only says why: its failure becomes the reason and the step given.\<close>

definition must :: "'a option \<Rightarrow> reason \<Rightarrow> string \<Rightarrow> seal_err + 'a" where
  "must r why step = (case r of None \<Rightarrow> fail_at why step | Some x \<Rightarrow> Inr x)"

lemma must_Inr [simp]: "must r why step = Inr x \<longleftrightarrow> r = Some x"
  by (simp add: must_def split: option.splits)

definition satAdd :: "u64 \<Rightarrow> u64 \<Rightarrow> u64" where
  "satAdd a b = (if a > 0xFFFFFFFFFFFFFFFF - b then 0xFFFFFFFFFFFFFFFF else a + b)"

lemma unat_satAdd: "unat (satAdd a b) = min (unat a + unat b) (2 ^ 64 - 1)"
proof -
  have m: "unat (0xFFFFFFFFFFFFFFFF :: u64) = 2 ^ 64 - 1" by simp
  have le: "b \<le> 0xFFFFFFFFFFFFFFFF" using unat_less_2p64 [of b] by (simp add: word_le_nat_alt)
  have s: "unat (0xFFFFFFFFFFFFFFFF - b) = 2 ^ 64 - 1 - unat b" using unat_sub [OF le] m by simp
  show ?thesis
  proof (cases "a > 0xFFFFFFFFFFFFFFFF - b")
    case True
    then have "2 ^ 64 - 1 - unat b < unat a" using s by (simp add: word_less_nat_alt)
    then show ?thesis using True m by (simp add: satAdd_def)
  next
    case False
    then have "unat a \<le> 2 ^ 64 - 1 - unat b" using s by (simp add: word_less_nat_alt)
    then have "unat a + unat b < 2 ^ 64" using unat_less_2p64 [of b] by simp
    then have "unat (a + b) = unat a + unat b" by (simp add: unat_word_ariths)
    then show ?thesis using False \<open>unat a + unat b < 2 ^ 64\<close> by (simp add: satAdd_def)
  qed
qed

section \<open>Suites and key ids\<close>

type_synonym suite = "8 word"

definition SuiteX25519 :: suite where "SuiteX25519 = 1"
definition SuiteXWing :: suite where "SuiteXWing = 2"

record suite_params =
  pubLen :: nat
  encLen :: nat

definition suite1 :: suite_params where "suite1 = \<lparr>pubLen = 32, encLen = 32\<rparr>"

definition params :: "suite \<Rightarrow> suite_params option" where
  "params s = (if s = SuiteX25519 then Some suite1 else None)"

definition Supported :: "suite \<Rightarrow> bool" where
  "Supported s \<longleftrightarrow> params s \<noteq> None"

definition KIDLen :: nat where "KIDLen = 16"
definition kidLabel :: string where "kidLabel = ''anet-enc-kid/v1''"

definition KID :: "crypto \<Rightarrow> suite \<Rightarrow> bytes \<Rightarrow> bytes" where
  "KID C s pub = take KIDLen (sha256 C (ascii kidLabel @ [s] @ pub))"

lemma Supported_iff: "Supported s \<longleftrightarrow> s = SuiteX25519"
  by (simp add: Supported_def params_def)

section \<open>Key sets\<close>

definition EncKeySetType :: string where "EncKeySetType = ''anet.enckeys/2''"

record enc_key =
  k_kid :: bytes
  k_suite :: suite
  k_pub :: bytes
  k_not_before :: u64
  k_not_after :: u64

definition NewEncKey :: "crypto \<Rightarrow> suite \<Rightarrow> bytes \<Rightarrow> u64 \<Rightarrow> u64 \<Rightarrow> enc_key" where
  "NewEncKey C s pub nb na = \<lparr>k_kid = KID C s pub, k_suite = s, k_pub = pub, k_not_before = nb, k_not_after = na\<rparr>"

definition ValidAt :: "enc_key \<Rightarrow> u64 \<Rightarrow> bool" where
  "ValidAt k now \<longleftrightarrow> k_not_before k \<le> now \<and> now < k_not_after k"

definition enc_key_check :: "crypto \<Rightarrow> enc_key \<Rightarrow> bool" where
  "enc_key_check C k =
     (if k_suite k = 0 then False
      else if length (k_kid k) \<noteq> KIDLen then False
      else if (case params (k_suite k) of Some p \<Rightarrow> length (k_pub k) \<noteq> pubLen p | None \<Rightarrow> length (k_pub k) = 0) then False
      else if k_kid k \<noteq> KID C (k_suite k) (k_pub k) then False
      else if k_not_after k \<le> k_not_before k then False
      else if k_not_after k - k_not_before k > MaxKeyValidityMS then False
      else True)"

record mbox =
  mb_epoch :: u64
  mb_pub :: bytes

record enc_key_set =
  ks_type :: string
  ks_owner :: string
  ks_set_seq :: u64
  ks_enc_keys :: "enc_key list"
  ks_issued_at :: u64
  ks_mbox :: mbox

definition NextSeq :: "u64 \<Rightarrow> u64 \<Rightarrow> u64" where
  "NextSeq now lastSeq = (if lastSeq = 0xFFFFFFFFFFFFFFFF then lastSeq else max now (lastSeq + 1))"

text \<open>The loop over the keys: \<open>seen\<close> are the kids so far, \<open>prev\<close> the previous key's \<open>not_before\<close>.\<close>

fun check_keys :: "crypto \<Rightarrow> bytes list \<Rightarrow> u64 option \<Rightarrow> enc_key list \<Rightarrow> bool" where
  "check_keys C seen prev [] = True"
| "check_keys C seen prev (k # ks) =
     (if \<not> enc_key_check C k then False
      else if k_kid k \<in> set seen then False
      else if (case prev of Some p \<Rightarrow> k_not_before k < p | None \<Rightarrow> False) then False
      else check_keys C (k_kid k # seen) (Some (k_not_before k)) ks)"

definition checkStructure :: "crypto \<Rightarrow> enc_key_set \<Rightarrow> seal_err + unit" where
  "checkStructure C s =
     (if ks_type s \<noteq> EncKeySetType then fail BadKeySet
      else if ks_owner s = [] then fail BadKeySet
      else if length (ks_enc_keys s) = 0 \<or> length (ks_enc_keys s) > MaxKeysPerSet then fail BadKeySet
      else if \<not> check_keys C [] None (ks_enc_keys s) then fail BadKeySet
      else if mb_epoch (ks_mbox s) = 0 then fail BadKeySet
      else if length (mb_pub (ks_mbox s)) \<noteq> 32 then fail BadKeySet
      else if SmallOrderKey (mb_pub (ks_mbox s)) then fail BadKeySet
      else Inr ())"

definition usable_at :: "u64 \<Rightarrow> enc_key \<Rightarrow> bool" where
  "usable_at t k \<longleftrightarrow> k_not_before k \<le> t \<and> t < k_not_after k"

definition checkValidAt :: "enc_key_set \<Rightarrow> u64 \<Rightarrow> seal_err + unit" where
  "checkValidAt s now = (if list_ex (usable_at (satAdd now ClockSkewMS)) (ks_enc_keys s) then Inr () else fail BadKeySet)"

text \<open>The CoreDet struct coders of a key set and of its signed form.\<close>

record signed_key_set =
  sk_set :: bytes
  sk_key_state_seq :: u64
  sk_sig :: bytes

record key_codec =
  enc_set :: "enc_key_set \<Rightarrow> bytes option"
  dec_set :: "bytes \<Rightarrow> enc_key_set option"
  enc_signed_set :: "signed_key_set \<Rightarrow> bytes option"
  dec_signed_set :: "bytes \<Rightarrow> signed_key_set option"

definition firstUnknownKey :: "field_map \<Rightarrow> u64 \<Rightarrow> u64 option" where
  "firstUnknownKey m n = (case filter (\<lambda>k. k \<ge> n) (map fst m) of [] \<Rightarrow> None | k # ks \<Rightarrow> Some (fold min ks k))"

definition decodeEncKeySet :: "coredet \<Rightarrow> key_codec \<Rightarrow> bytes \<Rightarrow> seal_err + enc_key_set" where
  "decodeEncKeySet D K b =
     (case decodeFields D b of
        None \<Rightarrow> fail BadKeySet
      | Some m \<Rightarrow>
          if (case map_of m 0 of Some t \<Rightarrow> dec_text D t \<noteq> Some EncKeySetType | None \<Rightarrow> False) then fail BadKeySet
          else if firstUnknownKey m 6 \<noteq> None then fail BadKeySet
          else if list_ex (\<lambda>n. \<not> fm_has m n) [0, 1, 2, 3, 4, 5] then fail BadKeySet
          else case dec_set K b of
            None \<Rightarrow> fail BadKeySet
          | Some s \<Rightarrow> if enc_set K s \<noteq> Some b then fail BadKeySet else Inr s)"

definition UnmarshalSignedEncKeySet :: "coredet \<Rightarrow> key_codec \<Rightarrow> bytes \<Rightarrow> seal_err + signed_key_set" where
  "UnmarshalSignedEncKeySet D K b =
     (case decodeFields D b of
        None \<Rightarrow> fail BadKeySet
      | Some m \<Rightarrow>
          if list_ex (\<lambda>n. \<not> fm_has m n) [1, 2, 3] then fail BadKeySet
          else must (dec_signed_set K b) BadKeySet [])"

text \<open>A \<open>SignFunc\<close> is \<open>Sign\<close> of a signer; a nil signature has no bytes.\<close>

type_synonym sign_func = "bytes \<Rightarrow> bytes option \<times> u64"

definition SignEncKeySet :: "crypto \<Rightarrow> key_codec \<Rightarrow> enc_key_set option \<Rightarrow> sign_func option \<Rightarrow> seal_err + signed_key_set" where
  "SignEncKeySet C K set0 sign0 =
     (case (set0, sign0) of
        (Some s, Some sign) \<Rightarrow>
          ebind (checkStructure C s) (\<lambda>_.
          ebind (checkValidAt s (ks_issued_at s)) (\<lambda>_.
            case enc_set K s of
              None \<Rightarrow> fail InvalidInput
            | Some b \<Rightarrow>
                (case sign b of (sg, seq) \<Rightarrow>
                   if length (case sg of None \<Rightarrow> [] | Some x \<Rightarrow> x) \<noteq> SigLen then fail InvalidInput
                   else Inr \<lparr>sk_set = b, sk_key_state_seq = seq, sk_sig = the sg\<rparr>)))
      | _ \<Rightarrow> fail InvalidInput)"

fun fromVErr :: "verr \<Rightarrow> seal_err" where
  "fromVErr INVALID_SIGNATURE = SealError BadSig []"
| "fromVErr KEY_STATE_DOWNGRADE = SealError BadKeyState []"
| "fromVErr REVOKED_KEY = SealError RevokedKey []"
| "fromVErr UNKNOWN_AID = SealError BadKEL []"

definition VerifyEncKeySet ::
  "crypto \<Rightarrow> coredet \<Rightarrow> key_codec \<Rightarrow> signed_key_set option \<Rightarrow> string \<Rightarrow> signed_event list \<Rightarrow> u64 \<Rightarrow> seal_err + enc_key_set" where
  "VerifyEncKeySet C D K signed0 expectAID kel now =
     (case signed0 of
        None \<Rightarrow> fail BadKeySet
      | Some sks \<Rightarrow>
          ebind (decodeEncKeySet D K (sk_set sks)) (\<lambda>s.
            case replay C kel of
              Inl _ \<Rightarrow> fail BadKEL
            | Inr states \<Rightarrow>
                if ks_aid (last states) \<noteq> expectAID then fail AIDMismatch
                else if ks_owner s \<noteq> expectAID then fail AIDMismatch
                else if length (sk_sig sks) \<noteq> SigLen then fail BadSig
                else if unat (sk_key_state_seq sks) \<ge> length states then fail BadKeyState
                else if ks_status (last states) = StatusDeactivated then fail RevokedKey
                else if ks_status (states ! unat (sk_key_state_seq sks)) \<noteq> StatusActive then fail BadKeyState
                else (case VerifyObject C kel expectAID (sk_key_state_seq sks) now (sk_set sks) (sk_sig sks) of
                    Inl e \<Rightarrow> Inl (fromVErr e)
                  | Inr _ \<Rightarrow>
                      ebind (checkStructure C s) (\<lambda>_.
                      ebind (checkValidAt s now) (\<lambda>_. Inr s)))))"

section \<open>Choosing a key\<close>

fun latest_valid :: "u64 \<Rightarrow> enc_key option \<Rightarrow> enc_key list \<Rightarrow> enc_key option" where
  "latest_valid now best [] = best"
| "latest_valid now best (k # ks) =
     (if \<not> Supported (k_suite k) \<or> \<not> ValidAt k now then latest_valid now best ks
      else latest_valid now (case best of Some b \<Rightarrow> if k_not_before k \<ge> k_not_before b then Some k else best | None \<Rightarrow> Some k) ks)"

fun earliest_soon :: "u64 \<Rightarrow> enc_key option \<Rightarrow> enc_key list \<Rightarrow> enc_key option" where
  "earliest_soon t best [] = best"
| "earliest_soon t best (k # ks) =
     (if \<not> Supported (k_suite k) \<or> \<not> (k_not_before k \<le> t \<and> t < k_not_after k) then earliest_soon t best ks
      else earliest_soon t (case best of Some b \<Rightarrow> if k_not_before k < k_not_before b then Some k else best | None \<Rightarrow> Some k) ks)"

definition SelectKey :: "crypto \<Rightarrow> enc_key_set option \<Rightarrow> u64 \<Rightarrow> seal_err + enc_key" where
  "SelectKey C s0 now =
     (case s0 of
        None \<Rightarrow> fail NoUsableKey
      | Some s \<Rightarrow>
          (let best = latest_valid now None (ks_enc_keys s);
               best = (if best = None then earliest_soon (satAdd now ClockSkewMS) None (ks_enc_keys s) else best)
           in case best of
                None \<Rightarrow> fail NoUsableKey
              | Some k \<Rightarrow> Inr (NewEncKey C (k_suite k) (k_pub k) (k_not_before k) (k_not_after k))))"

record key_pair_rec =
  kp_public :: enc_key
  kp_private :: bytes

text \<open>A generated or derived private key is its serialization and its public half; the KEM makes it.\<close>

text \<open>A private key of the suite: its serialization, which may fail, and its public key.\<close>

type_synonym kem_key = "bytes option \<times> bytes"

definition newKeyPair :: "crypto \<Rightarrow> suite \<Rightarrow> kem_key \<Rightarrow> u64 \<Rightarrow> u64 \<Rightarrow> seal_err + key_pair_rec" where
  "newKeyPair C s sk nb na =
     (case fst sk of
        None \<Rightarrow> fail InternalError
      | Some priv \<Rightarrow>
          (let kp = \<lparr>kp_public = NewEncKey C s (snd sk) nb na, kp_private = priv\<rparr> in
           if \<not> enc_key_check C (kp_public kp) then fail InvalidInput else Inr kp))"

definition GenerateKeyPair :: "crypto \<Rightarrow> suite \<Rightarrow> kem_key option \<Rightarrow> u64 \<Rightarrow> u64 \<Rightarrow> seal_err + key_pair_rec" where
  "GenerateKeyPair C s generated nb na =
     (case params s of
        None \<Rightarrow> fail UnknownSuite
      | Some p \<Rightarrow> (case generated of None \<Rightarrow> fail InternalError | Some sk \<Rightarrow> newKeyPair C s sk nb na))"

definition DeriveKeyPair :: "crypto \<Rightarrow> suite \<Rightarrow> (bytes \<Rightarrow> kem_key option) \<Rightarrow> bytes \<Rightarrow> u64 \<Rightarrow> u64 \<Rightarrow> seal_err + key_pair_rec" where
  "DeriveKeyPair C s derive ikm nb na =
     (case params s of
        None \<Rightarrow> fail UnknownSuite
      | Some p \<Rightarrow> (case derive ikm of None \<Rightarrow> fail InvalidInput | Some sk \<Rightarrow> newKeyPair C s sk nb na))"

type_synonym key_ring = "bytes \<Rightarrow> key_pair_rec option"

definition StaticKeyRing_Key :: "key_pair_rec option list \<Rightarrow> key_ring" where
  "StaticKeyRing_Key r kid = Option.bind (find (\<lambda>kp. case kp of None \<Rightarrow> False | Some p \<Rightarrow> k_kid (kp_public p) = kid) r) (\<lambda>x. x)"

section \<open>High-water marks\<close>

datatype decision = Ignore | Same | Fork | Replace

record seen =
  sn_set_seq :: u64
  sn_set :: bytes

definition DecideHighWater :: "seen option \<Rightarrow> u64 \<Rightarrow> bytes \<Rightarrow> decision" where
  "DecideHighWater seen0 seq bs =
     (case seen0 of
        None \<Rightarrow> Replace
      | Some s \<Rightarrow> if seq > sn_set_seq s then Replace else if seq < sn_set_seq s then Ignore
                 else if bs = sn_set s then Same else Fork)"

definition DecideHighWaterSigned :: "coredet \<Rightarrow> key_codec \<Rightarrow> seen option \<Rightarrow> signed_key_set option \<Rightarrow> seal_err + decision" where
  "DecideHighWaterSigned D K seen0 incoming =
     (case incoming of
        None \<Rightarrow> fail BadKeySet
      | Some i \<Rightarrow> ebind (decodeEncKeySet D K (sk_set i)) (\<lambda>s. Inr (DecideHighWater seen0 (ks_set_seq s) (sk_set i))))"

record mark =
  mk_seq :: u64
  mk_payload_hash :: bytes

datatype card_decision = Advance | SameCard
datatype card_err = SeqRollback | SeqFork

definition CheckHighWater :: "mark option \<Rightarrow> mark \<Rightarrow> card_err + card_decision" where
  "CheckHighWater stored nxt =
     (case stored of
        None \<Rightarrow> Inr Advance
      | Some s \<Rightarrow>
          if mk_seq nxt < mk_seq s then Inl SeqRollback
          else if mk_seq nxt = mk_seq s then
            (if mk_payload_hash nxt \<noteq> mk_payload_hash s then Inl SeqFork else Inr SameCard)
          else Inr Advance)"

end
