(* ===== verification/Seal_Envelope.thy ===== *)
theory Seal_Envelope
  imports Seal_Keys Kel_Notice
begin

text \<open>
  Sealed envelopes (\<open>seal/envelope.go\<close>, \<open>seal/ixkey.go\<close>): the outer object and its credential, sealing in one layer or two,
  and the receive steps. HPKE, the CoreDet coders and the decoding of a carried log are parameters; the randomness of an
  encapsulation is an argument. A nil pointer or slice that the code tells from an empty one is \<open>None\<close>.
\<close>

section \<open>Data\<close>

definition EnvelopeVersion :: u64 where "EnvelopeVersion = 2"
definition HPKELabel :: string where "HPKELabel = ''anet-seal/v2''"
definition IXLabel :: string where "IXLabel = ''anet-ix/v2''"
definition DAckExporterContext :: string where "DAckExporterContext = ''anet-dack/v1''"
definition AckKeyLen :: nat where "AckKeyLen = 32"
definition MaxNoticeBytes :: nat where "MaxNoticeBytes = 1024"
definition noticesPerMessage :: nat where "noticesPerMessage = 1"
definition AccessKindSession :: u64 where "AccessKindSession = 0"
definition AccessKindCap :: u64 where "AccessKindCap = 1"

definition outerKnown :: "u64 list" where "outerKnown = [1, 2, 3, 4, 5, 6, 7, 8]"
definition wrapKnown :: "u64 list" where "wrapKnown = [1, 2, 3, 21]"
definition innerKnown :: "u64 list" where "innerKnown = [1, 2, 3, 4, 5, 6, 7, 8, 9, 10, 11, 12, 14, 15, 20]"

text \<open>The HPKE suite, RFC 9180: a sender encapsulates to a public key under an info and gets the encapsulated key and a
  context, a recipient gets the context from the encapsulated key and its private key; a context seals, opens and exports.\<close>

record seal_hpke =
  sh_public :: "bytes \<Rightarrow> bool"
  sh_private :: "bytes \<Rightarrow> bool"
  sh_sender :: "bytes \<Rightarrow> bytes \<Rightarrow> bytes \<Rightarrow> (bytes \<times> bytes) option"
  sh_recipient :: "bytes \<Rightarrow> bytes \<Rightarrow> bytes \<Rightarrow> bytes option"
  sh_seal :: "bytes \<Rightarrow> bytes \<Rightarrow> bytes option"
  sh_open :: "bytes \<Rightarrow> bytes \<Rightarrow> bytes option"
  sh_export :: "bytes \<Rightarrow> string \<Rightarrow> nat \<Rightarrow> bytes option"

record cap =
  cap_body :: bytes
  cap_sig :: bytes

record access =
  ac_kind :: u64
  ac_cap :: "cap option"
  ac_proof :: bytes

record sealed_envelope =
  ev_v :: u64
  ev_to :: string
  ev_suite :: suite
  ev_kid :: bytes
  ev_enc :: bytes
  ev_ct :: bytes
  ev_access :: "access option"
  ev_exp :: "u64 option"

record rk =
  rk_suite :: suite
  rk_pub :: bytes

record sealed_inner =
  in_from :: string
  in_seq :: u64
  in_to :: string
  in_type :: string
  in_ix :: string
  in_mid :: bytes
  in_ts :: u64
  in_exp :: u64
  in_body :: bytes
  in_kel :: "bytes option"
  in_notices :: "bytes list"
  in_keys :: "bytes option"
  in_grant :: "bytes option"
  in_rk :: "rk option"
  in_sig :: bytes
  in_ext :: field_map

record ix_key =
  ix_ix :: string
  ix_peer :: string
  ix_suite :: suite
  ix_pub :: bytes
  ix_private :: bytes

section \<open>Encodings\<close>

text \<open>A struct with integer keys encodes as the map of its fields.\<close>

definition enc_struct :: "coredet \<Rightarrow> (u64 \<times> bytes option) list \<Rightarrow> bytes option" where
  "enc_struct D fs = (if list_ex (\<lambda>f. snd f = None) fs then None else enc_map D (map (\<lambda>f. (fst f, the (snd f))) fs))"

definition hpke_info :: "coredet \<Rightarrow> string \<Rightarrow> string \<Rightarrow> suite \<Rightarrow> bytes \<Rightarrow> bytes option" where
  "hpke_info D label rcpt s kid =
     enc_struct D [(1, enc_text D label), (2, enc_text D rcpt), (3, enc_uint D (ucast s)), (4, enc_bstr D kid)]"

definition HPKEInfo :: "coredet \<Rightarrow> string \<Rightarrow> suite \<Rightarrow> bytes \<Rightarrow> bytes option" where
  "HPKEInfo D rcpt s kid = hpke_info D HPKELabel rcpt s kid"

definition IXInfo :: "coredet \<Rightarrow> string \<Rightarrow> suite \<Rightarrow> bytes \<Rightarrow> bytes option" where
  "IXInfo D rcpt s ikid = hpke_info D IXLabel rcpt s ikid"

section \<open>The credential\<close>

definition firstKeyOutside :: "field_map \<Rightarrow> u64 \<Rightarrow> u64 \<Rightarrow> u64 option" where
  "firstKeyOutside m lo hi = (case filter (\<lambda>k. k < lo \<or> k > hi) (map fst m) of [] \<Rightarrow> None | k # ks \<Rightarrow> Some (fold min ks k))"

definition decodeCap :: "coredet \<Rightarrow> bytes \<Rightarrow> cap option" where
  "decodeCap D raw =
     (case decodeFields D raw of
        None \<Rightarrow> None
      | Some m \<Rightarrow>
          if firstKeyOutside m 1 2 \<noteq> None then None
          else (case (rawBytes D m 1, rawBytes D m 2) of
              (Some b, Some s) \<Rightarrow> if length s \<noteq> SigLen then None else Some \<lparr>cap_body = b, cap_sig = s\<rparr>
            | _ \<Rightarrow> None))"

definition cap_encode :: "coredet \<Rightarrow> cap \<Rightarrow> bytes option" where
  "cap_encode D c = enc_struct D [(1, enc_bstr D (cap_body c)), (2, enc_bstr D (cap_sig c))]"

definition UnmarshalCap :: "coredet \<Rightarrow> bytes \<Rightarrow> seal_err + cap" where
  "UnmarshalCap D b = must (decodeCap D b) AccessInvalid ''parse''"

definition cap_Marshal :: "coredet \<Rightarrow> cap option \<Rightarrow> seal_err + bytes" where
  "cap_Marshal D c0 =
     (case c0 of
        None \<Rightarrow> fail InvalidInput
      | Some c \<Rightarrow>
          ebind (must (cap_encode D c) InvalidInput []) (\<lambda>b.
            if decodeCap D b = None then fail InvalidInput else Inr b))"

definition decodeAccess :: "coredet \<Rightarrow> bytes \<Rightarrow> access option" where
  "decodeAccess D raw =
     (case decodeFields D raw of
        None \<Rightarrow> None
      | Some m \<Rightarrow>
          if list_ex (\<lambda>k. k < 1 \<or> k > 3) (map fst m) then None
          else (case rawUint D m 1 of
              None \<Rightarrow> None
            | Some kind \<Rightarrow>
                if kind = AccessKindSession then
                  (if fm_has m 2 \<or> fm_has m 3 then None else Some \<lparr>ac_kind = kind, ac_cap = None, ac_proof = []\<rparr>)
                else if kind = AccessKindCap then
                  (case map_of m 2 of
                     None \<Rightarrow> None
                   | Some craw \<Rightarrow>
                       if \<not> fm_has m 3 then None
                       else (case decodeCap D craw of
                           None \<Rightarrow> None
                         | Some c \<Rightarrow>
                             (case rawBytes D m 3 of
                                None \<Rightarrow> None
                              | Some proof \<Rightarrow> if length proof \<noteq> SigLen then None
                                  else Some \<lparr>ac_kind = kind, ac_cap = Some c, ac_proof = proof\<rparr>)))
                else None))"

definition access_encode :: "coredet \<Rightarrow> access \<Rightarrow> bytes option" where
  "access_encode D a =
     enc_struct D ([(1, enc_uint D (ac_kind a))]
       @ (case ac_cap a of None \<Rightarrow> [] | Some c \<Rightarrow> [(2, cap_encode D c)])
       @ (if ac_proof a = [] then [] else [(3, enc_bstr D (ac_proof a))]))"

definition encodeAccess :: "coredet \<Rightarrow> access option \<Rightarrow> bytes option" where
  "encodeAccess D a0 =
     (case a0 of
        None \<Rightarrow> None
      | Some a \<Rightarrow> (case access_encode D a of
          None \<Rightarrow> None
        | Some b \<Rightarrow> if decodeAccess D b = None then None else Some b))"

section \<open>The outer object\<close>

definition ParseOuter :: "coredet \<Rightarrow> bytes \<Rightarrow> seal_err + sealed_envelope" where
  "ParseOuter D env =
     ebind (must (decodeFields D env) BadOuter []) (\<lambda>m.
     ebind (must (rawUint D m 1) BadOuter []) (\<lambda>v.
       if v \<noteq> EnvelopeVersion then fail BadVersion
       else if firstUnknownCritical m outerKnown \<noteq> None then fail UnknownField
       else case map_of m 7 of
         None \<Rightarrow> fail_at AccessInvalid ''parse''
       | Some raw \<Rightarrow>
     ebind (must (decodeAccess D raw) AccessInvalid ''parse'') (\<lambda>a.
     ebind (if fm_has m 8 then ebind (must (rawUint D m 8) BadOuter []) (\<lambda>e. Inr (Some e)) else Inr None) (\<lambda>e.
     ebind (must (rawText D m 2) BadOuter []) (\<lambda>rcpt.
     ebind (must (rawUint D m 3) BadOuter []) (\<lambda>s.
       if s > 0xff \<or> \<not> Supported (ucast s) then fail UnknownSuite
       else
     ebind (must (rawBytes D m 4) BadOuter []) (\<lambda>kid.
     ebind (must (rawBytes D m 5) BadOuter []) (\<lambda>enc.
     ebind (must (rawBytes D m 6) BadOuter []) (\<lambda>ct.
       if rcpt = [] then fail BadOuter
       else if length kid \<noteq> KIDLen then fail BadOuter
       else if length enc \<noteq> (case params (ucast s) of Some p \<Rightarrow> encLen p | None \<Rightarrow> 0) then fail BadOuter
       else if length ct = 0 then fail BadOuter
       else Inr \<lparr>ev_v = v, ev_to = rcpt, ev_suite = ucast s, ev_kid = kid, ev_enc = enc, ev_ct = ct,
                 ev_access = Some a, ev_exp = e\<rparr>)))))))))"

definition envelope_Marshal :: "coredet \<Rightarrow> sealed_envelope \<Rightarrow> bytes option" where
  "envelope_Marshal D e =
     enc_struct D ([(1, enc_uint D (ev_v e)), (2, enc_text D (ev_to e)), (3, enc_uint D (ucast (ev_suite e))),
       (4, enc_bstr D (ev_kid e)), (5, enc_bstr D (ev_enc e)), (6, enc_bstr D (ev_ct e))]
       @ (case ev_access e of None \<Rightarrow> [] | Some a \<Rightarrow> [(7, access_encode D a)])
       @ (case ev_exp e of None \<Rightarrow> [] | Some x \<Rightarrow> [(8, enc_uint D x)]))"

definition envDigestLabel :: string where "envDigestLabel = ''anet-env/v2''"

definition EnvDigest :: "crypto \<Rightarrow> coredet \<Rightarrow> bytes \<Rightarrow> seal_err + bytes" where
  "EnvDigest C D env =
     ebind (must (decodeFields D env) BadOuter []) (\<lambda>m.
     ebind (must (enc_map D (fm_del 7 m)) BadOuter []) (\<lambda>b.
       Inr (sha256 C (ascii envDigestLabel @ [0] @ b))))"

definition SetAccess :: "coredet \<Rightarrow> bytes \<Rightarrow> access option \<Rightarrow> seal_err + bytes" where
  "SetAccess D env a =
     ebind (must (encodeAccess D a) InvalidInput []) (\<lambda>raw.
     ebind (must (decodeFields D env) BadOuter []) (\<lambda>m.
     ebind (must (enc_map D (fm_put 7 raw m)) BadOuter []) (\<lambda>out.
     ebind (ParseOuter D out) (\<lambda>_. Inr out))))"

section \<open>Interaction keys\<close>

definition rk_KID :: "crypto \<Rightarrow> rk \<Rightarrow> bytes" where
  "rk_KID C r = KID C (rk_suite r) (rk_pub r)"

definition rk_check :: "rk \<Rightarrow> bool" where
  "rk_check r =
     (if rk_suite r \<noteq> SuiteX25519 then False
      else if length (rk_pub r) \<noteq> (case params (rk_suite r) of Some p \<Rightarrow> pubLen p | None \<Rightarrow> 0) then False
      else True)"

definition rk_encode :: "coredet \<Rightarrow> rk \<Rightarrow> bytes option" where
  "rk_encode D r = enc_struct D [(1, enc_uint D (ucast (rk_suite r))), (2, enc_bstr D (rk_pub r))]"

definition decodeRK :: "coredet \<Rightarrow> bytes \<Rightarrow> rk option" where
  "decodeRK D raw =
     (case decodeFields D raw of
        None \<Rightarrow> None
      | Some m \<Rightarrow>
          if list_ex (\<lambda>k. k < 1 \<or> k > 2) (map fst m) then None
          else (case rawUint D m 1 of
              None \<Rightarrow> None
            | Some s \<Rightarrow>
                if s > 0xff then None
                else (case rawBytes D m 2 of
                    None \<Rightarrow> None
                  | Some pub \<Rightarrow> (let r = \<lparr>rk_suite = ucast s, rk_pub = pub\<rparr> in if \<not> rk_check r then None else Some r))))"

definition ix_KID :: "crypto \<Rightarrow> ix_key \<Rightarrow> bytes" where
  "ix_KID C k = KID C (ix_suite k) (ix_pub k)"

definition ix_RK :: "ix_key \<Rightarrow> rk" where
  "ix_RK k = \<lparr>rk_suite = ix_suite k, rk_pub = ix_pub k\<rparr>"

definition GenerateIXKey :: "suite \<Rightarrow> string \<Rightarrow> string \<Rightarrow> (bytes \<times> bytes) option \<Rightarrow> seal_err + ix_key" where
  "GenerateIXKey s ix peer generated =
     (if params s = None then fail UnknownSuite
      else if ix = [] \<or> peer = [] then fail InvalidInput
      else if has_nul ix \<or> has_nul peer then fail InvalidInput
      else case generated of
        None \<Rightarrow> fail InternalError
      | Some (priv, pub) \<Rightarrow> Inr \<lparr>ix_ix = ix, ix_peer = peer, ix_suite = s, ix_pub = pub, ix_private = priv\<rparr>)"

definition ix_answers :: "crypto \<Rightarrow> ix_key \<Rightarrow> bytes \<Rightarrow> bool" where
  "ix_answers C k ikid =
     (case params (ix_suite k) of
        None \<Rightarrow> False
      | Some p \<Rightarrow> if length (ix_pub k) \<noteq> pubLen p then False else if ix_KID C k \<noteq> ikid then False else True)"

record layer2_sender =
  l2_ikid :: bytes
  l2_enc2 :: bytes
  l2_ctx :: bytes

definition newLayer2Sender :: "crypto \<Rightarrow> coredet \<Rightarrow> seal_hpke \<Rightarrow> bytes \<Rightarrow> string \<Rightarrow> rk \<Rightarrow> seal_err + layer2_sender" where
  "newLayer2Sender C D H rnd rcpt r =
     (if \<not> rk_check r then fail InvalidInput
      else if params (rk_suite r) = None then fail InvalidInput
      else if \<not> sh_public H (rk_pub r) then fail InvalidInput
      else
        ebind (must (IXInfo D rcpt (rk_suite r) (rk_KID C r)) InvalidInput []) (\<lambda>info.
        ebind (must (sh_sender H rnd (rk_pub r) info) InvalidInput []) (\<lambda>(enc2, ctx).
          Inr \<lparr>l2_ikid = rk_KID C r, l2_enc2 = enc2, l2_ctx = ctx\<rparr>)))"

section \<open>The Wrap\<close>

record wrap_fields =
  wf_ikid :: "bytes option"
  wf_enc2 :: "bytes option"
  wf_body :: bytes

definition paddedMap :: "coredet \<Rightarrow> wrap_fields \<Rightarrow> (field_map \<times> int) option" where
  "paddedMap D w =
     (if (wf_ikid w = None) \<noteq> (wf_enc2 w = None) then None
      else
        (let m = put_enc 3 (enc_bstr D (wf_body w)) (Some []);
             m = (case wf_ikid w of None \<Rightarrow> m | Some i \<Rightarrow> put_enc 1 (enc_bstr D i) m);
             m = (case wf_enc2 w of None \<Rightarrow> m | Some e \<Rightarrow> put_enc 2 (enc_bstr D e) m)
         in map_option (applyPad D) m))"

definition openLayer2 :: "coredet \<Rightarrow> seal_hpke \<Rightarrow> string \<Rightarrow> ix_key \<Rightarrow> bytes \<Rightarrow> bytes \<Rightarrow> bytes \<Rightarrow> seal_err + bytes" where
  "openLayer2 D H rcpt k ikid enc2 body =
     (if \<not> sh_private H (ix_private k) then fail Decrypt
      else
        ebind (must (IXInfo D rcpt (ix_suite k) ikid) Decrypt []) (\<lambda>info.
        ebind (must (sh_recipient H enc2 (ix_private k) info) Decrypt []) (\<lambda>ctx.
          must (sh_open H ctx body) Decrypt [])))"

definition decodeWrap :: "coredet \<Rightarrow> bytes \<Rightarrow> seal_err + wrap_fields" where
  "decodeWrap D pt =
     ebind (must (decodeFields D pt) BadWrap []) (\<lambda>m.
       if firstUnknownCritical m wrapKnown \<noteq> None then fail BadWrap
       else
     ebind (must (rawBytes D m 3) BadWrap []) (\<lambda>body.
     ebind (must (rawBytes D m 21) BadWrap []) (\<lambda>pad.
       if list_ex (\<lambda>b. b \<noteq> 0) pad then fail BadWrap
       else if fm_has m 1 \<noteq> fm_has m 2 then fail BadWrap
       else if \<not> fm_has m 1 then Inr \<lparr>wf_ikid = None, wf_enc2 = None, wf_body = body\<rparr>
       else
     ebind (must (rawBytes D m 1) BadWrap []) (\<lambda>ikid.
     ebind (must (rawBytes D m 2) BadWrap []) (\<lambda>enc2.
       if length ikid \<noteq> KIDLen then fail BadWrap
       else if length enc2 \<noteq> encLen suite1 then fail BadWrap
       else Inr \<lparr>wf_ikid = Some ikid, wf_enc2 = Some enc2, wf_body = body\<rparr>)))))"

section \<open>The inner message\<close>

text \<open>\<open>K\<close> decodes a carried log (\<open>identity.UnmarshalKEL\<close>).\<close>

definition ParseKEL :: "(bytes \<Rightarrow> signed_event list option) \<Rightarrow> bytes \<Rightarrow> seal_err + signed_event list" where
  "ParseKEL K b =
     (if length b > MaxKELBytes then fail KELTooLarge
      else case K b of
        None \<Rightarrow> fail BadKEL
      | Some kel \<Rightarrow>
          if length kel = 0 then fail BadKEL
          else if length kel > MaxKELEvents then fail KELTooLarge
          else Inr kel)"

definition wellFormedItem :: "coredet \<Rightarrow> bytes \<Rightarrow> bool" where
  "wellFormedItem D b \<longleftrightarrow> length b > 0 \<and> item_ok D b"

definition checkForSeal :: "coredet \<Rightarrow> (bytes \<Rightarrow> signed_event list option) \<Rightarrow> sealed_inner \<Rightarrow> u64 \<Rightarrow> seal_err + unit" where
  "checkForSeal D K i oexp =
     (if in_from i = [] \<or> in_to i = [] \<or> in_type i = [] then fail InvalidInput
      else if has_nul (in_from i) \<or> has_nul (in_to i) \<or> has_nul (in_ix i) then fail InvalidInput
      else if length (in_mid i) \<noteq> MIDLen then fail InvalidInput
      else if in_ts i = 0 then fail InvalidInput
      else if in_exp i < in_ts i \<or> in_exp i - in_ts i > MaxMessageLifetimeMS then fail InvalidInput
      else if oexp \<noteq> 0 \<and> oexp \<noteq> in_exp i then fail InvalidInput
      else if (in_kel i \<noteq> None) \<noteq> (length (in_notices i) > 0) then fail InvalidInput
      else if (case in_kel i of None \<Rightarrow> False
               | Some k \<Rightarrow> length (in_notices i) \<noteq> noticesPerMessage \<or> \<not> ok (ParseKEL K k)) then fail InvalidInput
      else if list_ex (\<lambda>n. length n > MaxNoticeBytes) (in_notices i) then fail InvalidInput
      else if (case in_grant i of None \<Rightarrow> False | Some g \<Rightarrow> \<not> wellFormedItem D g \<or> \<not> has_major g majorMap) then fail InvalidInput
      else if (case in_rk i of None \<Rightarrow> False | Some r \<Rightarrow> \<not> rk_check r) then fail InvalidInput
      else if list_ex (\<lambda>(k, v). k < FirstIgnorableKey \<or> \<not> wellFormedItem D v) (in_ext i) then fail InvalidInput
      else Inr ())"

definition enc_notices :: "coredet \<Rightarrow> bytes list \<Rightarrow> bytes option" where
  "enc_notices D ns =
     (if list_ex (\<lambda>n. enc_bstr D n = None) ns then None else enc_list D (map (\<lambda>n. the (enc_bstr D n)) ns))"

definition put_opt :: "u64 \<Rightarrow> bytes option option \<Rightarrow> field_map option \<Rightarrow> field_map option" where
  "put_opt k e m = (case e of None \<Rightarrow> m | Some e \<Rightarrow> put_enc k e m)"

definition inner_fieldMap :: "coredet \<Rightarrow> sealed_inner \<Rightarrow> field_map option" where
  "inner_fieldMap D i =
     (let m = put_enc 1 (enc_text D (in_from i)) (Some []);
          m = put_enc 2 (enc_uint D (in_seq i)) m;
          m = put_enc 3 (enc_text D (in_to i)) m;
          m = put_enc 4 (enc_text D (in_type i)) m;
          m = put_enc 5 (enc_text D (in_ix i)) m;
          m = put_enc 6 (enc_bstr D (in_mid i)) m;
          m = put_enc 7 (enc_uint D (in_ts i)) m;
          m = put_enc 8 (enc_uint D (in_exp i)) m;
          m = put_enc 9 (enc_bstr D (in_body i)) m;
          m = put_opt 10 (map_option (enc_bstr D) (in_kel i)) m;
          m = put_opt 11 (if length (in_notices i) > 0 then Some (enc_notices D (in_notices i)) else None) m;
          m = put_opt 12 (map_option (enc_bstr D) (in_keys i)) m;
          m = put_opt 14 (map_option Some (in_grant i)) m;
          m = put_opt 15 (map_option (rk_encode D) (in_rk i)) m
      in map_option (fold (\<lambda>(k, v). fm_put k v) (in_ext i)) m)"

section \<open>Sealing\<close>

definition nil_bytes :: "bytes option \<Rightarrow> bytes" where
  "nil_bytes b = (case b of None \<Rightarrow> [] | Some x \<Rightarrow> x)"

text \<open>Sign the inner over both layers' values and encode it.\<close>

definition sign_inner ::
  "crypto \<Rightarrow> coredet \<Rightarrow> sealed_inner \<Rightarrow> sign_func \<Rightarrow> bytes \<Rightarrow> enc_key \<Rightarrow> layer2_sender option \<Rightarrow> seal_err + bytes" where
  "sign_inner C D i sign enc rcpt two =
     ebind (must (inner_fieldMap D i) InvalidInput []) (\<lambda>m.
     ebind (must (sigPreimage C D m enc (k_kid rcpt) (ucast (k_suite rcpt)) (map_option l2_ikid two) (map_option l2_enc2 two)) InvalidInput []) (\<lambda>pre.
       case sign pre of (sg, seq) \<Rightarrow>
         if seq \<noteq> in_seq i then fail InvalidInput
         else if length (nil_bytes sg) \<noteq> SigLen then fail InvalidInput
         else
     ebind (must (enc_bstr D (nil_bytes sg)) InternalError []) (\<lambda>s.
       must (enc_map D (fm_put keySig s m)) InternalError [])))"

text \<open>Wrap the encoded inner, pad it and encrypt it under layer 1.\<close>

definition seal_wrap :: "coredet \<Rightarrow> seal_hpke \<Rightarrow> bytes \<Rightarrow> layer2_sender option \<Rightarrow> bytes \<Rightarrow> seal_err + bytes" where
  "seal_wrap D H ctx two innerBytes =
     ebind (case two of
        None \<Rightarrow> Inr \<lparr>wf_ikid = None, wf_enc2 = None, wf_body = innerBytes\<rparr>
      | Some t \<Rightarrow>
          ebind (must (sh_seal H (l2_ctx t) innerBytes) InternalError []) (\<lambda>ct2.
            Inr \<lparr>wf_ikid = Some (l2_ikid t), wf_enc2 = Some (l2_enc2 t), wf_body = ct2\<rparr>)) (\<lambda>w.
     ebind (must (paddedMap D w) InternalError []) (\<lambda>(wrap, want).
     ebind (must (enc_map D wrap) InternalError []) (\<lambda>pt.
       if int (length pt) \<noteq> want then fail InternalError
       else must (sh_seal H ctx pt) InternalError [])))"

definition outer_map :: "coredet \<Rightarrow> string \<Rightarrow> enc_key \<Rightarrow> bytes \<Rightarrow> bytes \<Rightarrow> u64 \<Rightarrow> field_map option" where
  "outer_map D rcpt key enc ct oexp =
     (let m = put_enc 1 (enc_uint D EnvelopeVersion) (Some []);
          m = put_enc 2 (enc_text D rcpt) m;
          m = put_enc 3 (enc_uint D (ucast (k_suite key))) m;
          m = put_enc 4 (enc_bstr D (k_kid key)) m;
          m = put_enc 5 (enc_bstr D enc) m;
          m = put_enc 6 (enc_bstr D ct) m
      in if oexp \<noteq> 0 then put_enc 8 (enc_uint D oexp) m else m)"

record seal_opts =
  so_peer_rk :: "rk option"
  so_exp :: u64

definition Seal ::
  "crypto \<Rightarrow> coredet \<Rightarrow> seal_hpke \<Rightarrow> (bytes \<Rightarrow> signed_event list option) \<Rightarrow> bytes \<Rightarrow> bytes
     \<Rightarrow> sealed_inner option \<Rightarrow> enc_key option \<Rightarrow> sign_func option \<Rightarrow> seal_opts \<Rightarrow> seal_err + bytes \<times> bytes" where
  "Seal C D H K rnd rnd2 inner0 recipient0 sign0 opts =
     (case (inner0, recipient0, sign0) of
        (Some i, Some rcpt, Some sign) \<Rightarrow>
          ebind (checkForSeal D K i (so_exp opts)) (\<lambda>_.
          if params (k_suite rcpt) = None then fail UnknownSuite
          else if \<not> enc_key_check C rcpt then fail InvalidInput
          else if \<not> sh_public H (k_pub rcpt) then fail InvalidInput
          else
          ebind (must (HPKEInfo D (in_to i) (k_suite rcpt) (k_kid rcpt)) InvalidInput []) (\<lambda>info.
          ebind (must (sh_sender H rnd (k_pub rcpt) info) InvalidInput []) (\<lambda>(enc, ctx).
          ebind (must (sh_export H ctx DAckExporterContext AckKeyLen) InternalError []) (\<lambda>key.
          ebind (case so_peer_rk opts of
              None \<Rightarrow> Inr None
            | Some r \<Rightarrow> ebind (newLayer2Sender C D H rnd2 (in_to i) r) (\<lambda>t. Inr (Some t))) (\<lambda>two.
          ebind (sign_inner C D i sign enc rcpt two) (\<lambda>innerBytes.
          ebind (seal_wrap D H ctx two innerBytes) (\<lambda>ct.
          ebind (must (outer_map D (in_to i) rcpt enc ct (so_exp opts)) InternalError []) (\<lambda>outer.
          ebind (must (enc_map D outer) InternalError []) (\<lambda>b.
            Inr (b, key))))))))))
      | _ \<Rightarrow> fail InvalidInput)"

section \<open>Opening\<close>

definition rawNotices :: "coredet \<Rightarrow> bytes \<Rightarrow> bytes list option" where
  "rawNotices D raw =
     (if \<not> has_major raw majorArray then None
      else case dec_list D raw of
        None \<Rightarrow> None
      | Some items \<Rightarrow>
          if length items \<noteq> noticesPerMessage then None
          else those (map (\<lambda>it. case rawBytes D [(0, it)] 0 of None \<Rightarrow> None
            | Some n \<Rightarrow> if length n > MaxNoticeBytes then None else Some n) items))"

definition opt_field :: "field_map \<Rightarrow> u64 \<Rightarrow> (field_map \<Rightarrow> u64 \<Rightarrow> 'a option) \<Rightarrow> 'a option option" where
  "opt_field m k dec = (if fm_has m k then map_option Some (dec m k) else Some None)"

definition decodeInner :: "coredet \<Rightarrow> bytes \<Rightarrow> seal_err + field_map \<times> sealed_inner" where
  "decodeInner D pt =
     ebind (must (decodeFields D pt) BadInner []) (\<lambda>m.
       if firstUnknownCritical m innerKnown \<noteq> None then fail UnknownField
       else
     ebind (must (rawText D m 1) BadInner []) (\<lambda>f1.
     ebind (must (rawUint D m 2) BadInner []) (\<lambda>f2.
     ebind (must (rawText D m 3) BadInner []) (\<lambda>f3.
     ebind (must (rawText D m 4) BadInner []) (\<lambda>f4.
     ebind (must (rawText D m 5) BadInner []) (\<lambda>f5.
     ebind (must (rawBytes D m 6) BadInner []) (\<lambda>f6.
     ebind (must (rawUint D m 7) BadInner []) (\<lambda>f7.
     ebind (must (rawUint D m 8) BadInner []) (\<lambda>f8.
     ebind (must (rawBytes D m 9) BadInner []) (\<lambda>f9.
     ebind (must (opt_field m 10 (rawBytes D)) BadInner []) (\<lambda>f10.
     ebind (must (opt_field m 12 (rawBytes D)) BadInner []) (\<lambda>f12.
     ebind (must (rawBytes D m 20) BadInner []) (\<lambda>f20.
     ebind (must (case map_of m 11 of None \<Rightarrow> Some [] | Some raw \<Rightarrow> rawNotices D raw) BadInner []) (\<lambda>f11.
       if length f6 \<noteq> MIDLen then fail BadInner
       else if length f20 \<noteq> SigLen then fail BadInner
       else if (f10 \<noteq> None) \<noteq> (f11 \<noteq> []) then fail BadInner
       else if has_nul f1 then fail BadInner
       else if has_nul f3 then fail BadInner
       else if has_nul f5 then fail BadInner
       else
     ebind (case map_of m 15 of None \<Rightarrow> Inr None
            | Some raw \<Rightarrow> ebind (must (decodeRK D raw) BadRK []) (\<lambda>r. Inr (Some r))) (\<lambda>f15.
       Inr (m, \<lparr>in_from = f1, in_seq = f2, in_to = f3, in_type = f4, in_ix = f5, in_mid = f6, in_ts = f7, in_exp = f8,
         in_body = f9, in_kel = f10, in_notices = f11, in_keys = f12, in_grant = map_of m 14, in_rk = f15, in_sig = f20,
         in_ext = filter (\<lambda>p. fst p \<ge> FirstIgnorableKey) m\<rparr>))))))))))))))))"

record opened =
  op_outer :: sealed_envelope
  op_inner :: sealed_inner
  op_kel :: "signed_event list option"
  op_preimage :: bytes
  op_ack :: bytes
  op_layers :: nat
  op_ikid :: "bytes option"

text \<open>A failure of \<open>Open\<close>: the ack_key once layer 1 is open, and the error, \<open>None\<close> for one the key store reported.\<close>

datatype open_err = OpenErr (ack_of: "bytes option") (err_of: "seal_err option")

definition before :: "seal_err + 'a \<Rightarrow> open_err + 'a" where
  "before r = (case r of Inl e \<Rightarrow> Inl (OpenErr None (Some e)) | Inr x \<Rightarrow> Inr x)"

definition withAck :: "bytes \<Rightarrow> seal_err + 'a \<Rightarrow> open_err + 'a" where
  "withAck ack r = (case r of Inl e \<Rightarrow> Inl (OpenErr (Some ack) (Some e)) | Inr x \<Rightarrow> Inr x)"

text \<open>An \<open>IXKeyLookup\<close> may be nil, may have no key, and may fail.\<close>

type_synonym ix_lookup = "(bytes \<Rightarrow> unit + ix_key option) option"

text \<open>Step 3a after the Wrap is decoded: the inner's bytes and the interaction key that opened a second layer.\<close>

definition open_wrap ::
  "crypto \<Rightarrow> coredet \<Rightarrow> seal_hpke \<Rightarrow> ix_lookup \<Rightarrow> string \<Rightarrow> bytes \<Rightarrow> wrap_fields \<Rightarrow> open_err + bytes \<times> ix_key option" where
  "open_wrap C D H ix rcpt ack w =
     (case wf_ikid w of
        None \<Rightarrow> Inr (wf_body w, None)
      | Some ikid \<Rightarrow>
          (case (case ix of None \<Rightarrow> Inr None | Some f \<Rightarrow> f ikid) of
             Inl _ \<Rightarrow> Inl (OpenErr (Some ack) None)
           | Inr None \<Rightarrow> withAck ack (fail SealedToClosedInteraction)
           | Inr (Some k) \<Rightarrow>
               if \<not> ix_answers C k ikid then withAck ack (fail SealedToClosedInteraction)
               else ebind (withAck ack (openLayer2 D H rcpt k ikid (nil_bytes (wf_enc2 w)) (wf_body w))) (\<lambda>pt. Inr (pt, Some k))))"

text \<open>The comparisons of step 4, and the carried log under its caps.\<close>

definition match_outer ::
  "(bytes \<Rightarrow> signed_event list option) \<Rightarrow> sealed_envelope \<Rightarrow> ix_key option \<Rightarrow> sealed_inner \<Rightarrow> seal_err + signed_event list option" where
  "match_outer K outer key i =
     (if (case key of None \<Rightarrow> False | Some k \<Rightarrow> in_ix i \<noteq> ix_ix k \<or> in_from i \<noteq> ix_peer k) then fail IKeyMismatch
      else if in_to i \<noteq> ev_to outer then fail ToMismatch
      else if (case ev_exp outer of None \<Rightarrow> False | Some e \<Rightarrow> e \<noteq> in_exp i) then fail ExpMismatch
      else case in_kel i of
        None \<Rightarrow> Inr None
      | Some b \<Rightarrow> ebind (ParseKEL K b) (\<lambda>kel. Inr (Some kel)))"

definition Open ::
  "crypto \<Rightarrow> coredet \<Rightarrow> seal_hpke \<Rightarrow> (bytes \<Rightarrow> signed_event list option) \<Rightarrow> bytes \<Rightarrow> string \<Rightarrow> key_ring option \<Rightarrow> ix_lookup
     \<Rightarrow> open_err + opened" where
  "Open C D H K env self ring0 ix =
     ebind (before (ParseOuter D env)) (\<lambda>outer.
       if ev_to outer \<noteq> self then before (fail WrongRecipient)
       else case Option.bind ring0 (\<lambda>r. r (ev_kid outer)) of
         None \<Rightarrow> before (fail UnknownKey)
       | Some kp \<Rightarrow>
           if k_suite (kp_public kp) \<noteq> ev_suite outer \<or> k_kid (kp_public kp) \<noteq> ev_kid outer then before (fail UnknownKey)
           else if \<not> sh_private H (kp_private kp) then before (fail Decrypt)
           else
     ebind (before (must (HPKEInfo D (ev_to outer) (ev_suite outer) (ev_kid outer)) BadOuter [])) (\<lambda>info.
     ebind (before (must (sh_recipient H (ev_enc outer) (kp_private kp) info) Decrypt [])) (\<lambda>ctx.
     ebind (before (must (sh_open H ctx (ev_ct outer)) Decrypt [])) (\<lambda>pt.
     ebind (before (must (sh_export H ctx DAckExporterContext AckKeyLen) InternalError [])) (\<lambda>ack.
     ebind (withAck ack (decodeWrap D pt)) (\<lambda>w.
     ebind (open_wrap C D H ix (ev_to outer) ack w) (\<lambda>(innerPT, key).
     ebind (withAck ack (decodeInner D innerPT)) (\<lambda>(m, i).
     ebind (withAck ack (match_outer K outer key i)) (\<lambda>kel.
     ebind (withAck ack (must (sigPreimage C D m (ev_enc outer) (ev_kid outer) (ucast (ev_suite outer)) (wf_ikid w) (wf_enc2 w)) BadInner [])) (\<lambda>pre.
       Inr \<lparr>op_outer = outer, op_inner = i, op_kel = kel, op_preimage = pre, op_ack = ack,
            op_layers = (if wf_ikid w = None then 1 else 2), op_ikid = wf_ikid w\<rparr>))))))))))"

section \<open>The later receive steps\<close>

definition CheckTime :: "sealed_inner option \<Rightarrow> u64 \<Rightarrow> seal_err + unit" where
  "CheckTime i0 now =
     (case i0 of
        None \<Rightarrow> fail BadInner
      | Some i \<Rightarrow>
          if in_exp i < in_ts i \<or> in_exp i - in_ts i > MaxMessageLifetimeMS then fail BadLifetime
          else if now > in_exp i then fail Expired
          else if in_ts i > satAdd now ClockSkewMS then fail FromFuture
          else Inr ())"

definition sameEvents :: "signed_event list \<Rightarrow> signed_event list \<Rightarrow> bool" where
  "sameEvents a b \<longleftrightarrow> map se_id a = map se_id b"

fun noticeReason :: "notice_err \<Rightarrow> reason" where
  "noticeReason ErrNoticeMissing = WitnessMissing"
| "noticeReason ErrNoticeInvalid = WitnessInvalid"
| "noticeReason ErrNoticeMismatch = WitnessMismatch"
| "noticeReason ErrNoticeUnknownWitness = WitnessUnknown"
| "noticeReason ErrNoticeStale = WitnessStale"
| "noticeReason (SubjectDoesNotReplay e) = BadKEL"

definition CheckNotice ::
  "crypto \<Rightarrow> notice_codec \<Rightarrow> (bytes \<Rightarrow> signed_event list option) \<Rightarrow> sealed_inner option \<Rightarrow> signed_event list
     \<Rightarrow> (string \<Rightarrow> signed_event list option) option \<Rightarrow> u64 \<Rightarrow> seal_err + unit" where
  "CheckNotice C N K i0 kelInner hubKELs arrival =
     (case i0 of
        None \<Rightarrow> fail InvalidInput
      | Some i \<Rightarrow>
          (case in_kel i of
             None \<Rightarrow> fail WitnessMissing
           | Some kb \<Rightarrow>
               if length (in_notices i) = 0 then fail WitnessMissing
               else if length (in_notices i) \<noteq> noticesPerMessage then fail WitnessInvalid
               else
                 ebind (ParseKEL K kb) (\<lambda>carried.
                   if \<not> sameEvents carried kelInner then fail InvalidInput
                   else case VerifyNotice C N (in_notices i ! 0) kelInner hubKELs arrival of
                     Inr _ \<Rightarrow> Inr ()
                   | Inl e \<Rightarrow> fail (noticeReason e))))"

definition VerifyInnerSig :: "crypto \<Rightarrow> sealed_inner option \<Rightarrow> bytes \<Rightarrow> signed_event list \<Rightarrow> u64 \<Rightarrow> seal_err + unit" where
  "VerifyInnerSig C i0 preimage kel arrival =
     (case i0 of
        None \<Rightarrow> fail BadInner
      | Some i \<Rightarrow>
          if in_ts i = 0 then fail BadInner
          else if length (in_sig i) \<noteq> SigLen then fail BadInner
          else if arrival = 0 then fail InvalidInput
          else case replay C kel of
            Inl _ \<Rightarrow> fail BadKEL
          | Inr states \<Rightarrow>
              if ks_aid (last states) \<noteq> in_from i then fail FromMismatch
              else if unat (in_seq i) \<ge> length states then fail BadKeyState
              else (case VerifyObject C kel (in_from i) (in_seq i) (in_ts i) preimage (in_sig i) of
                  Inl e \<Rightarrow> Inl (fromVErr e)
                | Inr _ \<Rightarrow>
                    (let ks = states ! unat (in_seq i) in
                     if SenderKeyUsable ks arrival then Inr ()
                     else if ks_retired_urgently ks then fail RevokedKey
                     else fail GraceExpired)))"

definition VerifyInnerKeys ::
  "crypto \<Rightarrow> coredet \<Rightarrow> key_codec \<Rightarrow> sealed_inner option \<Rightarrow> signed_event list \<Rightarrow> u64 \<Rightarrow> seal_err + signed_key_set \<times> enc_key_set" where
  "VerifyInnerKeys C D K i0 kel now =
     (case i0 of
        None \<Rightarrow> fail BadInner
      | Some i \<Rightarrow>
          ebind (UnmarshalSignedEncKeySet D K (nil_bytes (in_keys i))) (\<lambda>sks.
          ebind (VerifyEncKeySet C D K (Some sks) (in_from i) kel now) (\<lambda>s. Inr (sks, s))))"

end
