(* ===== verification/Seal_Codec.thy ===== *)
theory Seal_Codec
  imports Seal_Envelope Utf8_Runes
begin

text \<open>
  What the encodings of sealed envelopes promise over a CoreDet that obeys \<^const>\<open>coredet_ok\<close>: the credential, the outer object,
  the inner message and the Wrap are read back as they were written, the signature preimage exists and leaves the signature out,
  and the padded Wrap stays within the limit of the cipher.
\<close>

section \<open>Encoded fields\<close>

text \<open>\<open>fm_is D m f\<close>: a field map whose values may be entries and are those of \<open>f\<close>; \<open>item_within D n v\<close>: an item of at most
  \<open>n\<close> levels.\<close>

definition fm_is :: "coredet \<Rightarrow> field_map \<Rightarrow> (u64 \<Rightarrow> bytes option) \<Rightarrow> bool" where
  "fm_is D m f \<longleftrightarrow> fm_ok m \<and> list_all (\<lambda>p. fits D (snd p)) m \<and> map_of m = f"

definition item_within :: "coredet \<Rightarrow> nat \<Rightarrow> bytes \<Rightarrow> bool" where
  "item_within D n v \<longleftrightarrow> item_ok D v \<and> item_depth D v \<le> n"

lemma within_fits: "item_within D n v \<Longrightarrow> n < max_levels \<Longrightarrow> fits D v"
  by (simp add: item_within_def fits_def)

lemma within_mono: "item_within D n v \<Longrightarrow> n \<le> k \<Longrightarrow> item_within D k v"
  by (simp add: item_within_def)

lemma fm_is_nil: "fm_is D [] Map.empty"
  by (simp add: fm_is_def fm_ok_def)

lemma fm_is_put: "fm_is D m f \<Longrightarrow> fits D v \<Longrightarrow> fm_is D (fm_put k v m) (f(k \<mapsto> v))"
  using set_fm_put [of k v m] by (auto simp: fm_is_def fm_ok_put list_all_iff)

lemma fm_is_unique: "fm_is D m f \<Longrightarrow> fm_is D m' f \<Longrightarrow> m = m'"
  unfolding fm_is_def using fm_ext by metis

lemma fm_is_has: "fm_is D m f \<Longrightarrow> fm_has m k \<longleftrightarrow> f k \<noteq> None"
  by (simp add: fm_is_def fm_has_def)

lemma fm_is_keys: "fm_is D m f \<Longrightarrow> set (map fst m) = dom f"
  by (auto simp: fm_is_def simp flip: dom_map_of_conv_image_fst)

lemma decode_fm_is: "coredet_ok D \<Longrightarrow> fm_is D m f \<Longrightarrow> enc_map D m = Some b \<Longrightarrow> decodeFields D b = Some m"
  by (simp add: fm_is_def decodeFields_enc fits_items)

lemma encode_fm_is: "coredet_ok D \<Longrightarrow> fm_is D m f \<Longrightarrow> length m \<le> max_entries \<Longrightarrow> \<exists>b. enc_map D m = Some b \<and> length b = encodedLen m"
  using encodes(4) [of D m] enc_mapD(4) [of D m] fits_items [of m D] by (auto simp: fm_is_def)

lemma length_put: "length (fm_put k v m) \<le> Suc (length m)"
  by (induction k v m rule: fm_put.induct) auto

text \<open>\<open>enc_of\<close>: an encoded value of each kind, which is an item and decodes to the value.\<close>

lemma raw_of:
  assumes "coredet_ok D" and "map_of m k = Some v"
  shows "enc_uint D n = Some v \<Longrightarrow> rawUint D m k = Some n"
    and "enc_text D t = Some v \<Longrightarrow> rawText D m k = Some t"
    and "enc_bstr D y = Some v \<Longrightarrow> rawBytes D m k = Some y"
  using assms enc_uintE [OF assms(1), of n] enc_textD [OF assms(1), of t v] enc_bstrD [OF assms(1), of y v]
  by (auto simp: rawUint_def rawText_def rawBytes_def raw_field_def)

lemma raw_is:
  assumes "coredet_ok D" and "fm_is D m f"
  shows "enc_uint D n = Some v \<Longrightarrow> f k = Some v \<Longrightarrow> rawUint D m k = Some n"
    and "enc_text D t = Some v \<Longrightarrow> f k = Some v \<Longrightarrow> rawText D m k = Some t"
    and "enc_bstr D y = Some v \<Longrightarrow> f k = Some v \<Longrightarrow> rawBytes D m k = Some y"
  using raw_of [OF assms(1), of m k v] assms(2) by (auto simp: fm_is_def)

lemma raw_eq:
  assumes "coredet_ok D" and "fm_is D m f"
  shows "f k = enc_uint D n \<Longrightarrow> rawUint D m k = Some n"
    and "f k = enc_text D t \<Longrightarrow> enc_text D t \<noteq> None \<Longrightarrow> rawText D m k = Some t"
    and "f k = enc_bstr D y \<Longrightarrow> enc_bstr D y \<noteq> None \<Longrightarrow> rawBytes D m k = Some y"
proof -
  obtain v where v: "enc_uint D n = Some v" using enc_uintE [OF assms(1), of n] by blast
  show "f k = enc_uint D n \<Longrightarrow> rawUint D m k = Some n" by (rule raw_is(1) [OF assms v]) (simp add: v)
qed (use raw_is(2,3) [OF assms] in auto)

lemma enc_items:
  assumes "coredet_ok D"
  shows "enc_uint D n = Some v \<Longrightarrow> item_within D 0 v" "enc_text D t = Some v \<Longrightarrow> item_within D 0 v" "enc_bstr D y = Some v \<Longrightarrow> item_within D 0 v"
  using flat_items [OF assms] flat_fits [OF assms] by (auto simp: item_within_def fits_def)

lemma head_le: "cborHeadLen n \<le> 9"
  by (simp add: cborHeadLen_def)

lemma enc_lengths:
  assumes "coredet_ok D"
  shows "enc_uint D n = Some v \<Longrightarrow> length v \<le> 9" "enc_text D t = Some v \<Longrightarrow> length v \<le> 9 + length t"
    "enc_bstr D y = Some v \<Longrightarrow> length v \<le> 9 + length y"
proof -
  show "length v \<le> 9" if "enc_uint D n = Some v"
    using that head_le [of "unat n"] by (rule_tac enc_uintE [OF assms, of n]) simp
  show "length v \<le> 9 + length t" if "enc_text D t = Some v"
    using enc_textD(4) [OF assms that] head_le [of "length t"] by simp
  show "length v \<le> 9 + length y" if "enc_bstr D y = Some v"
    using enc_bstrD(4) [OF assms that] head_le [of "length y"] by simp
qed

lemma uint_encodes: "coredet_ok D \<Longrightarrow> \<exists>v. enc_uint D n = Some v"
  by (metis enc_uintE)

section \<open>Structs and keys out of range\<close>

lemma critical_none: "firstUnknownCritical m known = None \<longleftrightarrow> (\<forall>k \<in> set (map fst m). k < FirstIgnorableKey \<longrightarrow> k \<in> set known)"
proof -
  have "firstUnknownCritical m known = None \<longleftrightarrow> filter (\<lambda>k. k < FirstIgnorableKey \<and> k \<notin> set known) (map fst m) = []"
    by (simp add: firstUnknownCritical_def split: list.splits)
  then show ?thesis by (auto simp: filter_empty_conv)
qed

lemma outside_none: "firstKeyOutside m lo hi = None \<longleftrightarrow> (\<forall>k \<in> set (map fst m). lo \<le> k \<and> k \<le> hi)"
proof -
  have "firstKeyOutside m lo hi = None \<longleftrightarrow> filter (\<lambda>k. k < lo \<or> k > hi) (map fst m) = []"
    by (simp add: firstKeyOutside_def split: list.splits)
  then show ?thesis by (auto simp: filter_empty_conv not_less)
qed

text \<open>A struct whose fields encode, with its keys in order, encodes to bytes that decode to the map of its fields.\<close>

lemma enc_structD:
  assumes "coredet_ok D" and "sorted_wrt (<) (map fst fs)" and "\<forall>p \<in> set fs. \<forall>v. snd p = Some v \<longrightarrow> item_within D n v" and "n < max_levels"
    and "enc_struct D fs = Some b"
  shows "fm_is D (map (\<lambda>f. (fst f, the (snd f))) fs) (\<lambda>k. Option.bind (map_of fs k) (\<lambda>v. v))"
    and "decodeFields D b = Some (map (\<lambda>f. (fst f, the (snd f))) fs)" and "item_within D (Suc n) b"
    and "length b = encodedLen (map (\<lambda>f. (fst f, the (snd f))) fs)"
proof -
  let ?m = "map (\<lambda>f. (fst f, the (snd f))) fs"
  have n: "\<forall>p \<in> set fs. snd p \<noteq> None" and e: "enc_map D ?m = Some b"
    using assms(5) by (auto simp: enc_struct_def list_ex_iff split: if_splits)
  have o: "fm_ok ?m" using assms(2) by (simp add: fm_ok_def o_def)
  have w: "list_all (\<lambda>p. item_within D n (snd p)) ?m" using assms(3) n by (auto simp: list_all_iff)
  then have f: "list_all (\<lambda>p. fits D (snd p)) ?m" using within_fits [OF _ assms(4)] by (simp add: list_all_iff)
  note i = fits_items [OF o f]
  have "map_of ?m k = Option.bind (map_of fs k) (\<lambda>v. v)" for k using n by (induction fs) auto
  then show "fm_is D ?m (\<lambda>k. Option.bind (map_of fs k) (\<lambda>v. v))" using o f by (auto simp: fm_is_def)
  show "decodeFields D b = Some ?m" using decodeFields_enc [OF assms(1) i e] .
  have "item_depth D b \<le> Suc n" using w by (intro depths(2) [OF assms(1) i e]) (simp add: list_all_iff item_within_def)
  then show "item_within D (Suc n) b" using enc_mapD(3) [OF assms(1) i e] by (simp add: item_within_def)
  show "length b = encodedLen ?m" using enc_mapD [OF assms(1) i e] by simp
qed

lemma enc_struct_total:
  assumes "coredet_ok D" and "sorted_wrt (<) (map fst fs)" and "\<forall>p \<in> set fs. \<exists>v. snd p = Some v \<and> item_within D n v" and "n < max_levels"
    and "length fs < 100"
  shows "\<exists>b. enc_struct D fs = Some b"
proof -
  let ?m = "map (\<lambda>f. (fst f, the (snd f))) fs"
  have o: "fm_ok ?m" using assms(2) by (simp add: fm_ok_def o_def)
  have f: "list_all (\<lambda>p. fits D (snd p)) ?m" using assms(3) within_fits [OF _ assms(4)] by (force simp: list_all_iff)
  have "length ?m \<le> max_entries" using assms(5) by (simp add: max_entries_def)
  then obtain b where "enc_map D ?m = Some b" using encodes(4) [OF assms(1) o f] by blast
  moreover have "\<not> list_ex (\<lambda>f. snd f = None) fs" using assms(3) by (auto simp: list_ex_iff)
  ultimately show ?thesis by (simp add: enc_struct_def)
qed

lemma small_levels: "0 < max_levels" "1 < max_levels" "2 < max_levels"
  by (simp_all add: max_levels_def)

section \<open>The credential and the interaction key\<close>

lemma field_values: "fm_is D m f \<Longrightarrow> map_of m k = f k"
  by (simp add: fm_is_def)

lemma cap_roundtrip:
  assumes "coredet_ok D" and "cap_encode D c = Some b"
  shows "decodeCap D b = (if length (cap_sig c) = SigLen then Some c else None)" and "item_within D 1 b"
proof -
  let ?fs = "[(1 :: u64, enc_bstr D (cap_body c)), (2, enc_bstr D (cap_sig c))]"
  have e: "enc_struct D ?fs = Some b" using assms(2) by (simp add: cap_encode_def)
  have k: "sorted_wrt (<) (map fst ?fs)" by (simp add: word_less_nat_alt)
  have i: "\<forall>p \<in> set ?fs. \<forall>v. snd p = Some v \<longrightarrow> item_within D 0 v" using enc_items(3) [OF assms(1)] by auto
  note m = enc_structD [OF assms(1) k i small_levels(1) e]
  obtain vb vs where v: "enc_bstr D (cap_body c) = Some vb" "enc_bstr D (cap_sig c) = Some vs"
    using e by (auto simp: enc_struct_def split: if_splits)
  let ?m = "map (\<lambda>f. (fst f, the (snd f))) ?fs"
  have "rawBytes D ?m 1 = Some (cap_body c)" "rawBytes D ?m 2 = Some (cap_sig c)"
    by (rule raw_of(3) [OF assms(1) _ v(1)], simp add: v, rule raw_of(3) [OF assms(1) _ v(2)], simp add: v)
  moreover have "firstKeyOutside ?m 1 2 = None" unfolding outside_none by (simp add: word_le_nat_alt)
  ultimately show "decodeCap D b = (if length (cap_sig c) = SigLen then Some c else None)"
    using m(2) by (simp add: decodeCap_def)
  show "item_within D 1 b" using m(3) by simp
qed

lemma access_roundtrip:
  assumes "coredet_ok D" and "encodeAccess D (Some a) = Some raw"
  shows "decodeAccess D raw = Some a" and "item_within D 2 raw"
proof -
  let ?cap = "case ac_cap a of None \<Rightarrow> [] | Some c \<Rightarrow> [(2 :: u64, cap_encode D c)]"
  let ?proof = "if ac_proof a = [] then [] else [(3 :: u64, enc_bstr D (ac_proof a))]"
  let ?fs = "[(1, enc_uint D (ac_kind a))] @ ?cap @ ?proof"
  have e: "enc_struct D ?fs = Some raw" and d: "decodeAccess D raw \<noteq> None"
    using assms(2) by (auto simp: encodeAccess_def access_encode_def split: option.splits if_splits)
  have k: "sorted_wrt (<) (map fst ?fs)" by (auto simp: word_less_nat_alt split: option.splits)
  have i: "\<forall>p \<in> set ?fs. \<forall>v. snd p = Some v \<longrightarrow> item_within D 1 v"
    using enc_items [OF assms(1), THEN within_mono, of _ _ 1] cap_roundtrip(2) [OF assms(1)] by (auto split: option.splits if_splits)
  note m = enc_structD [OF assms(1) k i small_levels(2) e]
  let ?m = "map (\<lambda>f. (fst f, the (snd f))) ?fs"
  have at: "map_of ?m x = (if x = 1 then enc_uint D (ac_kind a) else if x = 2 then Option.bind (ac_cap a) (cap_encode D)
      else if x = 3 \<and> ac_proof a \<noteq> [] then enc_bstr D (ac_proof a) else None)" for x
    unfolding field_values [OF m(1)] by (auto split: option.splits)
  show "item_within D 2 raw" using m(3) by (simp add: numeral_2_eq_2)
  have "\<not> list_ex (\<lambda>f. snd f = None) ?fs"
  proof
    assume "list_ex (\<lambda>f. snd f = None) ?fs"
    then have "enc_struct D ?fs = None" by (simp only: enc_struct_def if_True)
    then show False using e by simp
  qed
  then have all: "snd p \<noteq> None" if "p \<in> set ?fs" for p
    unfolding list_ex_iff using that by (metis (no_types, lifting))
  obtain vk where vk: "enc_uint D (ac_kind a) = Some vk" using uint_encodes [OF assms(1)] by blast
  have kind: "rawUint D ?m 1 = Some (ac_kind a)" by (rule raw_of(1) [OF assms(1) _ vk]) (simp add: vk)
  have prv: "rawBytes D ?m 3 = Some (ac_proof a)" if "ac_proof a \<noteq> []"
  proof -
    have "(3, enc_bstr D (ac_proof a)) \<in> set ?fs" using that by simp
    from all [OF this] obtain vp where vp: "enc_bstr D (ac_proof a) = Some vp" by auto
    show ?thesis by (rule raw_of(3) [OF assms(1) _ vp], subst at) (simp add: that vp)
  qed
  have cp: "\<exists>vc. cap_encode D c = Some vc" if "ac_cap a = Some c" for c
  proof -
    have "(2, cap_encode D c) \<in> set ?fs" using that by simp
    from all [OF this] show ?thesis by auto
  qed
  have h2: "fm_has ?m 2 \<longleftrightarrow> ac_cap a \<noteq> None"
    unfolding fm_has_def by (subst at) (cases "ac_cap a"; use cp in \<open>auto\<close>)
  have h3: "fm_has ?m 3 \<longleftrightarrow> ac_proof a \<noteq> []"
  proof (cases "ac_proof a = []")
    case False
    then have "(3, enc_bstr D (ac_proof a)) \<in> set ?fs" by simp
    from all [OF this] show ?thesis using False unfolding fm_has_def by (subst at) auto
  qed (unfold fm_has_def, subst at, simp)
  note h = h2 h3
  have "decodeAccess D raw = Some a"
  proof (cases "ac_kind a = AccessKindSession")
    case True
    then have "ac_cap a = None" "ac_proof a = []"
      using d m(2) kind h by (auto simp: decodeAccess_def split: if_splits)
    then show ?thesis using d m(2) kind h True by (auto simp: decodeAccess_def split: if_splits)
  next
    case False
    then have c: "ac_kind a = AccessKindCap" "ac_cap a \<noteq> None" "ac_proof a \<noteq> []"
      using d m(2) kind h by (auto simp: decodeAccess_def fm_has_def split: if_splits option.splits)
    then obtain c vc where vc: "ac_cap a = Some c" "cap_encode D c = Some vc" using cp by auto
    have "map_of ?m 2 = Some vc" by (subst at) (simp add: vc)
    then show ?thesis using d m(2) kind h prv c vc cap_roundtrip(1) [OF assms(1) vc(2)] False
      by (auto simp: decodeAccess_def split: if_splits option.splits)
  qed
  then show "decodeAccess D raw = Some a" .
qed

lemma rk_roundtrip:
  assumes "coredet_ok D" and "rk_check r"
  obtains b where "rk_encode D r = Some b" "decodeRK D b = Some r" "item_within D 1 b" "length b \<le> 200"
proof -
  have r: "rk_suite r = 1" "length (rk_pub r) = 32"
    using assms(2) by (auto simp: rk_check_def SuiteX25519_def params_def suite1_def split: if_splits)
  obtain vs where vs: "enc_uint D (ucast (rk_suite r)) = Some vs" using uint_encodes [OF assms(1)] by blast
  have "in_memory (rk_pub r)" by (simp add: in_memory_def r MaxInt_def)
  then obtain vp where vp: "enc_bstr D (rk_pub r) = Some vp" using encodes(2) [OF assms(1)] by blast
  let ?fs = "[(1 :: u64, enc_uint D (ucast (rk_suite r))), (2, enc_bstr D (rk_pub r))]"
  have k: "sorted_wrt (<) (map fst ?fs)" by (simp add: word_less_nat_alt)
  have i: "\<forall>p \<in> set ?fs. \<exists>v. snd p = Some v \<and> item_within D 0 v" using vs vp enc_items [OF assms(1)] by simp
  have "\<exists>b. enc_struct D ?fs = Some b" by (rule enc_struct_total [OF assms(1) k i small_levels(1)]) simp
  then obtain b where b: "enc_struct D ?fs = Some b" by blast
  have i2: "\<forall>p \<in> set ?fs. \<forall>v. snd p = Some v \<longrightarrow> item_within D 0 v" using i by auto
  note m = enc_structD [OF assms(1) k i2 small_levels(1) b]
  let ?m = "map (\<lambda>f. (fst f, the (snd f))) ?fs"
  have "rawUint D ?m 1 = Some (ucast (rk_suite r))" "rawBytes D ?m 2 = Some (rk_pub r)"
    by (rule raw_of(1) [OF assms(1) _ vs], simp add: vs, rule raw_of(3) [OF assms(1) _ vp], simp add: vp)
  moreover have "\<lparr>rk_suite = 1, rk_pub = rk_pub r\<rparr> = r" using r by (cases r) simp
  moreover have "rk_check \<lparr>rk_suite = 1, rk_pub = rk_pub r\<rparr>"
    using r by (simp add: rk_check_def SuiteX25519_def params_def suite1_def)
  ultimately have "decodeRK D b = Some r"
    using m(2) r assms(2) by (simp add: decodeRK_def Let_def word_less_nat_alt)
  moreover have "length b \<le> 200"
    using m(4) enc_lengths(1) [OF assms(1) vs] enc_lengths(3) [OF assms(1) vp] r head_le [of 1] head_le [of 2]
    using vs by (simp add: encodedLen_def vp cborHeadLen_def)
  ultimately show ?thesis using that [OF b [folded rk_encode_def]] m(3) by simp
qed

section \<open>The outer object\<close>

lemma put_enc_Some [simp]: "put_enc k (Some v) (Some m) = Some (fm_put k v m)"
  by (simp add: put_enc_def)

lemma suite_64 [simp]: "(ucast SuiteX25519 :: u64) = 1" "(ucast (1 :: u64) :: suite) = SuiteX25519"
  by (simp_all add: SuiteX25519_def)

lemma outer_is:
  assumes "coredet_ok D" and "ValidString rcpt" and "in_memory rcpt" and "length (k_kid key) = KIDLen" and "length enc = 32" and "in_memory ct"
    and "k_suite key = SuiteX25519"
  obtains m v1 v2 v3 v4 v5 v6 v8 where "outer_map D rcpt key enc ct oexp = Some m"
    "enc_uint D 2 = Some v1" "enc_text D rcpt = Some v2" "enc_uint D 1 = Some v3" "enc_bstr D (k_kid key) = Some v4"
    "enc_bstr D enc = Some v5" "enc_bstr D ct = Some v6" "enc_uint D oexp = Some v8"
    "fm_is D m ([1 \<mapsto> v1, 2 \<mapsto> v2, 3 \<mapsto> v3, 4 \<mapsto> v4, 5 \<mapsto> v5, 6 \<mapsto> v6] (8 := (if oexp = 0 then None else Some v8)))"
    "length m \<le> 7"
proof -
  have mem: "in_memory (k_kid key)" "in_memory enc" using assms(4,5) by (simp_all add: in_memory_def MaxInt_def KIDLen_def)
  obtain v1 v3 v8 where u: "enc_uint D 2 = Some v1" "enc_uint D 1 = Some v3" "enc_uint D oexp = Some v8"
    using uint_encodes [OF assms(1)] by metis
  obtain v2 where t: "enc_text D rcpt = Some v2" using encodes(1) [OF assms(1-3)] by blast
  obtain v4 v5 v6 where b: "enc_bstr D (k_kid key) = Some v4" "enc_bstr D enc = Some v5" "enc_bstr D ct = Some v6"
    using encodes(2) [OF assms(1)] mem assms(6) by metis
  note i = flat_fits(1) [OF assms(1) u(1)] flat_fits(1) [OF assms(1) u(2)] flat_fits(1) [OF assms(1) u(3)]
    flat_fits(2) [OF assms(1) t] flat_fits(3) [OF assms(1) b(1)] flat_fits(3) [OF assms(1) b(2)] flat_fits(3) [OF assms(1) b(3)]
  let ?m = "fm_put 6 v6 (fm_put 5 v5 (fm_put 4 v4 (fm_put 3 v3 (fm_put 2 v2 (fm_put 1 v1 [])))))"
  have f: "fm_is D ?m [1 \<mapsto> v1, 2 \<mapsto> v2, 3 \<mapsto> v3, 4 \<mapsto> v4, 5 \<mapsto> v5, 6 \<mapsto> v6]"
    by (intro fm_is_put fm_is_nil i)
  have o: "outer_map D rcpt key enc ct oexp = Some (if oexp = 0 then ?m else fm_put 8 v8 ?m)"
    by (simp add: outer_map_def Let_def u t b assms(7) EnvelopeVersion_def)
  have "length ?m \<le> 6" by (simp add: word_less_nat_alt)
  then have len: "length (if oexp = 0 then ?m else fm_put 8 v8 ?m) \<le> 7" using length_put [of 8 v8 ?m] by auto
  have "fm_is D (if oexp = 0 then ?m else fm_put 8 v8 ?m) ([1 \<mapsto> v1, 2 \<mapsto> v2, 3 \<mapsto> v3, 4 \<mapsto> v4, 5 \<mapsto> v5, 6 \<mapsto> v6] (8 := (if oexp = 0 then None else Some v8)))"
  proof (cases "oexp = 0")
    case True
    have "[1 :: u64 \<mapsto> v1, 2 \<mapsto> v2, 3 \<mapsto> v3, 4 \<mapsto> v4, 5 \<mapsto> v5, 6 \<mapsto> v6] (8 := None) = [1 \<mapsto> v1, 2 \<mapsto> v2, 3 \<mapsto> v3, 4 \<mapsto> v4, 5 \<mapsto> v5, 6 \<mapsto> v6 :: bytes]"
      by (rule fun_upd_idem) simp
    then show ?thesis using f True by simp
  next
    case False
    then show ?thesis using fm_is_put [OF f i(3), of 8] by simp
  qed
  then show ?thesis using that [OF o u(1) t u(2) b u(3) _ len] by blast
qed

lemma ebind_must: "ebind (must (Some x) r s) f = f x"
  by (simp add: must_def ebind_def)

lemma outer_parses:
  assumes "coredet_ok D"
    and v: "enc_uint D 2 = Some v1" "enc_text D rcpt = Some v2" "enc_uint D 1 = Some v3" "enc_bstr D kid = Some v4"
      "enc_bstr D enc = Some v5" "enc_bstr D ct = Some v6" "enc_uint D oexp = Some v8"
    and m: "fm_is D m ([1 \<mapsto> v1, 2 \<mapsto> v2, 3 \<mapsto> v3, 4 \<mapsto> v4, 5 \<mapsto> v5, 6 \<mapsto> v6] (8 := (if oexp = 0 then None else Some v8)))"
    and a: "decodeAccess D raw = Some a" "fits D raw" and e: "enc_map D (fm_put 7 raw m) = Some env"
    and c: "rcpt \<noteq> []" "length kid = KIDLen" "length enc = 32" "ct \<noteq> []"
  shows "ParseOuter D env = Inr \<lparr>ev_v = 2, ev_to = rcpt, ev_suite = SuiteX25519, ev_kid = kid, ev_enc = enc, ev_ct = ct,
    ev_access = Some a, ev_exp = (if oexp = 0 then None else Some oexp)\<rparr>"
proof -
  let ?m = "fm_put 7 raw m"
  note p = fm_is_put [OF m a(2), of 7]
  have d: "decodeFields D env = Some ?m" by (rule decode_fm_is [OF assms(1) p e])
  note at = field_values [OF p]
  have k: "firstUnknownCritical ?m outerKnown = None"
    unfolding critical_none fm_is_keys [OF p] by (auto simp: outerKnown_def split: if_splits)
  have f: "rawUint D ?m 1 = Some 2" "rawUint D ?m 3 = Some 1" "rawText D ?m 2 = Some rcpt" "rawBytes D ?m 4 = Some kid"
    "rawBytes D ?m 5 = Some enc" "rawBytes D ?m 6 = Some ct"
    using raw_is(1) [OF assms(1) p v(1), of 1] raw_is(1) [OF assms(1) p v(3), of 3] raw_is(2) [OF assms(1) p v(2), of 2]
      raw_is(3) [OF assms(1) p v(4), of 4] raw_is(3) [OF assms(1) p v(5), of 5] raw_is(3) [OF assms(1) p v(6), of 6]
    by simp_all
  have x: "(if fm_has ?m 8 then ebind (must (rawUint D ?m 8) BadOuter []) (\<lambda>e. Inr (Some e)) else Inr None)
      = Inr (if oexp = 0 then None else Some oexp)"
  proof (cases "oexp = 0")
    case True
    then show ?thesis by (simp add: fm_is_has [OF p])
  next
    case False
    then have "rawUint D ?m 8 = Some oexp" by (intro raw_is(1) [OF assms(1) p v(7)]) simp
    then show ?thesis using False by (simp add: fm_is_has [OF p] ebind_must)
  qed
  have r: "map_of ?m 7 = Some raw" by (simp add: at)
  have s: "\<not> (1 :: u64) > 0xff" "Supported (ucast (1 :: u64))" "(case params (ucast (1 :: u64)) of Some p \<Rightarrow> encLen p | None \<Rightarrow> 0) = 32"
    by (simp_all add: Supported_iff params_def suite1_def word_less_nat_alt SuiteX25519_def)
  show ?thesis
    unfolding ParseOuter_def d ebind_must f x r a(1) option.case k using s c
    by (simp add: EnvelopeVersion_def ebind_def SuiteX25519_def)
qed

section \<open>The inner message\<close>

definition opt_put :: "u64 \<Rightarrow> bytes option \<Rightarrow> field_map \<Rightarrow> field_map" where
  "opt_put k e m = (case e of None \<Rightarrow> m | Some v \<Rightarrow> fm_put k v m)"

definition opt_len :: "bytes option \<Rightarrow> nat" where
  "opt_len e = (case e of None \<Rightarrow> 0 | Some v \<Rightarrow> length v)"

lemma fm_is_opt: "fm_is D m f \<Longrightarrow> f k = None \<Longrightarrow> (\<And>v. e = Some v \<Longrightarrow> fits D v) \<Longrightarrow> fm_is D (opt_put k e m) (f(k := e))"
  by (cases e) (auto simp: opt_put_def fm_is_put fun_upd_idem)

lemma weight_opt: "fm_weight (opt_put k e m) \<le> fm_weight m + 9 + opt_len e"
  using fm_weight_put by (auto simp: opt_put_def opt_len_def split: option.splits)

lemma weight_put_le: "fm_weight m \<le> n \<Longrightarrow> fm_weight (fm_put k v m) \<le> n + 9 + length v"
  using fm_weight_put [of k v m] by linarith

lemma weight_opt_le: "fm_weight m \<le> n \<Longrightarrow> fm_weight (opt_put k e m) \<le> n + 9 + opt_len e"
  using weight_opt [of k e m] by linarith

text \<open>The entries of the inner field map.\<close>

definition inner_base :: "coredet \<Rightarrow> sealed_inner \<Rightarrow> u64 \<Rightarrow> bytes option" where
  "inner_base D i =
     [1 \<mapsto> the (enc_text D (in_from i)), 2 \<mapsto> the (enc_uint D (in_seq i)), 3 \<mapsto> the (enc_text D (in_to i)),
       4 \<mapsto> the (enc_text D (in_type i)), 5 \<mapsto> the (enc_text D (in_ix i)), 6 \<mapsto> the (enc_bstr D (in_mid i)),
       7 \<mapsto> the (enc_uint D (in_ts i)), 8 \<mapsto> the (enc_uint D (in_exp i)), 9 \<mapsto> the (enc_bstr D (in_body i))]
      (10 := Option.bind (in_kel i) (enc_bstr D), 11 := (if in_notices i = [] then None else enc_notices D (in_notices i)),
       12 := Option.bind (in_keys i) (enc_bstr D), 14 := in_grant i, 15 := Option.bind (in_rk i) (rk_encode D))"

definition inner_entries :: "coredet \<Rightarrow> sealed_inner \<Rightarrow> u64 \<Rightarrow> bytes option" where
  "inner_entries D i = inner_base D i ++ map_of (in_ext i)"

definition inner_size :: "sealed_inner \<Rightarrow> nat" where
  "inner_size i = length (in_from i) + length (in_to i) + length (in_type i) + length (in_ix i) + length (in_body i)
     + opt_len (in_kel i) + opt_len (in_keys i) + opt_len (in_grant i) + fm_weight (in_ext i)"

text \<open>A message the cipher can hold: its texts are UTF-8, its extensions are a map, its items are not nested deeper nor more than
  the decoder takes, and its parts are not longer than 16 GiB, so that the padded plaintext stays below the \<open>2^38 - 64\<close> bytes
  of the AEAD.\<close>

definition sealable :: "coredet \<Rightarrow> sealed_inner \<Rightarrow> bool" where
  "sealable D i \<longleftrightarrow> ValidString (in_from i) \<and> ValidString (in_to i) \<and> ValidString (in_type i) \<and> ValidString (in_ix i)
     \<and> fm_ok (in_ext i) \<and> inner_size i \<le> 2 ^ 34 \<and> length (in_ext i) + 20 \<le> max_entries
     \<and> (\<forall>g. in_grant i = Some g \<longrightarrow> item_depth D g < max_levels) \<and> (\<forall>p \<in> set (in_ext i). item_depth D (snd p) < max_levels)"

lemma small_in_memory: "length x \<le> 2 ^ 37 \<Longrightarrow> in_memory x"
  by (simp add: in_memory_def MaxInt_def)

lemma fold_ext:
  assumes "fm_is D m f" and "list_all (\<lambda>p. fits D (snd p)) ext" and "distinct (map fst ext)"
  shows "fm_is D (fold (\<lambda>(k, v). fm_put k v) ext m) (f ++ map_of ext)"
    and "fm_weight (fold (\<lambda>(k, v). fm_put k v) ext m) \<le> fm_weight m + fm_weight ext"
proof -
  show "fm_is D (fold (\<lambda>(k, v). fm_put k v) ext m) (f ++ map_of ext)"
    using assms
  proof (induction ext arbitrary: m f)
    case (Cons p ext)
    obtain k v where p: "p = (k, v)" by (cases p)
    have "fm_is D (fold (\<lambda>(k, v). fm_put k v) ext (fm_put k v m)) (f(k \<mapsto> v) ++ map_of ext)"
      using Cons.prems p by (intro Cons.IH fm_is_put) simp_all
    moreover have "f(k \<mapsto> v) ++ map_of ext = f ++ map_of ((k, v) # ext)"
    proof -
      have "k \<notin> dom (map_of ext)" using Cons.prems(3) p by (simp add: dom_map_of_conv_image_fst)
      then show ?thesis unfolding map_of.simps fst_conv snd_conv map_add_upd by (rule map_add_upd_left)
    qed
    ultimately show ?case unfolding p by (simp only: fold.simps o_apply prod.case)
  qed simp
  show "fm_weight (fold (\<lambda>(k, v). fm_put k v) ext m) \<le> fm_weight m + fm_weight ext"
  proof (induction ext arbitrary: m)
    case (Cons p ext)
    obtain k v where p: "p = (k, v)" by (cases p)
    have "fm_weight (fold (\<lambda>(k, v). fm_put k v) ext (fm_put k v m)) \<le> fm_weight (fm_put k v m) + fm_weight ext" by (rule Cons.IH)
    then show ?case using fm_weight_put [of k v m] by (simp add: p fm_weight_def)
  qed simp
qed

lemma notices_one:
  assumes "coredet_ok D" and "length n \<le> MaxNoticeBytes"
  obtains v where "enc_notices D [n] = Some v" "item_within D 1 v" "rawNotices D v = Some [n]" "length v \<le> 1100"
proof -
  have "in_memory n" using assms(2) by (simp add: in_memory_def MaxInt_def MaxNoticeBytes_def)
  then obtain e where e: "enc_bstr D n = Some e" using encodes(2) [OF assms(1)] by blast
  have i: "list_all (fits D) [e]" "list_all (item_ok D) [e]" "list_all (\<lambda>x. item_depth D x \<le> 0) [e]"
    using enc_items(3) [OF assms(1) e] within_fits [OF _ small_levels(1)] by (simp_all add: item_within_def)
  then obtain v where v: "enc_list D [e] = Some v" using encodes(3) [OF assms(1), of "[e]"] by (auto simp: max_entries_def)
  have "fm_is D [(0, e)] [0 \<mapsto> e]" using fm_is_put [OF fm_is_nil flat_fits(3) [OF assms(1) e], of 0] by simp
  then have "rawBytes D [(0, e)] 0 = Some n" using raw_is(3) [OF assms(1) _ e] by simp
  then have "rawNotices D v = Some [n]"
    using enc_listD [OF assms(1) i(2) v] assms(2) by (simp add: rawNotices_def noticesPerMessage_def)
  moreover have "length v \<le> 1100"
    using enc_listD(4) [OF assms(1) i(2) v] enc_lengths(3) [OF assms(1) e] assms(2) by (simp add: cborHeadLen_def MaxNoticeBytes_def)
  ultimately show ?thesis using that enc_listD(3) [OF assms(1) i(2) v] depths(1) [OF assms(1) i(2) v i(3)] e v by (simp add: enc_notices_def item_within_def)
qed

lemma checkForSeal_ok:
  assumes "checkForSeal D K i oexp = Inr ()"
  shows "in_from i \<noteq> []" "in_to i \<noteq> []" "in_type i \<noteq> []" "\<not> has_nul (in_from i)" "\<not> has_nul (in_to i)" "\<not> has_nul (in_ix i)"
    "length (in_mid i) = MIDLen" "in_ts i \<noteq> 0" "in_ts i \<le> in_exp i" "in_exp i - in_ts i \<le> MaxMessageLifetimeMS"
    "oexp = 0 \<or> oexp = in_exp i" "in_kel i \<noteq> None \<longleftrightarrow> in_notices i \<noteq> []"
    "\<And>k. in_kel i = Some k \<Longrightarrow> length (in_notices i) = 1 \<and> (\<exists>kel. ParseKEL K k = Inr kel)"
    "\<And>n. n \<in> set (in_notices i) \<Longrightarrow> length n \<le> MaxNoticeBytes"
    "\<And>g. in_grant i = Some g \<Longrightarrow> item_ok D g" "\<And>r. in_rk i = Some r \<Longrightarrow> rk_check r"
    "\<And>p. p \<in> set (in_ext i) \<Longrightarrow> FirstIgnorableKey \<le> fst p \<and> item_ok D (snd p)"
proof -
  note a = assms [unfolded checkForSeal_def]
  show "in_from i \<noteq> []" "in_to i \<noteq> []" "in_type i \<noteq> []" "\<not> has_nul (in_from i)" "\<not> has_nul (in_to i)" "\<not> has_nul (in_ix i)"
    "length (in_mid i) = MIDLen" "in_ts i \<noteq> 0" "in_ts i \<le> in_exp i" "in_exp i - in_ts i \<le> MaxMessageLifetimeMS"
    "oexp = 0 \<or> oexp = in_exp i" "in_kel i \<noteq> None \<longleftrightarrow> in_notices i \<noteq> []"
    using a by (simp_all add: not_less split: if_splits)
  show "length (in_notices i) = 1 \<and> (\<exists>kel. ParseKEL K k = Inr kel)" if "in_kel i = Some k" for k
    using a that by (simp add: noticesPerMessage_def split: if_splits) (cases "ParseKEL K k"; simp)
  show "length n \<le> MaxNoticeBytes" if "n \<in> set (in_notices i)" for n
    using a that by (simp add: list_ex_iff not_less split: if_splits)
  show "item_ok D g" if "in_grant i = Some g" for g using a that by (simp add: wellFormedItem_def split: if_splits)
  show "rk_check r" if "in_rk i = Some r" for r using a that by (simp split: if_splits)
  show "FirstIgnorableKey \<le> fst p \<and> item_ok D (snd p)" if "p \<in> set (in_ext i)" for p
    using a that by (cases p) (fastforce simp: list_ex_iff wellFormedItem_def not_less split: if_splits)
qed

text \<open>The inner field map of a message that passes the checks.\<close>

lemma inner_is:
  assumes D: "coredet_ok D" and c: "checkForSeal D K i oexp = Inr ()" and z: "sealable D i"
  obtains m where "inner_fieldMap D i = Some m" "fm_is D m (inner_entries D i)" "fm_weight m \<le> inner_size i + 2500" "length m + 6 \<le> max_entries"
    "enc_text D (in_from i) \<noteq> None" "enc_text D (in_to i) \<noteq> None" "enc_text D (in_type i) \<noteq> None" "enc_text D (in_ix i) \<noteq> None"
    "enc_bstr D (in_mid i) \<noteq> None" "enc_bstr D (in_body i) \<noteq> None"
    "\<And>k. in_kel i = Some k \<Longrightarrow> enc_bstr D k \<noteq> None" "\<And>k. in_keys i = Some k \<Longrightarrow> enc_bstr D k \<noteq> None"
proof -
  note ck = checkForSeal_ok [OF c]
  have sz: "inner_size i \<le> 2 ^ 34" using z by (simp add: sealable_def)
  have mem: "in_memory (in_from i)" "in_memory (in_to i)" "in_memory (in_type i)" "in_memory (in_ix i)" "in_memory (in_body i)" "in_memory (in_mid i)"
    using sz ck(7) by (simp_all add: inner_size_def MIDLen_def in_memory_def MaxInt_def)
  have memk: "in_memory k" if "in_kel i = Some k \<or> in_keys i = Some k" for k
    using sz that by (auto simp: inner_size_def in_memory_def MaxInt_def opt_len_def)
  have val: "ValidString (in_from i)" "ValidString (in_to i)" "ValidString (in_type i)" "ValidString (in_ix i)"
    using z by (simp_all add: sealable_def)
  obtain v1 v3 v4 v5 where t: "enc_text D (in_from i) = Some v1" "enc_text D (in_to i) = Some v3" "enc_text D (in_type i) = Some v4"
      "enc_text D (in_ix i) = Some v5"
    using encodes(1) [OF D val(1) mem(1)] encodes(1) [OF D val(2) mem(2)] encodes(1) [OF D val(3) mem(3)] encodes(1) [OF D val(4) mem(4)] by blast
  obtain v6 v9 where b: "enc_bstr D (in_mid i) = Some v6" "enc_bstr D (in_body i) = Some v9" using encodes(2) [OF D] mem by metis
  obtain v2 v7 v8 where u: "enc_uint D (in_seq i) = Some v2" "enc_uint D (in_ts i) = Some v7" "enc_uint D (in_exp i) = Some v8"
    using uint_encodes [OF D] by metis
  note items = flat_fits(2) [OF D t(1)] flat_fits(2) [OF D t(2)] flat_fits(2) [OF D t(3)] flat_fits(2) [OF D t(4)]
    flat_fits(3) [OF D b(1)] flat_fits(3) [OF D b(2)] flat_fits(1) [OF D u(1)] flat_fits(1) [OF D u(2)] flat_fits(1) [OF D u(3)]
  let ?m9 = "fm_put 9 v9 (fm_put 8 v8 (fm_put 7 v7 (fm_put 6 v6 (fm_put 5 v5 (fm_put 4 v4 (fm_put 3 v3 (fm_put 2 v2 (fm_put 1 v1 []))))))))"
  let ?f9 = "[1 \<mapsto> v1, 2 \<mapsto> v2, 3 \<mapsto> v3, 4 \<mapsto> v4, 5 \<mapsto> v5, 6 \<mapsto> v6, 7 \<mapsto> v7, 8 \<mapsto> v8, 9 \<mapsto> v9]"
  have f9: "fm_is D ?m9 ?f9" by (intro fm_is_put fm_is_nil items)
  let ?e10 = "Option.bind (in_kel i) (enc_bstr D)"
  let ?e11 = "if in_notices i = [] then None else enc_notices D (in_notices i)"
  let ?e12 = "Option.bind (in_keys i) (enc_bstr D)"
  let ?e15 = "Option.bind (in_rk i) (rk_encode D)"
  have e10: "in_kel i = Some k \<Longrightarrow> \<exists>v. enc_bstr D k = Some v \<and> fits D v \<and> length v \<le> 9 + length k" for k
    using encodes(2) [OF D memk] flat_fits(3) [OF D] enc_lengths(3) [OF D] by metis
  have e12: "in_keys i = Some k \<Longrightarrow> \<exists>v. enc_bstr D k = Some v \<and> fits D v \<and> length v \<le> 9 + length k" for k
    using encodes(2) [OF D memk] flat_fits(3) [OF D] enc_lengths(3) [OF D] by metis
  have e11: "in_notices i = [] \<or> (\<exists>v. enc_notices D (in_notices i) = Some v \<and> fits D v \<and> length v \<le> 1100)"
  proof (cases "in_notices i = []")
    case False
    then obtain n where n: "in_notices i = [n]" using ck(12,13) by (cases "in_kel i") (auto simp: length_1_iff)
    then show ?thesis using notices_one [OF D, of n] ck(14) [of n] within_fits [OF _ small_levels(2)] by (metis list.set_intros(1))
  qed simp
  have e15: "in_rk i = Some r \<Longrightarrow> \<exists>v. rk_encode D r = Some v \<and> fits D v \<and> length v \<le> 200" for r
    using rk_roundtrip [OF D ck(16)] within_fits [OF _ small_levels(2)] by metis
  let ?m15 = "opt_put 15 ?e15 (opt_put 14 (in_grant i) (opt_put 12 ?e12 (opt_put 11 ?e11 (opt_put 10 ?e10 ?m9))))"
  have i10: "?e10 = Some v \<Longrightarrow> fits D v" for v using e10 by (cases "in_kel i") auto
  have i11: "?e11 = Some v \<Longrightarrow> fits D v" for v using e11 by (auto split: if_splits)
  have i12: "?e12 = Some v \<Longrightarrow> fits D v" for v using e12 by (cases "in_keys i") auto
  have i14: "in_grant i = Some g \<Longrightarrow> fits D g" for g using ck(15) z by (simp add: sealable_def fits_def)
  have i15: "?e15 = Some v \<Longrightarrow> fits D v" for v using e15 by (cases "in_rk i") auto
  have f15: "fm_is D ?m15 (?f9 (10 := ?e10, 11 := ?e11, 12 := ?e12, 14 := in_grant i, 15 := ?e15))"
    by (intro fm_is_opt f9) (use i10 i11 i12 i15 i14 in simp_all)
  have p10: "put_opt 10 (map_option (enc_bstr D) (in_kel i)) (Some m) = Some (opt_put 10 ?e10 m)" for m
    using e10 by (cases "in_kel i") (auto simp: put_opt_def opt_put_def)
  have p11: "put_opt 11 (if length (in_notices i) > 0 then Some (enc_notices D (in_notices i)) else None) (Some m) = Some (opt_put 11 ?e11 m)" for m
    using e11 by (auto simp: put_opt_def opt_put_def)
  have p12: "put_opt 12 (map_option (enc_bstr D) (in_keys i)) (Some m) = Some (opt_put 12 ?e12 m)" for m
    using e12 by (cases "in_keys i") (auto simp: put_opt_def opt_put_def)
  have p14: "put_opt 14 (map_option Some (in_grant i)) (Some m) = Some (opt_put 14 (in_grant i) m)" for m
    by (cases "in_grant i") (auto simp: put_opt_def opt_put_def)
  have p15: "put_opt 15 (map_option (rk_encode D) (in_rk i)) (Some m) = Some (opt_put 15 ?e15 m)" for m
    using e15 by (cases "in_rk i") (auto simp: put_opt_def opt_put_def)
  let ?m = "fold (\<lambda>(k, v). fm_put k v) (in_ext i) ?m15"
  have m: "inner_fieldMap D i = Some ?m"
    by (simp only: inner_fieldMap_def Let_def t b u put_enc_Some p10 p11 p12 p14 p15 option.map)
  have ext: "list_all (\<lambda>p. fits D (snd p)) (in_ext i)" using ck(17) z by (simp add: list_all_iff sealable_def fits_def)
  have dist: "distinct (map fst (in_ext i))" using z by (simp add: sealable_def fm_ok_def strict_sorted_iff)
  note fe = fold_ext [OF f15 ext dist]
  have fm: "fm_is D ?m (inner_entries D i)" using fe(1) by (simp only: inner_entries_def inner_base_def t b u option.sel)
  have "fm_weight ?m15 \<le> 0 + 9 + length v1 + 9 + length v2 + 9 + length v3 + 9 + length v4 + 9 + length v5 + 9 + length v6 + 9 + length v7
      + 9 + length v8 + 9 + length v9 + 9 + opt_len ?e10 + 9 + opt_len ?e11 + 9 + opt_len ?e12 + 9 + opt_len (in_grant i) + 9 + opt_len ?e15"
    by (intro weight_put_le weight_opt_le) (simp add: fm_weight_def)
  moreover have "length v1 \<le> 9 + length (in_from i)" "length v3 \<le> 9 + length (in_to i)" "length v4 \<le> 9 + length (in_type i)"
      "length v5 \<le> 9 + length (in_ix i)" "length v6 \<le> 25" "length v9 \<le> 9 + length (in_body i)" "length v2 \<le> 9" "length v7 \<le> 9" "length v8 \<le> 9"
    using enc_lengths(2) [OF D t(1)] enc_lengths(2) [OF D t(2)] enc_lengths(2) [OF D t(3)] enc_lengths(2) [OF D t(4)]
      enc_lengths(3) [OF D b(1)] enc_lengths(3) [OF D b(2)] enc_lengths(1) [OF D u(1)] enc_lengths(1) [OF D u(2)] enc_lengths(1) [OF D u(3)] ck(7)
    by (simp_all add: MIDLen_def)
  moreover have "opt_len ?e10 \<le> 9 + opt_len (in_kel i)" using e10 by (cases "in_kel i") (auto simp: opt_len_def)
  moreover have "opt_len ?e12 \<le> 9 + opt_len (in_keys i)" using e12 by (cases "in_keys i") (auto simp: opt_len_def)
  moreover have "opt_len ?e11 \<le> 1100" using e11 by (auto simp: opt_len_def)
  moreover have "opt_len ?e15 \<le> 200" using e15 by (cases "in_rk i") (auto simp: opt_len_def)
  ultimately have "fm_weight ?m15 + fm_weight (in_ext i) \<le> inner_size i + 2500" by (simp add: inner_size_def)
  then have w: "fm_weight ?m \<le> inner_size i + 2500" using fe(2) by (rule order_trans [rotated])
  have lo: "length (opt_put k e m) \<le> Suc (length m)" for k e m
    using length_put [of k _ m] by (cases e) (auto simp: opt_put_def)
  have lf: "length (fold (\<lambda>(k, v). fm_put k v) ext m) \<le> length m + length ext" for ext m
  proof (induction ext arbitrary: m)
    case (Cons p ext)
    show ?case using Cons.IH [of "fm_put (fst p) (snd p) m"] length_put [of "fst p" "snd p" m] by (simp add: case_prod_beta)
  qed simp
  have "length ?m9 \<le> 9" by (simp add: word_less_nat_alt)
  moreover have "length ?m15 \<le> length ?m9 + 5"
    using lo [of 15 ?e15 "opt_put 14 (in_grant i) (opt_put 12 ?e12 (opt_put 11 ?e11 (opt_put 10 ?e10 ?m9)))"]
      lo [of 14 "in_grant i" "opt_put 12 ?e12 (opt_put 11 ?e11 (opt_put 10 ?e10 ?m9))"] lo [of 12 ?e12 "opt_put 11 ?e11 (opt_put 10 ?e10 ?m9)"]
      lo [of 11 ?e11 "opt_put 10 ?e10 ?m9"] lo [of 10 ?e10 ?m9] by linarith
  moreover have "length (in_ext i) + 20 \<le> max_entries" using z by (simp add: sealable_def)
  ultimately have "length ?m + 6 \<le> max_entries" using lf [of "in_ext i" ?m15] by linarith
  then show ?thesis using that [OF m fm w] t b e10 e12 by auto
qed

lemma inner_low:
  assumes "\<forall>p \<in> set (in_ext i). FirstIgnorableKey \<le> fst p" and "k < FirstIgnorableKey"
  shows "inner_entries D i k = inner_base D i k"
proof -
  have "map_of (in_ext i) k = None"
  proof (rule ccontr)
    assume "map_of (in_ext i) k \<noteq> None"
    then obtain v where "(k, v) \<in> set (in_ext i)" by (auto dest: map_of_SomeD)
    then show False using assms by fastforce
  qed
  then show ?thesis by (simp add: inner_entries_def map_add_def)
qed

lemma inner_high: "FirstIgnorableKey \<le> k \<Longrightarrow> inner_entries D i k = map_of (in_ext i) k"
proof -
  assume "FirstIgnorableKey \<le> k"
  then have "64 \<le> unat k" by (simp add: FirstIgnorableKey_def word_le_nat_alt)
  then have "k \<noteq> 1 \<and> k \<noteq> 2 \<and> k \<noteq> 3 \<and> k \<noteq> 4 \<and> k \<noteq> 5 \<and> k \<noteq> 6 \<and> k \<noteq> 7 \<and> k \<noteq> 8 \<and> k \<noteq> 9 \<and> k \<noteq> 10 \<and> k \<noteq> 11 \<and> k \<noteq> 12 \<and> k \<noteq> 14 \<and> k \<noteq> 15"
    by (intro conjI notI; simp)
  then show ?thesis by (simp add: inner_entries_def inner_base_def map_add_def split: option.splits)
qed

lemma inner_keys: "inner_base D i k \<noteq> None \<Longrightarrow> k \<in> set innerKnown"
  by (auto simp: inner_base_def innerKnown_def split: if_splits)

lemma inner_at:
  "inner_base D i 1 = Some (the (enc_text D (in_from i)))" "inner_base D i 2 = Some (the (enc_uint D (in_seq i)))"
  "inner_base D i 3 = Some (the (enc_text D (in_to i)))" "inner_base D i 4 = Some (the (enc_text D (in_type i)))"
  "inner_base D i 5 = Some (the (enc_text D (in_ix i)))" "inner_base D i 6 = Some (the (enc_bstr D (in_mid i)))"
  "inner_base D i 7 = Some (the (enc_uint D (in_ts i)))" "inner_base D i 8 = Some (the (enc_uint D (in_exp i)))"
  "inner_base D i 9 = Some (the (enc_bstr D (in_body i)))" "inner_base D i 10 = Option.bind (in_kel i) (enc_bstr D)"
  "inner_base D i 11 = (if in_notices i = [] then None else enc_notices D (in_notices i))"
  "inner_base D i 12 = Option.bind (in_keys i) (enc_bstr D)" "inner_base D i 14 = in_grant i"
  "inner_base D i 15 = Option.bind (in_rk i) (rk_encode D)" "inner_base D i 20 = None"
  by (simp_all add: inner_base_def)

lemma map_of_restrict: "map_of (filter (\<lambda>p. P (fst p)) m) k = (if P k then map_of m k else None)"
  by (induction m) auto

lemma inner_decodes:
  assumes D: "coredet_ok D" and c: "checkForSeal D K i oexp = Inr ()" and z: "sealable D i"
    and m: "inner_fieldMap D i = Some m" and s: "enc_bstr D sig = Some s" "length sig = SigLen"
    and b: "enc_map D (fm_put keySig s m) = Some b"
  shows "decodeInner D b = Inr (fm_put keySig s m, i\<lparr>in_sig := sig\<rparr>)"
proof -
  note ck = checkForSeal_ok [OF c]
  obtain f where fm: "fm_is D m f" and f_def: "f = inner_entries D i"
    and e: "enc_text D (in_from i) \<noteq> None" "enc_text D (in_to i) \<noteq> None" "enc_text D (in_type i) \<noteq> None" "enc_text D (in_ix i) \<noteq> None"
    "enc_bstr D (in_mid i) \<noteq> None" "enc_bstr D (in_body i) \<noteq> None"
    "\<And>k. in_kel i = Some k \<Longrightarrow> enc_bstr D k \<noteq> None" "\<And>k. in_keys i = Some k \<Longrightarrow> enc_bstr D k \<noteq> None"
    using inner_is [OF D c z] m by (metis option.inject)
  let ?m = "fm_put keySig s m"
  have p: "fm_is D ?m (f(20 \<mapsto> s))" using fm_is_put [OF fm flat_fits(3) [OF D s(1)], of keySig] by (simp add: keySig_def)
  have d: "decodeFields D b = Some ?m" by (rule decode_fm_is [OF D p b])
  have ext: "\<forall>p \<in> set (in_ext i). FirstIgnorableKey \<le> fst p" using ck(17) by blast
  have low: "f k = inner_base D i k" if "k < FirstIgnorableKey" for k unfolding f_def by (rule inner_low [OF ext that])
  have lt: "(1 :: u64) < FirstIgnorableKey" "(2 :: u64) < FirstIgnorableKey" "(3 :: u64) < FirstIgnorableKey" "(4 :: u64) < FirstIgnorableKey"
    "(5 :: u64) < FirstIgnorableKey" "(6 :: u64) < FirstIgnorableKey" "(7 :: u64) < FirstIgnorableKey" "(8 :: u64) < FirstIgnorableKey"
    "(9 :: u64) < FirstIgnorableKey" "(10 :: u64) < FirstIgnorableKey" "(11 :: u64) < FirstIgnorableKey" "(12 :: u64) < FirstIgnorableKey"
    "(14 :: u64) < FirstIgnorableKey" "(15 :: u64) < FirstIgnorableKey"
    by (simp_all add: FirstIgnorableKey_def word_less_nat_alt)
  note at = lt [THEN low, unfolded inner_at]
  have kn: "firstUnknownCritical ?m innerKnown = None"
    unfolding critical_none fm_is_keys [OF p]
  proof (intro ballI impI)
    fix k assume k: "k \<in> dom (f(20 \<mapsto> s))" "k < FirstIgnorableKey"
    show "k \<in> set innerKnown"
    proof (cases "k = 20")
      case False
      then show ?thesis using k low [OF k(2)] by (intro inner_keys) (auto simp: dom_def)
    qed (simp add: innerKnown_def)
  qed
  have r: "rawText D ?m 1 = Some (in_from i)" "rawUint D ?m 2 = Some (in_seq i)" "rawText D ?m 3 = Some (in_to i)" "rawText D ?m 4 = Some (in_type i)"
    "rawText D ?m 5 = Some (in_ix i)" "rawBytes D ?m 6 = Some (in_mid i)" "rawUint D ?m 7 = Some (in_ts i)" "rawUint D ?m 8 = Some (in_exp i)"
    "rawBytes D ?m 9 = Some (in_body i)" "rawBytes D ?m 20 = Some sig"
  proof -
    have u: "Some (the (enc_uint D n)) = enc_uint D n" for n using uint_encodes [OF D, of n] by auto
    show "rawText D ?m 1 = Some (in_from i)" by (rule raw_eq(2) [OF D p _ e(1)]) (simp add: at e)
    show "rawUint D ?m 2 = Some (in_seq i)" by (rule raw_eq(1) [OF D p]) (simp add: at u)
    show "rawText D ?m 3 = Some (in_to i)" by (rule raw_eq(2) [OF D p _ e(2)]) (simp add: at e)
    show "rawText D ?m 4 = Some (in_type i)" by (rule raw_eq(2) [OF D p _ e(3)]) (simp add: at e)
    show "rawText D ?m 5 = Some (in_ix i)" by (rule raw_eq(2) [OF D p _ e(4)]) (simp add: at e)
    show "rawBytes D ?m 6 = Some (in_mid i)" by (rule raw_eq(3) [OF D p _ e(5)]) (simp add: at e)
    show "rawUint D ?m 7 = Some (in_ts i)" by (rule raw_eq(1) [OF D p]) (simp add: at u)
    show "rawUint D ?m 8 = Some (in_exp i)" by (rule raw_eq(1) [OF D p]) (simp add: at u)
    show "rawBytes D ?m 9 = Some (in_body i)" by (rule raw_eq(3) [OF D p _ e(6)]) (simp add: at e)
    show "rawBytes D ?m 20 = Some sig" by (rule raw_is(3) [OF D p s(1)]) simp
  qed
  have o10: "opt_field ?m 10 (rawBytes D) = Some (in_kel i)"
  proof (cases "in_kel i")
    case (Some x)
    then have "rawBytes D ?m 10 = Some x" by (intro raw_eq(3) [OF D p _ e(7)]) (simp_all add: at)
    then show ?thesis using Some e(7) [OF Some] by (simp add: opt_field_def fm_is_has [OF p] at)
  qed (simp add: opt_field_def fm_is_has [OF p] at)
  have o12: "opt_field ?m 12 (rawBytes D) = Some (in_keys i)"
  proof (cases "in_keys i")
    case (Some x)
    then have "rawBytes D ?m 12 = Some x" by (intro raw_eq(3) [OF D p _ e(8)]) (simp_all add: at)
    then show ?thesis using Some e(8) [OF Some] by (simp add: opt_field_def fm_is_has [OF p] at)
  qed (simp add: opt_field_def fm_is_has [OF p] at)
  have o11: "(case map_of ?m 11 of None \<Rightarrow> Some [] | Some raw \<Rightarrow> rawNotices D raw) = Some (in_notices i)"
  proof (cases "in_notices i = []")
    case False
    then obtain n where n: "in_notices i = [n]" using ck(12,13) by (cases "in_kel i") (auto simp: length_1_iff)
    obtain v where "enc_notices D [n] = Some v" "rawNotices D v = Some [n]" using notices_one [OF D ck(14) [of n]] n by auto
    then show ?thesis by (simp add: field_values [OF fm] keySig_def at n)
  qed (simp add: field_values [OF fm] keySig_def at)
  have o15: "(case map_of ?m 15 of None \<Rightarrow> Inr None | Some raw \<Rightarrow> ebind (must (decodeRK D raw) BadRK []) (\<lambda>r. Inr (Some r))) = Inr (in_rk i)"
  proof (cases "in_rk i")
    case (Some rk)
    obtain v where "rk_encode D rk = Some v" "decodeRK D v = Some rk" by (rule rk_roundtrip [OF D ck(16) [OF Some]])
    then show ?thesis using Some by (simp add: field_values [OF fm] keySig_def at ebind_must)
  qed (simp add: field_values [OF fm] keySig_def at)
  have g: "map_of ?m 14 = in_grant i" by (simp add: field_values [OF fm] keySig_def at)
  have x: "filter (\<lambda>p. fst p \<ge> FirstIgnorableKey) ?m = in_ext i"
  proof (rule fm_ext)
    have "fm_ok ?m" using p by (simp add: fm_is_def)
    then show "fm_ok (filter (\<lambda>p. fst p \<ge> FirstIgnorableKey) ?m)" by (simp add: fm_ok_def sorted_wrt_map sorted_wrt_filter)
    show "fm_ok (in_ext i)" using z by (simp add: sealable_def)
    show "map_of (filter (\<lambda>p. fst p \<ge> FirstIgnorableKey) ?m) = map_of (in_ext i)"
    proof
      fix k
      have t: "(20 :: u64) < FirstIgnorableKey" by (simp add: FirstIgnorableKey_def word_less_nat_alt)
      show "map_of (filter (\<lambda>p. fst p \<ge> FirstIgnorableKey) ?m) k = map_of (in_ext i) k"
      proof (cases "FirstIgnorableKey \<le> k")
        case True
        then have "k \<noteq> 20" using t by auto
        then show ?thesis using True inner_high [OF True] by (simp add: map_of_restrict field_values [OF fm] keySig_def f_def)
      next
        case False
        have "map_of (in_ext i) k = None" using ext False by (auto simp: map_of_eq_None_iff)
        then show ?thesis using False by (simp add: map_of_restrict)
      qed
    qed
  qed
  have l: "length (in_mid i) = MIDLen" "\<not> has_nul (in_from i)" "\<not> has_nul (in_to i)" "\<not> has_nul (in_ix i)"
    "((in_kel i \<noteq> None) \<noteq> (in_notices i \<noteq> [])) = False" using ck(4-7,12) by auto
  show ?thesis
    unfolding decodeInner_def d ebind_must kn r o10 o12 o11 o15 g x using l s(2)
    by (simp add: ebind_def)
qed


section \<open>The signature preimage\<close>

text \<open>The preimage leaves the signature field out.\<close>

lemma has_put: "fm_has (fm_put k v m) j \<longleftrightarrow> j = k \<or> fm_has m j"
  by (simp add: fm_has_def)

lemma sigPreimage_sig: "sigPreimage C D (fm_put keySig s m) enc kid su ikid enc2 = sigPreimage C D m enc kid su ikid enc2"
proof -
  have a: "rawBytes D (fm_put keySig s m) keyBody = rawBytes D m keyBody"
    by (simp add: rawBytes_def raw_field_def keySig_def keyBody_def)
  have b: "list_ex (\<lambda>k. fm_has (fm_put keySig s m) k) preKeys = list_ex (\<lambda>k. fm_has m k) preKeys"
    by (simp add: preKeys_def has_put keySig_def)
  show ?thesis by (simp only: sigPreimage_def fm_del_put a b)
qed

lemma length_del: "length (fm_del k m) \<le> length m"
  by (simp add: fm_del_def)

lemma fm_is_del: "fm_is D m f \<Longrightarrow> fm_is D (fm_del k m) (f(k := None))"
proof -
  assume m: "fm_is D m f"
  then have "map_of (fm_del k m) = f(k := None)" by (simp add: fm_is_def map_of_fm_del)
  then show ?thesis using m by (auto simp: fm_is_def fm_ok_def fm_del_def list_all_iff sorted_wrt_map sorted_wrt_filter)
qed

lemma sigPreimage_total:
  assumes D: "coredet_ok D" and sha: "\<And>x. length (sha256 C x) = 32" and m: "fm_is D m f" "length m + 6 \<le> max_entries"
    and body: "rawBytes D m keyBody = Some b" and pre: "\<forall>k \<in> set preKeys. f k = None"
    and small: "in_memory enc" "in_memory kid" "\<And>x. ikid = Some x \<or> enc2 = Some x \<Longrightarrow> in_memory x" and two: "(ikid = None) = (enc2 = None)"
  shows "\<exists>pre. sigPreimage C D m enc kid su ikid enc2 = Some pre"
proof -
  have "in_memory (sha256 C b)" by (simp add: in_memory_def sha MaxInt_def)
  then obtain v9 where v9: "enc_bstr D (sha256 C b) = Some v9" using encodes(2) [OF D] by blast
  have "ValidString SigLabel" by (rule ValidString_ascii) (simp add: SigLabel_def)
  then obtain v0 where v0: "enc_text D SigLabel = Some v0"
    using encodes(1) [OF D, of SigLabel] by (auto simp: in_memory_def SigLabel_def MaxInt_def)
  obtain v30 v31 where v30: "enc_bstr D enc = Some v30" "enc_bstr D kid = Some v31" using encodes(2) [OF D] small(1,2) by blast
  obtain v32 where v32: "enc_uint D su = Some v32" using uint_encodes [OF D] by blast
  have opt: "\<exists>v. (case e of None \<Rightarrow> Some cborNull | Some i \<Rightarrow> enc_bstr D i) = Some v \<and> fits D v" if "\<And>x. e = Some x \<Longrightarrow> in_memory x" for e
    using that encodes(2) [OF D] flat_fits(3) [OF D] flat_fits(4) [OF D] by (cases e) (simp, metis option.case(2))
  obtain v33 where v33: "(case ikid of None \<Rightarrow> Some cborNull | Some i \<Rightarrow> enc_bstr D i) = Some v33" "fits D v33"
    using opt [of ikid] small(3) by blast
  obtain v34 where v34: "(case enc2 of None \<Rightarrow> Some cborNull | Some i \<Rightarrow> enc_bstr D i) = Some v34" "fits D v34"
    using opt [of enc2] small(3) by blast
  let ?m = "fm_put 34 v34 (fm_put 33 v33 (fm_put 32 v32 (fm_put 31 v31 (fm_put 30 v30 (fm_put 0 v0 (fm_put keyBody v9 (fm_del keySig m)))))))"
  note flat = flat_fits(3) [OF D v9] flat_fits(2) [OF D v0] flat_fits(3) [OF D v30(1)] flat_fits(3) [OF D v30(2)] flat_fits(1) [OF D v32]
    v33(2) v34(2)
  have fm: "fm_is D ?m (f(keySig := None, keyBody \<mapsto> v9, 0 \<mapsto> v0, 30 \<mapsto> v30, 31 \<mapsto> v31, 32 \<mapsto> v32, 33 \<mapsto> v33, 34 \<mapsto> v34))"
    by (intro fm_is_put fm_is_del m flat)
  have "keyBody \<in> set (map fst m)" using body by (auto simp: rawBytes_def raw_field_def dest: map_of_key split: option.splits)
  then have kb: "keyBody \<in> set (map fst (fm_del keySig m))" by (auto simp: fm_del_def keyBody_def keySig_def)
  have same: "length (fm_put k v x) = length x" if "k \<in> set (map fst x)" "fm_ok x" for k v x
    using that by (induction k v x rule: fm_put.induct) (auto simp: fm_ok_def)
  have "fm_ok (fm_del keySig m)" using fm_is_del [OF m(1)] by (simp add: fm_is_def)
  then have l0: "length (fm_put keyBody v9 (fm_del keySig m)) \<le> length m" using same [OF kb] length_del [of keySig m] by simp
  have grow: "length x \<le> n \<Longrightarrow> length (fm_put k v x) \<le> Suc n" for x n k v using length_put [of k v x] by linarith
  have "length ?m \<le> Suc (Suc (Suc (Suc (Suc (Suc (length m))))))" by (intro grow l0)
  then have "length ?m \<le> max_entries" using m(2) by simp
  then obtain pre where "enc_map D ?m = Some pre" using encode_fm_is [OF D fm] by blast
  moreover have "\<not> list_ex (\<lambda>k. fm_has m k) preKeys" using pre by (auto simp: list_ex_iff fm_is_has [OF m(1)])
  ultimately show ?thesis using two by (simp add: sigPreimage_def body v9 v0 v30 v32 v33(1) v34(1) Let_def)
qed

section \<open>The Wrap\<close>

text \<open>What is wrapped, padded and encoded comes back from the decoder.\<close>

lemma wrap_roundtrip:
  assumes D: "coredet_ok D" and two: "(wf_ikid w = None) = (wf_enc2 w = None)"
    and kid: "\<And>x. wf_ikid w = Some x \<Longrightarrow> length x = KIDLen" and enc2: "\<And>x. wf_enc2 w = Some x \<Longrightarrow> length x = 32"
    and body: "length (wf_body w) \<le> 2 ^ 35"
  obtains wrap pt where "paddedMap D w = Some (wrap, int (length pt))" "enc_map D wrap = Some pt" "decodeWrap D pt = Inr w"
    "length pt \<le> 2 ^ 38 - 64"
proof -
  have sm: "in_memory (wf_body w)" using body by (simp add: in_memory_def MaxInt_def)
  have sk: "in_memory x" if "wf_ikid w = Some x \<or> wf_enc2 w = Some x" for x
    using that kid enc2 by (auto simp: in_memory_def MaxInt_def KIDLen_def)
  obtain v3 where v3: "enc_bstr D (wf_body w) = Some v3" using encodes(2) [OF D sm] by blast
  let ?e1 = "Option.bind (wf_ikid w) (enc_bstr D)" let ?e2 = "Option.bind (wf_enc2 w) (enc_bstr D)"
  have e1: "\<exists>v. enc_bstr D x = Some v \<and> fits D v \<and> length v \<le> 50" if "wf_ikid w = Some x" for x
    using encodes(2) [OF D sk] that flat_fits(3) [OF D] enc_lengths(3) [OF D] kid [OF that] by (fastforce simp: KIDLen_def)
  have e2: "\<exists>v. enc_bstr D x = Some v \<and> fits D v \<and> length v \<le> 50" if "wf_enc2 w = Some x" for x
    using encodes(2) [OF D sk] that flat_fits(3) [OF D] enc_lengths(3) [OF D] enc2 [OF that] by fastforce
  let ?m = "opt_put 2 ?e2 (opt_put 1 ?e1 (fm_put 3 v3 []))"
  have p1: "(case wf_ikid w of None \<Rightarrow> Some m | Some i \<Rightarrow> put_enc 1 (enc_bstr D i) (Some m)) = Some (opt_put 1 ?e1 m)" for m
    using e1 by (cases "wf_ikid w") (auto simp: opt_put_def)
  have p2: "(case wf_enc2 w of None \<Rightarrow> Some m | Some i \<Rightarrow> put_enc 2 (enc_bstr D i) (Some m)) = Some (opt_put 2 ?e2 m)" for m
    using e2 by (cases "wf_enc2 w") (auto simp: opt_put_def)
  have fm: "fm_is D ?m ([3 \<mapsto> v3] (1 := ?e1, 2 := ?e2))"
  proof (intro fm_is_opt)
    show "fm_is D (fm_put 3 v3 []) [3 \<mapsto> v3]" by (intro fm_is_put fm_is_nil flat_fits(3) [OF D v3])
    show "fits D v" if "?e1 = Some v" for v using that e1 by (cases "wf_ikid w") auto
    show "fits D v" if "?e2 = Some v" for v using that e2 by (cases "wf_enc2 w") auto
  qed simp_all
  obtain wrap want where ap: "applyPad D ?m = (wrap, want)" by (cases "applyPad D ?m")
  have two': "((wf_ikid w = None) \<noteq> (wf_enc2 w = None)) = False" using two by simp
  have pm: "paddedMap D w = Some (wrap, want)" by (simp only: paddedMap_def two' if_False Let_def v3 put_enc_Some p1 p2 option.map ap)
  have "fm_weight ?m \<le> 0 + 9 + length v3 + 9 + opt_len ?e1 + 9 + opt_len ?e2"
    by (intro weight_put_le weight_opt_le) (simp add: fm_weight_def)
  moreover have "length v3 \<le> 9 + 2 ^ 35" using enc_lengths(3) [OF D v3] body by simp
  moreover have "opt_len ?e1 \<le> 50" using e1 by (cases "wf_ikid w") (auto simp: opt_len_def)
  moreover have "opt_len ?e2 \<le> 50" using e2 by (cases "wf_enc2 w") (auto simp: opt_len_def)
  ultimately have "fm_weight ?m \<le> 2 ^ 35 + 136" by simp
  then have "want \<le> 2 ^ 38 - 64" using applyPad_target [of D ?m] ap by simp
  moreover from this have "want \<le> MaxInt" by (simp add: MaxInt_def)
  note spec = applyPad_spec [OF D ap this]
  then obtain n pad where pad: "wrap = fm_put wrapKeyPad pad ?m" "enc_bstr D (replicate n 0) = Some pad" by blast
  have wfm: "fm_is D wrap ([3 \<mapsto> v3] (1 := ?e1, 2 := ?e2, 21 \<mapsto> pad))"
    unfolding pad(1) using fm_is_put [OF fm flat_fits(3) [OF D pad(2)], of wrapKeyPad] by (simp add: wrapKeyPad_def)
  have lo: "length (opt_put k e m) \<le> Suc (length m)" for k e m using length_put [of k _ m] by (cases e) (auto simp: opt_put_def)
  have "length ?m \<le> 3" using lo [of 2 ?e2 "opt_put 1 ?e1 (fm_put 3 v3 [])"] lo [of 1 ?e1 "fm_put 3 v3 []"] by simp
  then have "length wrap \<le> max_entries" using length_put [of wrapKeyPad pad ?m] by (simp add: pad(1) max_entries_def)
  then obtain pt where pt: "enc_map D wrap = Some pt" "length pt = encodedLen wrap" using encode_fm_is [OF D wfm] by blast
  have want: "int (length pt) = want" using pt(2) spec by simp
  note at = field_values [OF wfm]
  have dec: "decodeFields D pt = Some wrap" by (rule decode_fm_is [OF D wfm pt(1)])
  have kn: "firstUnknownCritical wrap wrapKnown = None"
    unfolding critical_none fm_is_keys [OF wfm] by (auto simp: wrapKnown_def split: if_splits)
  have r3: "rawBytes D wrap 3 = Some (wf_body w)" by (rule raw_is(3) [OF D wfm v3]) simp
  have r21: "rawBytes D wrap 21 = Some (replicate n 0)" by (rule raw_is(3) [OF D wfm pad(2)]) simp
  have zero: "\<not> list_ex (\<lambda>b. b \<noteq> 0) (replicate n (0 :: byte))" by (simp add: list_ex_iff)
  have dw: "decodeWrap D pt = Inr w"
  proof (cases "wf_ikid w")
    case None
    then have "wf_enc2 w = None" "\<not> fm_has wrap 1" "\<not> fm_has wrap 2" using two by (simp_all add: fm_is_has [OF wfm])
    then show ?thesis using None by (simp add: decodeWrap_def dec kn ebind_must r3 r21 zero)
  next
    case (Some i)
    then obtain e where e: "wf_enc2 w = Some e" using two by auto
    obtain v1 v2 where v: "enc_bstr D i = Some v1" "enc_bstr D e = Some v2" using e1 [OF Some] e2 [OF e] by blast
    have "rawBytes D wrap 1 = Some i" by (rule raw_is(3) [OF D wfm v(1)]) (simp add: Some v)
    moreover have "rawBytes D wrap 2 = Some e" by (rule raw_is(3) [OF D wfm v(2)]) (simp add: e v)
    moreover have "fm_has wrap 1" "fm_has wrap 2" by (simp_all add: fm_is_has [OF wfm] Some e v)
    moreover have "\<lparr>wf_ikid = Some i, wf_enc2 = Some e, wf_body = wf_body w\<rparr> = w" using Some e by (cases w) simp
    ultimately show ?thesis using kid [OF Some] enc2 [OF e]
      by (simp add: decodeWrap_def dec kn ebind_must r3 r21 zero suite1_def)
  qed
  have "int (length pt) \<le> 2 ^ 38 - 64" using want \<open>want \<le> 2 ^ 38 - 64\<close> by simp
  then have "length pt \<le> 2 ^ 38 - 64" by simp
  then show ?thesis by (rule that [OF pm [folded want] pt(1) dw])
qed

end
