(* ===== verification/Cbor.thy ===== *)
theory Cbor
  imports Utf8_Runes
begin

text \<open>
  The part of CBOR (RFC 8949) the packages write: data items without tags, floats and indefinite lengths, with the
  shortest heads. It is what the walk over received bytes is checked against, and it gives a concrete CoreDet on which
  the laws asked of that third-party coder hold together.
\<close>

datatype cbor =
    CUint u64
  | CNint u64
  | CBytes bytes
  | CText bytes
  | CArray "cbor list"
  | CMap "(cbor \<times> cbor) list"
  | CSimple nat

definition cbor_head :: "nat \<Rightarrow> nat \<Rightarrow> bytes" where
  "cbor_head m n =
     (if n < 24 then [of_nat (m * 32 + n)]
      else if n \<le> 0xff then of_nat (m * 32 + 24) # be_bytes 1 (of_nat n :: u64)
      else if n \<le> 0xffff then of_nat (m * 32 + 25) # be_bytes 2 (of_nat n :: u64)
      else if n \<le> 0xffffffff then of_nat (m * 32 + 26) # be_bytes 4 (of_nat n :: u64)
      else of_nat (m * 32 + 27) # be_bytes 8 (of_nat n :: u64))"

fun cbor_enc :: "cbor \<Rightarrow> bytes" where
  "cbor_enc (CUint n) = cbor_head 0 (unat n)"
| "cbor_enc (CNint n) = cbor_head 1 (unat n)"
| "cbor_enc (CBytes b) = cbor_head 2 (length b) @ b"
| "cbor_enc (CText b) = cbor_head 3 (length b) @ b"
| "cbor_enc (CArray xs) = cbor_head 4 (length xs) @ concat (map cbor_enc xs)"
| "cbor_enc (CMap kvs) = cbor_head 5 (length kvs) @ concat (map (\<lambda>(k, v). cbor_enc k @ cbor_enc v) kvs)"
| "cbor_enc (CSimple n) = cbor_head 7 n"

fun cbor_ok :: "cbor \<Rightarrow> bool" where
  "cbor_ok (CUint n) = True"
| "cbor_ok (CNint n) = True"
| "cbor_ok (CBytes b) = (length b < 2 ^ 64)"
| "cbor_ok (CText b) = (length b < 2 ^ 64)"
| "cbor_ok (CArray xs) = (length xs < 2 ^ 64 \<and> (\<forall>x \<in> set xs. cbor_ok x))"
| "cbor_ok (CMap kvs) = (length kvs < 2 ^ 64 \<and> (\<forall>(k, v) \<in> set kvs. cbor_ok k \<and> cbor_ok v))"
| "cbor_ok (CSimple n) = (n < 24)"

section \<open>Heads\<close>

definition read_head :: "bytes \<Rightarrow> (nat \<times> nat \<times> nat \<times> bytes) option" where
  "read_head b =
     (case b of
        [] \<Rightarrow> None
      | ib # r \<Rightarrow>
          (let major = unat ib div 32; ai = unat ib mod 32;
               n = (if ai = 24 then 1 else if ai = 25 then 2 else if ai = 26 then 4 else 8)
           in if ai < 24 then Some (major, ai, ai, r)
              else if 27 < ai then None
              else if length r < n then None
              else Some (major, ai, be_nat (take n r), drop n r)))"

lemma unat_ib: "m < 8 \<Longrightarrow> a < 32 \<Longrightarrow> unat (of_nat (m * 32 + a) :: byte) = m * 32 + a"
  by (rule unat_of_nat_less) simp

lemma ib_parts: "a < 32 \<Longrightarrow> (m * 32 + a) div 32 = m" "a < 32 \<Longrightarrow> (m * 32 + a) mod 32 = (a :: nat)"
  by simp_all

lemma be_nat_bytes: "n < 256 ^ k \<Longrightarrow> n < 2 ^ 64 \<Longrightarrow> be_nat (be_bytes k (of_nat n :: u64)) = n"
  using unat_of_nat_less [of n, where 'a = 64] by (simp add: be_nat_be_bytes)

lemma read_cbor_head:
  assumes "m < 8" and "n < 2 ^ 64"
  shows "\<exists>ai < 28. read_head (cbor_head m n @ r) = Some (m, ai, n, r) \<and> (n < 24 \<longrightarrow> ai = n) \<and> (24 \<le> n \<longrightarrow> 24 \<le> ai)"
proof -
  consider "n < 24" | "24 \<le> n" "n \<le> 0xff" | "0xff < n" "n \<le> 0xffff" | "0xffff < n" "n \<le> 0xffffffff" | "0xffffffff < n" by linarith
  then show ?thesis
  proof cases
    case 1
    then have "read_head (cbor_head m n @ r) = Some (m, n, n, r)"
      using assms(1) by (simp add: cbor_head_def read_head_def unat_ib ib_parts Let_def del: of_nat_add of_nat_mult)
    then show ?thesis using 1 by (intro exI [of _ n]) simp
  next
    case 2
    then have "be_nat (be_bytes 1 (of_nat n :: u64)) = n" using assms(2) by (intro be_nat_bytes) simp_all
    moreover have "be_bytes 1 (of_nat n :: u64) \<noteq> []" using length_be_bytes [of 1 "of_nat n"] by (metis length_0_conv zero_neq_one)
    ultimately have "read_head (cbor_head m n @ r) = Some (m, 24, n, r)"
      using assms(1) 2 by (simp add: cbor_head_def read_head_def unat_ib ib_parts Let_def del: of_nat_add of_nat_mult)
    then show ?thesis using 2 by (intro exI [of _ 24]) simp
  next
    case 3
    then have "be_nat (be_bytes 2 (of_nat n :: u64)) = n" using assms(2) by (intro be_nat_bytes) simp_all
    then have "read_head (cbor_head m n @ r) = Some (m, 25, n, r)"
      using assms(1) 3 by (simp add: cbor_head_def read_head_def unat_ib ib_parts Let_def del: of_nat_add of_nat_mult)
    then show ?thesis using 3 by (intro exI [of _ 25]) simp
  next
    case 4
    then have "be_nat (be_bytes 4 (of_nat n :: u64)) = n" using assms(2) by (intro be_nat_bytes) simp_all
    then have "read_head (cbor_head m n @ r) = Some (m, 26, n, r)"
      using assms(1) 4 by (simp add: cbor_head_def read_head_def unat_ib ib_parts Let_def del: of_nat_add of_nat_mult)
    then show ?thesis using 4 by (intro exI [of _ 26]) simp
  next
    case 5
    then have "be_nat (be_bytes 8 (of_nat n :: u64)) = n" using assms(2) by (intro be_nat_bytes) simp_all
    then have "read_head (cbor_head m n @ r) = Some (m, 27, n, r)"
      using assms(1) 5 by (simp add: cbor_head_def read_head_def unat_ib ib_parts Let_def del: of_nat_add of_nat_mult)
    then show ?thesis using 5 by (intro exI [of _ 27]) simp
  qed
qed

lemma cbor_head_first:
  "m < 8 \<Longrightarrow> \<exists>b r. cbor_head m n = b # r \<and> unat b div 32 = m"
  by (simp add: cbor_head_def unat_ib ib_parts del: of_nat_add of_nat_mult)

lemma length_cbor_head:
  "length (cbor_head m n) = (if n < 24 then 1 else if n \<le> 0xff then 2 else if n \<le> 0xffff then 3 else if n \<le> 0xffffffff then 5 else 9)"
  by (simp add: cbor_head_def)

section \<open>Reading an item\<close>

fun pairs :: "'a list \<Rightarrow> ('a \<times> 'a) list" where
  "pairs (k # v # r) = (k, v) # pairs r"
| "pairs _ = []"

fun cbor_parse :: "nat \<Rightarrow> bytes \<Rightarrow> (cbor \<times> bytes) option"
  and cbor_parses :: "nat \<Rightarrow> nat \<Rightarrow> bytes \<Rightarrow> (cbor list \<times> bytes) option" where
  "cbor_parse 0 b = None"
| "cbor_parse (Suc f) b =
     (case read_head b of
        None \<Rightarrow> None
      | Some (major, ai, n, r) \<Rightarrow>
          if major = 0 then Some (CUint (of_nat n), r)
          else if major = 1 then Some (CNint (of_nat n), r)
          else if major = 2 then (if length r < n then None else Some (CBytes (take n r), drop n r))
          else if major = 3 then (if length r < n then None else Some (CText (take n r), drop n r))
          else if major = 4 then (case cbor_parses f n r of None \<Rightarrow> None | Some (xs, r') \<Rightarrow> Some (CArray xs, r'))
          else if major = 5 then (case cbor_parses f (2 * n) r of None \<Rightarrow> None | Some (xs, r') \<Rightarrow> Some (CMap (pairs xs), r'))
          else if major = 7 \<and> ai < 24 then Some (CSimple ai, r)
          else None)"
| "cbor_parses 0 n b = None"
| "cbor_parses (Suc f) n b =
     (if n = 0 then Some ([], b)
      else case cbor_parse f b of
        None \<Rightarrow> None
      | Some (x, r) \<Rightarrow> (case cbor_parses f (n - 1) r of None \<Rightarrow> None | Some (xs, r') \<Rightarrow> Some (x # xs, r')))"

lemma cbor_enc_ne: "0 < length (cbor_enc x)"
  by (cases x) (simp_all add: length_cbor_head)

definition flat :: "('a \<times> 'a) list \<Rightarrow> 'a list" where
  "flat kvs = concat (map (\<lambda>(k, v). [k, v]) kvs)"

lemma pairs_flat: "pairs (flat kvs) = kvs" "length (flat kvs) = 2 * length kvs"
  by (induction kvs) (auto simp: flat_def)

lemma concat_flat: "concat (map (\<lambda>(k, v). cbor_enc k @ cbor_enc v) kvs) = concat (map cbor_enc (flat kvs))"
  by (induction kvs) (auto simp: flat_def)

lemma fuel_rest: "2 * (a + b) + 1 \<le> Suc g \<Longrightarrow> 0 < a \<Longrightarrow> 2 * b + 1 \<le> (g :: nat)"
  by simp

lemma parses_items:
  assumes "\<And>x f r. x \<in> set xs \<Longrightarrow> 2 * length (cbor_enc x) \<le> f \<Longrightarrow> cbor_parse f (cbor_enc x @ r) = Some (x, r)"
    and "2 * length (concat (map cbor_enc xs)) + 1 \<le> f"
  shows "cbor_parses f (length xs) (concat (map cbor_enc xs) @ r) = Some (xs, r)"
  using assms
proof (induction xs arbitrary: f)
  case Nil
  then show ?case by (cases f) simp_all
next
  case (Cons x xs)
  obtain g where f: "f = Suc g" using Cons.prems(2) by (cases f) auto
  have p: "0 < length (cbor_enc x)" by (rule cbor_enc_ne)
  have "cbor_parse g (cbor_enc x @ s) = Some (x, s)" for s using Cons.prems f by (intro Cons.prems(1)) auto
  moreover have "cbor_parses g (length xs) (concat (map cbor_enc xs) @ r) = Some (xs, r)"
  proof (rule Cons.IH)
    show "2 * length (concat (map cbor_enc xs)) + 1 \<le> g" using Cons.prems(2) p unfolding f list.map concat.simps length_append by (rule fuel_rest)
  qed (use Cons.prems(1) in simp)
  ultimately show ?case by (simp add: f)
qed

lemma parse_enc: "cbor_ok x \<Longrightarrow> 2 * length (cbor_enc x) \<le> f \<Longrightarrow> cbor_parse f (cbor_enc x @ r) = Some (x, r)"
proof (induction x arbitrary: f r)
  case (CUint n)
  then obtain g where f: "f = Suc g" by (cases f) (auto simp: length_cbor_head split: if_splits)
  show ?case using read_cbor_head [of 0 "unat n" r] unat_less_2p64 [of n] by (auto simp: f)
next
  case (CNint n)
  then obtain g where f: "f = Suc g" by (cases f) (auto simp: length_cbor_head split: if_splits)
  show ?case using read_cbor_head [of 1 "unat n" r] unat_less_2p64 [of n] by (auto simp: f)
next
  case (CBytes b)
  then obtain g where f: "f = Suc g" by (cases f) (auto simp: length_cbor_head split: if_splits)
  show ?case using read_cbor_head [of 2 "length b" "b @ r"] CBytes by (auto simp: f)
next
  case (CText b)
  then obtain g where f: "f = Suc g" by (cases f) (auto simp: length_cbor_head split: if_splits)
  show ?case using read_cbor_head [of 3 "length b" "b @ r"] CText by (auto simp: f)
next
  case (CArray xs)
  then obtain g where f: "f = Suc g" by (cases f) (auto simp: length_cbor_head split: if_splits)
  have "2 * length (concat (map cbor_enc xs)) + 1 \<le> g" using CArray.prems(2) by (auto simp: f length_cbor_head split: if_splits)
  then have "cbor_parses g (length xs) (concat (map cbor_enc xs) @ r) = Some (xs, r)"
    using CArray.IH CArray.prems(1) by (intro parses_items) auto
  then show ?case using read_cbor_head [of 4 "length xs" "concat (map cbor_enc xs) @ r"] CArray.prems(1) by (auto simp: f)
next
  case (CMap kvs)
  then obtain g where f: "f = Suc g" by (cases f) (auto simp: length_cbor_head split: if_splits)
  have "2 * length (concat (map cbor_enc (flat kvs))) + 1 \<le> g"
    using CMap.prems(2) by (auto simp: f concat_flat length_cbor_head split: if_splits)
  moreover have "cbor_parse h (cbor_enc x @ s) = Some (x, s)" if x: "x \<in> set (flat kvs)" and h: "2 * length (cbor_enc x) \<le> h" for x h s
  proof -
    obtain k v where kv: "(k, v) \<in> set kvs" "x = k \<or> x = v" using x by (auto simp: flat_def)
    then have "cbor_ok x" using CMap.prems(1) by auto
    then show ?thesis using CMap.IH(1) [OF kv(1)] CMap.IH(2) [OF kv(1)] kv(2) h by auto
  qed
  ultimately have "cbor_parses g (2 * length kvs) (concat (map cbor_enc (flat kvs)) @ r) = Some (flat kvs, r)"
    using parses_items [of "flat kvs" g r] by (simp add: pairs_flat(2))
  then show ?case using read_cbor_head [of 5 "length kvs" "concat (map cbor_enc (flat kvs)) @ r"] CMap.prems(1)
    by (auto simp: f concat_flat pairs_flat(1))
next
  case (CSimple n)
  then obtain g where f: "f = Suc g" by (cases f) (auto simp: length_cbor_head split: if_splits)
  show ?case using read_cbor_head [of 7 n r] CSimple by (auto simp: f)
qed

text \<open>The item a byte string is, when it is exactly one.\<close>

definition cbor_item :: "bytes \<Rightarrow> cbor option" where
  "cbor_item b =
     (case cbor_parse (2 * length b) b of
        Some (x, []) \<Rightarrow> if cbor_ok x \<and> cbor_enc x = b then Some x else None
      | _ \<Rightarrow> None)"

lemma cbor_item_iff: "cbor_item b = Some x \<longleftrightarrow> cbor_ok x \<and> cbor_enc x = b"
proof
  assume "cbor_item b = Some x"
  then show "cbor_ok x \<and> cbor_enc x = b" by (auto simp: cbor_item_def split: option.splits prod.splits list.splits if_splits)
next
  assume a: "cbor_ok x \<and> cbor_enc x = b"
  then have "cbor_parse (2 * length b) b = Some (x, [])" using parse_enc [of x "2 * length b" "[]"] by simp
  then show "cbor_item b = Some x" using a by (simp add: cbor_item_def)
qed

end
