(* ===== verification/Cbor_Coredet.thy ===== *)
theory Cbor_Coredet
  imports Cbor Seal_Fields
begin

text \<open>
  A CoreDet on which the laws of \<^const>\<open>coredet_ok\<close> hold: the coders of the items of \<open>Cbor\<close>. It is what the
  properties over a CoreDet are applied to on concrete values.
\<close>

definition cbor_entry :: "u64 \<times> bytes \<Rightarrow> cbor \<times> cbor" where
  "cbor_entry p = (CUint (fst p), the (cbor_item (snd p)))"

definition entry_of :: "cbor \<times> cbor \<Rightarrow> (u64 \<times> bytes) option" where
  "entry_of p = (case fst p of CUint k \<Rightarrow> Some (k, cbor_enc (snd p)) | _ \<Rightarrow> None)"

definition checked :: "cbor \<Rightarrow> bytes option" where
  "checked x = (if cbor_ok x then Some (cbor_enc x) else None)"

definition text_of :: "bytes \<Rightarrow> string" where
  "text_of b = map (\<lambda>x. char_of (unat x)) b"

fun cbor_depth :: "cbor \<Rightarrow> nat" where
  "cbor_depth (CArray xs) = Suc (foldr max (map cbor_depth xs) 0)"
| "cbor_depth (CMap kvs) = Suc (foldr max (map (\<lambda>(k, v). max (cbor_depth k) (cbor_depth v)) kvs) 0)"
| "cbor_depth x = 0"

definition cbor_coredet :: coredet where
  "cbor_coredet = \<lparr>
     enc_map = (\<lambda>m. if list_all (\<lambda>p. cbor_item (snd p) \<noteq> None) m then checked (CMap (map cbor_entry m)) else None),
     dec_map = (\<lambda>b. case cbor_item b of
        Some (CMap kvs) \<Rightarrow>
          if list_all (\<lambda>p. entry_of p \<noteq> None) kvs \<and> fm_ok (map (\<lambda>p. the (entry_of p)) kvs)
          then Some (map (\<lambda>p. the (entry_of p)) kvs) else None
      | _ \<Rightarrow> None),
     enc_uint = (\<lambda>n. checked (CUint n)),
     dec_uint = (\<lambda>b. case cbor_item b of Some (CUint n) \<Rightarrow> Some n | _ \<Rightarrow> None),
     enc_text = (\<lambda>s. if ValidString s then checked (CText (ascii s)) else None),
     dec_text = (\<lambda>b. case cbor_item b of Some (CText s) \<Rightarrow> Some (text_of s) | _ \<Rightarrow> None),
     enc_bstr = (\<lambda>b. checked (CBytes b)),
     dec_bstr = (\<lambda>b. case cbor_item b of Some (CBytes s) \<Rightarrow> Some s | _ \<Rightarrow> None),
     enc_list = (\<lambda>bs. if list_all (\<lambda>b. cbor_item b \<noteq> None) bs then checked (CArray (map (\<lambda>b. the (cbor_item b)) bs)) else None),
     dec_list = (\<lambda>b. case cbor_item b of Some (CArray xs) \<Rightarrow> Some (map cbor_enc xs) | _ \<Rightarrow> None),
     item_ok = (\<lambda>b. cbor_item b \<noteq> None),
     item_depth = (\<lambda>b. case cbor_item b of None \<Rightarrow> 0 | Some x \<Rightarrow> cbor_depth x)\<rparr>"

lemma checked_item: "checked x = Some b \<longleftrightarrow> cbor_ok x \<and> b = cbor_enc x"
  by (auto simp: checked_def)

lemma item_enc [simp]: "cbor_ok x \<Longrightarrow> cbor_item (cbor_enc x) = Some x"
  by (simp add: cbor_item_iff)

lemma text_of_ascii: "text_of (ascii s) = s"
proof -
  have "unat (of_char c :: byte) = of_char c" for c
  proof -
    have "(of_char c :: nat) < 2 ^ LENGTH(8)" by simp
    moreover have "(of_char c :: byte) = of_nat (of_char c)" by (simp add: of_nat_of_char)
    ultimately show ?thesis by (simp only: unat_of_nat take_bit_nat_eq_self mod_less)
  qed
  then show ?thesis by (simp add: text_of_def ascii_def o_def)
qed

lemma in_memory_64: "in_memory xs \<Longrightarrow> length xs < 18446744073709551616"
  by (simp add: in_memory_def MaxInt_def)

lemma head_major: "m < 8 \<Longrightarrow> has_major (cbor_head m n @ b) m"
proof -
  assume "m < 8"
  then obtain c r where c: "cbor_head m n = c # r" "unat c div 32 = m" using cbor_head_first [of m n] by auto
  then have "unat (drop_bit 5 c) = m" by (simp only: unat_drop_bit_eq) (simp add: drop_bit_eq_div)
  then show ?thesis using c by (simp add: has_major_def)
qed

lemma head_len: "length (cbor_head m n) = cborHeadLen n"
  by (simp add: length_cbor_head cborHeadLen_def)

lemma enc_major:
  "has_major (cbor_enc (CUint n)) majorUint" "has_major (cbor_enc (CBytes b)) majorBytes" "has_major (cbor_enc (CText b)) majorText"
  "has_major (cbor_enc (CArray xs)) majorArray" "has_major (cbor_enc (CMap kvs)) majorMap"
  using head_major [of 0 _ "[]"] head_major [of 2] head_major [of 3] head_major [of 4] head_major [of 5]
  by (simp_all add: majorUint_def majorBytes_def majorText_def majorArray_def majorMap_def)

lemma cbor_uint_law:
  "enc_uint cbor_coredet x = Some (cbor_enc (CUint x)) \<and> has_major (cbor_enc (CUint x)) majorUint
     \<and> dec_uint cbor_coredet (cbor_enc (CUint x)) = Some x \<and> item_ok cbor_coredet (cbor_enc (CUint x))
     \<and> length (cbor_enc (CUint x)) = cborHeadLen (unat x)"
  using enc_major(1) item_enc [of "CUint x"] by (simp add: cbor_coredet_def checked_def head_len)

lemma cbor_text_law:
  assumes "enc_text cbor_coredet x = Some b"
  shows "has_major b majorText \<and> dec_text cbor_coredet b = Some x \<and> item_ok cbor_coredet b \<and> length b = cborHeadLen (length x) + length x"
proof -
  have "cbor_ok (CText (ascii x))" "b = cbor_enc (CText (ascii x))"
    using assms by (auto simp: cbor_coredet_def checked_item split: if_splits)
  then show ?thesis using enc_major(3) [of "ascii x"] item_enc [of "CText (ascii x)"]
    by (simp add: cbor_coredet_def text_of_ascii head_len)
qed

lemma cbor_bstr_law:
  assumes "enc_bstr cbor_coredet x = Some b"
  shows "has_major b majorBytes \<and> dec_bstr cbor_coredet b = Some x \<and> item_ok cbor_coredet b \<and> length b = cborHeadLen (length x) + length x"
proof -
  have "cbor_ok (CBytes x)" "b = cbor_enc (CBytes x)" using assms by (auto simp: cbor_coredet_def checked_item)
  then show ?thesis using enc_major(2) [of x] item_enc [of "CBytes x"] by (simp add: cbor_coredet_def head_len)
qed

lemma items_back: "\<forall>b \<in> set bs. cbor_item b \<noteq> None \<Longrightarrow> map (\<lambda>b. cbor_enc (the (cbor_item b))) bs = bs"
  by (induction bs) (auto simp: cbor_item_iff)

lemma cbor_list_law:
  assumes "list_all (item_ok cbor_coredet) xs" and "enc_list cbor_coredet xs = Some b"
  shows "has_major b majorArray \<and> dec_list cbor_coredet b = Some xs \<and> item_ok cbor_coredet b
    \<and> length b = cborHeadLen (length xs) + sum_list (map length xs)"
proof -
  let ?a = "CArray (map (\<lambda>b. the (cbor_item b)) xs)"
  have a: "cbor_ok ?a" "b = cbor_enc ?a" using assms(2) by (auto simp: cbor_coredet_def checked_item split: if_splits)
  have "\<forall>x \<in> set xs. cbor_item x \<noteq> None" using assms(1) by (simp add: cbor_coredet_def list_all_iff)
  note same = items_back [OF this]
  have "length (concat (map cbor_enc (map (\<lambda>b. the (cbor_item b)) xs))) = sum_list (map length xs)"
    using arg_cong [OF same, of "\<lambda>x. length (concat x)"] by (simp add: o_def length_concat)
  moreover have "dec_list cbor_coredet b = Some xs" using a item_enc [OF a(1)] same by (simp add: cbor_coredet_def o_def)
  ultimately show ?thesis using a item_enc [OF a(1)] enc_major(4) [of "map (\<lambda>b. the (cbor_item b)) xs"]
    by (simp add: cbor_coredet_def head_len)
qed

lemma cbor_entries:
  assumes "\<forall>p \<in> set m. cbor_item (snd p) \<noteq> None"
  shows "map (\<lambda>p. the (entry_of (cbor_entry p))) m = m"
    and "\<forall>p \<in> set m. entry_of (cbor_entry p) \<noteq> None \<and> cbor_ok (fst (cbor_entry p)) \<and> cbor_ok (snd (cbor_entry p))"
    and "length (concat (map (\<lambda>(k, v). cbor_enc k @ cbor_enc v) (map cbor_entry m)))
      = sum_list (map (\<lambda>(k, v). cborHeadLen (unat k) + length v) m)"
proof -
  have e: "cbor_ok (snd (cbor_entry p)) \<and> cbor_enc (snd (cbor_entry p)) = snd p \<and> fst (cbor_entry p) = CUint (fst p)" if "p \<in> set m" for p
  proof -
    obtain y where "cbor_item (snd p) = Some y" using assms \<open>p \<in> set m\<close> by auto
    moreover from this have "cbor_ok y \<and> cbor_enc y = snd p" by (rule cbor_item_iff [THEN iffD1])
    ultimately show ?thesis by (simp add: cbor_entry_def)
  qed
  show "map (\<lambda>p. the (entry_of (cbor_entry p))) m = m" by (rule map_idI) (use e in \<open>simp add: entry_of_def\<close>)
  show "\<forall>p \<in> set m. entry_of (cbor_entry p) \<noteq> None \<and> cbor_ok (fst (cbor_entry p)) \<and> cbor_ok (snd (cbor_entry p))"
    using e by (simp add: entry_of_def)
  have "map (\<lambda>p. length (cbor_enc (fst (cbor_entry p)) @ cbor_enc (snd (cbor_entry p)))) m
      = map (\<lambda>p. cborHeadLen (unat (fst p)) + length (snd p)) m"
    by (rule map_cong) (use e in \<open>auto simp: head_len\<close>)
  from arg_cong [OF this, of sum_list]
  show "length (concat (map (\<lambda>(k, v). cbor_enc k @ cbor_enc v) (map cbor_entry m)))
      = sum_list (map (\<lambda>(k, v). cborHeadLen (unat k) + length v) m)"
    by (simp only: length_concat map_map o_def case_prod_beta')
qed

lemma cbor_map_law:
  assumes "fm_items cbor_coredet m" and "enc_map cbor_coredet m = Some b"
  shows "has_major b majorMap \<and> dec_map cbor_coredet b = Some m \<and> item_ok cbor_coredet b \<and> length b = encodedLen m"
proof -
  have ok: "\<forall>p \<in> set m. cbor_item (snd p) \<noteq> None" using assms(1) by (simp add: fm_items_def cbor_coredet_def list_all_iff)
  have a: "cbor_ok (CMap (map cbor_entry m))" "b = cbor_enc (CMap (map cbor_entry m))"
    using assms(2) by (auto simp: cbor_coredet_def checked_item simp del: cbor_enc.simps cbor_ok.simps split: if_splits)
  have "dec_map cbor_coredet b = Some m"
    using item_enc [OF a(1)] cbor_entries(1,2) [OF ok] assms(1) unfolding a(2)
    by (simp add: cbor_coredet_def fm_items_def list_all_iff o_def del: cbor_enc.simps)
  moreover have "item_ok cbor_coredet b" using item_enc [OF a(1)] a(2) by (simp add: cbor_coredet_def del: cbor_enc.simps)
  moreover have "length b = encodedLen m" using a(2) cbor_entries(3) [OF ok] by (simp add: head_len encodedLen_def)
  ultimately show ?thesis using enc_major(5) [of "map cbor_entry m"] a(2) by (simp del: cbor_enc.simps)
qed

lemma cbor_map_total:
  assumes "list_all (\<lambda>p. fits cbor_coredet (snd p)) m" and "length m \<le> max_entries"
  shows "enc_map cbor_coredet m \<noteq> None"
proof -
  have ok: "\<forall>p \<in> set m. cbor_item (snd p) \<noteq> None" using assms(1) by (simp add: fits_def cbor_coredet_def list_all_iff)
  then have "cbor_ok (CMap (map cbor_entry m))"
    using cbor_entries(2) [OF ok] assms(2) by (auto simp: case_prod_beta max_entries_def)
  then show ?thesis using ok by (simp add: cbor_coredet_def list_all_iff checked_def del: cbor_ok.simps cbor_enc.simps)
qed

lemma cbor_map_decoded:
  assumes "dec_map cbor_coredet b = Some m"
  shows "fm_items cbor_coredet m"
proof -
  obtain kvs where kvs: "cbor_item b = Some (CMap kvs)" "\<forall>p \<in> set kvs. entry_of p \<noteq> None" "fm_ok m" "m = map (\<lambda>p. the (entry_of p)) kvs"
    using assms by (auto simp: cbor_coredet_def list_all_iff split: option.splits cbor.splits if_splits)
  have "cbor_item (snd (the (entry_of p))) \<noteq> None" if "p \<in> set kvs" for p
  proof -
    have "cbor_ok (CMap kvs)" using kvs(1) cbor_item_iff by blast
    then have "cbor_ok (snd p)" using that by auto
    moreover have "snd (the (entry_of p)) = cbor_enc (snd p)" using kvs(2) that by (auto simp: entry_of_def split: cbor.splits)
    ultimately show ?thesis by simp
  qed
  then show ?thesis using kvs(3,4) by (auto simp: fm_items_def list_all_iff cbor_coredet_def)
qed

lemma depth_max: "foldr max xs 0 \<le> n \<longleftrightarrow> (\<forall>x \<in> set xs. x \<le> n)" for n :: nat
  by (induction xs) auto

lemma cbor_depth_list:
  assumes "list_all (item_ok cbor_coredet) xs" and "enc_list cbor_coredet xs = Some b" and "list_all (\<lambda>x. item_depth cbor_coredet x \<le> n) xs"
  shows "item_depth cbor_coredet b \<le> Suc n"
proof -
  let ?a = "CArray (map (\<lambda>b. the (cbor_item b)) xs)"
  have a: "cbor_ok ?a" "b = cbor_enc ?a" using assms(2) by (auto simp: cbor_coredet_def checked_item split: if_splits)
  have "\<forall>x \<in> set xs. cbor_depth (the (cbor_item x)) \<le> n"
    using assms(1,3) by (fastforce simp: cbor_coredet_def list_all_iff split: option.splits)
  then have "cbor_depth ?a \<le> Suc n" by (simp add: depth_max)
  then show ?thesis using item_enc [OF a(1)] a(2) by (simp add: cbor_coredet_def del: cbor_enc.simps cbor_depth.simps)
qed

lemma cbor_depth_map:
  assumes "fm_items cbor_coredet m" and "enc_map cbor_coredet m = Some b" and "list_all (\<lambda>p. item_depth cbor_coredet (snd p) \<le> n) m"
  shows "item_depth cbor_coredet b \<le> Suc n"
proof -
  have a: "cbor_ok (CMap (map cbor_entry m))" "b = cbor_enc (CMap (map cbor_entry m))"
    using assms(2) by (auto simp: cbor_coredet_def checked_item simp del: cbor_enc.simps cbor_ok.simps split: if_splits)
  have "\<forall>p \<in> set m. cbor_depth (the (cbor_item (snd p))) \<le> n"
    using assms(1,3) by (fastforce simp: fm_items_def cbor_coredet_def list_all_iff split: option.splits)
  then have "cbor_depth (CMap (map cbor_entry m)) \<le> Suc n" by (simp add: depth_max cbor_entry_def case_prod_beta)
  then show ?thesis using item_enc [OF a(1)] a(2) by (simp add: cbor_coredet_def del: cbor_enc.simps cbor_depth.simps)
qed

lemma cbor_flat:
  assumes "item_ok cbor_coredet b" and "\<not> has_major b majorArray" and "\<not> has_major b majorMap"
  shows "item_depth cbor_coredet b = 0"
proof -
  obtain x where x: "cbor_item b = Some x" using assms(1) by (auto simp: cbor_coredet_def)
  then have "b = cbor_enc x" by (simp add: cbor_item_iff)
  then have "cbor_depth x = 0" using assms(2,3) enc_major(4,5) by (cases x) (auto simp del: cbor_enc.simps)
  then show ?thesis by (simp add: cbor_coredet_def x)
qed

lemma cbor_consts: "item_ok cbor_coredet cborNull" "item_ok cbor_coredet [0x40]" "\<not> item_ok cbor_coredet []"
proof -
  have "cbor_enc (CSimple 22) = cborNull" by (simp add: cbor_head_def cborNull_def)
  then have "cbor_item cborNull = Some (CSimple 22)" by (simp add: cbor_item_iff)
  then show "item_ok cbor_coredet cborNull" by (simp add: cbor_coredet_def)
  have "cbor_enc (CBytes []) = [0x40]" by (simp add: cbor_head_def)
  then have "cbor_item [0x40] = Some (CBytes [])" by (simp add: cbor_item_iff)
  then show "item_ok cbor_coredet [0x40]" by (simp add: cbor_coredet_def)
  show "\<not> item_ok cbor_coredet []" by (simp add: cbor_coredet_def cbor_item_def)
qed

lemma cbor_coredet_ok: "coredet_ok cbor_coredet"
  unfolding coredet_ok_def
proof (intro conjI)
  show "scalar_laws cbor_coredet" unfolding scalar_laws_def
  proof (intro conjI allI impI)
    show "\<exists>b. enc_uint cbor_coredet x = Some b \<and> has_major b majorUint \<and> dec_uint cbor_coredet b = Some x \<and> item_ok cbor_coredet b
        \<and> length b = cborHeadLen (unat x)" for x
      using cbor_uint_law by blast
    show "enc_text cbor_coredet x \<noteq> None" if "ValidString x \<and> in_memory x" for x
      using that in_memory_64 [of x] by (simp add: cbor_coredet_def checked_def)
    show "enc_bstr cbor_coredet x \<noteq> None" if "in_memory x" for x
      using in_memory_64 [OF that] by (simp add: cbor_coredet_def checked_def)
  qed (use cbor_text_law cbor_bstr_law in blast)+
  show "list_laws cbor_coredet" unfolding list_laws_def
  proof (intro conjI allI impI)
    show "enc_list cbor_coredet xs \<noteq> None" if "list_all (fits cbor_coredet) xs \<and> length xs \<le> max_entries" for xs
      using that by (auto simp: fits_def max_entries_def cbor_coredet_def checked_def list_all_iff cbor_item_iff)
  qed (use cbor_list_law in blast)+
  show "map_laws cbor_coredet" unfolding map_laws_def using cbor_map_law cbor_map_total cbor_map_decoded by blast
  show "item_laws cbor_coredet" unfolding item_laws_def
    using cbor_depth_list cbor_depth_map cbor_flat cbor_consts by (intro conjI allI impI) blast+
qed

end
