(* ===== verification/Seal_Keys_Props.thy ===== *)
theory Seal_Keys_Props
  imports Seal_Keys Cbor_Coredet
begin

text \<open>
  What the published keys promise: a key set its owner signs verifies for every reader that holds the owner's log, and the key a
  sender picks from it.
\<close>

section \<open>A verified key set\<close>

definition key_codec_ok :: "coredet \<Rightarrow> key_codec \<Rightarrow> bool" where
  "key_codec_ok D K \<longleftrightarrow>
     (\<forall>s b. enc_set K s = Some b \<longrightarrow> dec_set K b = Some s
        \<and> (\<exists>m t. decodeFields D b = Some m \<and> map fst m = [0, 1, 2, 3, 4, 5] \<and> map_of m 0 = Some t \<and> dec_text D t = Some (ks_type s)))
   \<and> (\<forall>s b. enc_signed_set K s = Some b \<longrightarrow> dec_signed_set K b = Some s
        \<and> (\<exists>m. decodeFields D b = Some m \<and> map fst m = [1, 2, 3]))"

lemma has_keys: "fm_has m k \<longleftrightarrow> k \<in> set (map fst m)"
  by (auto simp: fm_has_def map_of_eq_None_iff)

lemma decode_own_set:
  assumes "key_codec_ok D K" and "enc_set K s = Some b" and "ks_type s = EncKeySetType"
  shows "decodeEncKeySet D K b = Inr s"
proof -
  obtain m t where m: "decodeFields D b = Some m" "map fst m = [0, 1, 2, 3, 4, 5]" "map_of m 0 = Some t" "dec_text D t = Some (ks_type s)"
    and d: "dec_set K b = Some s"
    using assms(1) [unfolded key_codec_ok_def, THEN conjunct1, rule_format, OF assms(2)] by (elim conjE exE) (rule that)
  have "firstUnknownKey m 6 = None" by (simp add: firstUnknownKey_def m(2) word_le_nat_alt)
  moreover have "\<not> list_ex (\<lambda>n. \<not> fm_has m n) [0, 1, 2, 3, 4, 5]" unfolding has_keys m(2) by simp
  ultimately show ?thesis using m d assms(2,3) by (simp add: decodeEncKeySet_def)
qed

lemma unmarshal_own_set:
  assumes "key_codec_ok D K" and "enc_signed_set K s = Some b"
  shows "UnmarshalSignedEncKeySet D K b = Inr s"
proof -
  obtain m where m: "decodeFields D b = Some m" "map fst m = [1, 2, 3]" and d: "dec_signed_set K b = Some s"
    using assms(1) [unfolded key_codec_ok_def, THEN conjunct2, rule_format, OF assms(2)] by (elim conjE exE) (rule that)
  have "\<not> list_ex (\<lambda>n. \<not> fm_has m n) [1, 2, 3]" unfolding has_keys m(2) by simp
  then show ?thesis using m d by (simp add: UnmarshalSignedEncKeySet_def)
qed

text \<open>A signature that verifies at time 0 is by the state in force: the last one, and the identity is not deactivated.\<close>

lemma current_state:
  assumes "VerifyObject C kel aid seq 0 pre sig = Inr ()"
  obtains states where "replay C kel = Inr states" "states \<noteq> []" "ks_aid (last states) = aid" "unat seq < length states"
    "ks_status (states ! unat seq) = StatusActive" "ks_status (last states) \<noteq> StatusDeactivated" "unat seq = length states - 1"
proof -
  obtain states where r: "replay C kel = Inr states" using assms by (auto simp: VerifyObject_def split: sum.splits)
  then have a: "ks_aid (last states) = aid" "unat seq < length states" "ks_status (states ! unat seq) = StatusActive"
    using assms by (auto simp: VerifyObject_def Let_def split: if_splits)
  have st: "states = map (state_of kel) [0..<length kel]" using r by (simp add: replay_iff)
  have "unat seq < length kel" using a(2) st by simp
  then have "Suc (unat seq) = length kel" using a(3) by (auto simp: st state_of_def own_state_def split: if_splits)
  then have n: "length states = Suc (unat seq)" using st by simp
  then have ne: "states \<noteq> []" by auto
  have l: "states \<noteq> []" "last states = states ! unat seq" "unat seq = length states - 1"
    using n last_conv_nth [OF ne] ne by simp_all
  show ?thesis using that [OF r l(1) a(1,2,3) _ l(3)] a(3) l(2) by simp
qed

lemma set_verifies:
  assumes "key_codec_ok D K" and "honest_signer C sg" and "checkStructure C s = Inr ()" and "ks_owner s = sg_aid sg"
    and "enc_set K s = Some b" and "sg_sign sg b = (Some sig, seq)"
  shows "VerifyEncKeySet C D K (Some \<lparr>sk_set = b, sk_key_state_seq = seq, sk_sig = sig\<rparr>) (sg_aid sg) (sg_kel sg) now
    = (if checkValidAt s now = Inr () then Inr s else fail BadKeySet)"
proof -
  have v: "VerifyObject C (sg_kel sg) (sg_aid sg) seq t b sig = Inr ()" "length sig = 64" for t
    using assms(2,6) unfolding honest_signer_def by (metis prod.inject option.inject)+
  obtain states where st: "replay C (sg_kel sg) = Inr states" "ks_aid (last states) = sg_aid sg" "unat seq < length states"
      "ks_status (states ! unat seq) = StatusActive" "ks_status (last states) \<noteq> StatusDeactivated"
    using current_state [OF v(1) [of 0]] by metis
  have "ks_type s = EncKeySetType" using assms(3) by (auto simp: checkStructure_def split: if_splits)
  then have "decodeEncKeySet D K b = Inr s" using decode_own_set assms(1,5) by blast
  then show ?thesis using st v assms(3,4) by (simp add: VerifyEncKeySet_def SigLen_def checkValidAt_def)
qed

text \<open>C39: publishing keys. A well-formed set signed by a signer whose signatures its own log verifies, in particular by a
  controller, is written, read back as it was, and accepted by every reader that holds the signer's log, at every time at
  which one of its keys is usable within the clock skew, and at no other.\<close>

theorem published_set_verifies:
  assumes "key_codec_ok D K" and "honest_signer C sg" and "checkStructure C s = Inr ()" and "checkValidAt s (ks_issued_at s) = Inr ()"
    and "ks_owner s = sg_aid sg" and "enc_set K s = Some b"
  shows "\<exists>sks. SignEncKeySet C K (Some s) (Some (sg_sign sg)) = Inr sks \<and> sk_set sks = b
    \<and> (\<forall>w. enc_signed_set K sks = Some w \<longrightarrow> UnmarshalSignedEncKeySet D K w = Inr sks)
    \<and> (\<forall>now. VerifyEncKeySet C D K (Some sks) (sg_aid sg) (sg_kel sg) now = (if checkValidAt s now = Inr () then Inr s else fail BadKeySet))"
proof -
  obtain sig seq where s: "sg_sign sg b = (Some sig, seq)" "length sig = 64" using assms(2) unfolding honest_signer_def by metis
  let ?sks = "\<lparr>sk_set = b, sk_key_state_seq = seq, sk_sig = sig\<rparr>"
  have "SignEncKeySet C K (Some s) (Some (sg_sign sg)) = Inr ?sks"
    using assms(3,4,6) s by (simp add: SignEncKeySet_def SigLen_def)
  then show ?thesis using unmarshal_own_set [OF assms(1)] set_verifies [OF assms(1,2,3,5,6) s(1)] by auto
qed

text \<open>An example: a set with one key.\<close>

definition demo_enc_key :: enc_key where
  "demo_enc_key = NewEncKey demo_crypto SuiteX25519 (demo_key 40) 1000 86401000"

definition demo_set :: enc_key_set where
  "demo_set = \<lparr>ks_type = EncKeySetType, ks_owner = se_id demo_icp, ks_set_seq = 7, ks_enc_keys = [demo_enc_key], ks_issued_at = 1000,
     ks_mbox = \<lparr>mb_epoch = 1, mb_pub = demo_key 11\<rparr>\<rparr>"

definition demo_set_map :: "bytes \<Rightarrow> field_map" where
  "demo_set_map t = [(0, t), (1, cborNull), (2, cborNull), (3, cborNull), (4, cborNull), (5, cborNull)]"

lemma demo_set_check: "checkStructure demo_crypto demo_set = Inr ()" "checkValidAt demo_set 1000 = Inr ()" "ks_issued_at demo_set = 1000"
proof -
  have "ValidAID (se_id demo_icp)" by (simp add: demo_icp_def demo_sign_def demo_cid_valid)
  then have a: "length (se_id demo_icp) = aidLen" by (auto simp: ValidAID_def split: if_splits)
  have "enc_key_check demo_crypto demo_enc_key"
    by (simp add: enc_key_check_def demo_enc_key_def NewEncKey_def SuiteX25519_def params_def suite1_def KID_def KIDLen_def
        kidLabel_def ascii_def limit_defs)
  moreover have "se_id demo_icp \<noteq> []" using a by (auto simp: aidLen_def)
  ultimately show "checkStructure demo_crypto demo_set = Inr ()"
    using demo_key_order [of 11] by (simp add: checkStructure_def demo_set_def MaxKeysPerSet_def)
  show "checkValidAt demo_set 1000 = Inr ()"
    by (simp add: checkValidAt_def demo_set_def usable_at_def demo_enc_key_def NewEncKey_def satAdd_def limit_defs)
qed (simp add: demo_set_def)

text \<open>Its coders: one set and one signed set, each as a map with the keys of its type.\<close>

definition demo_map :: "u64 list \<Rightarrow> bytes \<Rightarrow> field_map" where
  "demo_map ks t = (case ks of [] \<Rightarrow> [] | k # r \<Rightarrow> (k, t) # map (\<lambda>i. (i, cborNull)) r)"

definition demo_signed_set :: signed_key_set where
  "demo_signed_set =
     (let b = the (enc_map cbor_coredet (demo_map [0, 1, 2, 3, 4, 5] (the (enc_text cbor_coredet EncKeySetType)))) in
      \<lparr>sk_set = b, sk_key_state_seq = snd (sg_sign demo_signer b), sk_sig = the (fst (sg_sign demo_signer b))\<rparr>)"

definition demo_key_codec :: key_codec where
  "demo_key_codec =
     (let w = the (enc_map cbor_coredet (demo_map [1, 2, 3] cborNull)) in
      \<lparr>enc_set = (\<lambda>s. if s = demo_set then Some (sk_set demo_signed_set) else None),
       dec_set = (\<lambda>b. if b = sk_set demo_signed_set then Some demo_set else None),
       enc_signed_set = (\<lambda>s. if s = demo_signed_set then Some w else None),
       dec_signed_set = (\<lambda>b. if b = w then Some demo_signed_set else None)\<rparr>)"

lemma demo_fields:
  assumes "sorted_wrt (<) ks" and "fits cbor_coredet t" and "length ks < 100"
  shows "decodeFields cbor_coredet (the (enc_map cbor_coredet (demo_map ks t))) = Some (demo_map ks t)"
    and "map fst (demo_map ks t) = ks"
proof -
  show f: "map fst (demo_map ks t) = ks" by (cases ks) (simp_all add: demo_map_def o_def)
  have l: "length (demo_map ks t) = length ks" by (cases ks) (simp_all add: demo_map_def)
  have o: "fm_ok (demo_map ks t)" using assms(1) unfolding fm_ok_def f .
  have i: "list_all (\<lambda>p. fits cbor_coredet (snd p)) (demo_map ks t)"
    using assms(2) flat_fits(4) [OF cbor_coredet_ok] by (cases ks) (auto simp: demo_map_def list_all_iff)
  have "length (demo_map ks t) \<le> max_entries" using assms(3) l by (simp add: max_entries_def)
  then obtain b where b: "enc_map cbor_coredet (demo_map ks t) = Some b" using encodes(4) [OF cbor_coredet_ok o i] by blast
  show "decodeFields cbor_coredet (the (enc_map cbor_coredet (demo_map ks t))) = Some (demo_map ks t)"
    using b enc_mapD [OF cbor_coredet_ok fits_items [OF o i] b] by (simp add: decodeFields_def)
qed

lemma demo_text: "\<exists>b. enc_text cbor_coredet EncKeySetType = Some b \<and> fits cbor_coredet b \<and> dec_text cbor_coredet b = Some EncKeySetType"
proof -
  have "ValidString EncKeySetType" by (rule ValidString_ascii) (simp add: EncKeySetType_def)
  then obtain b where b: "enc_text cbor_coredet EncKeySetType = Some b"
    using encodes(1) [OF cbor_coredet_ok, of EncKeySetType] by (auto simp: in_memory_def EncKeySetType_def MaxInt_def)
  then show ?thesis using enc_textD(2) [OF cbor_coredet_ok b] flat_fits(2) [OF cbor_coredet_ok b] by blast
qed

lemma demo_key_codec_ok: "key_codec_ok cbor_coredet demo_key_codec"
proof -
  obtain t where t: "enc_text cbor_coredet EncKeySetType = Some t" "fits cbor_coredet t" "dec_text cbor_coredet t = Some EncKeySetType"
    using demo_text by blast
  have s: "sorted_wrt (<) [0, 1, 2, 3, 4, 5 :: u64]" "sorted_wrt (<) [1, 2, 3 :: u64]" by (simp_all add: word_less_nat_alt)
  have b: "sk_set demo_signed_set = the (enc_map cbor_coredet (demo_map [0, 1, 2, 3, 4, 5] t))"
    by (simp add: demo_signed_set_def Let_def t(1))
  have "decodeFields cbor_coredet (sk_set demo_signed_set) = Some (demo_map [0, 1, 2, 3, 4, 5] t)"
    "map fst (demo_map [0, 1, 2, 3, 4, 5] t) = [0, 1, 2, 3, 4, 5]"
    unfolding b using demo_fields [OF s(1) t(2)] by simp_all
  moreover have "map_of (demo_map [0, 1, 2, 3, 4, 5] t) 0 = Some t" by (simp add: demo_map_def)
  moreover have "ks_type demo_set = EncKeySetType" by (simp add: demo_set_def)
  moreover have "decodeFields cbor_coredet (the (enc_map cbor_coredet (demo_map [1, 2, 3] cborNull))) = Some (demo_map [1, 2, 3] cborNull)"
    "map fst (demo_map [1, 2, 3] cborNull) = [1, 2, 3]"
    using demo_fields [OF s(2) flat_fits(4) [OF cbor_coredet_ok]] by simp_all
  ultimately show ?thesis using t(3) unfolding key_codec_ok_def by (auto simp: demo_key_codec_def Let_def)
qed

theorem published_set_verifies_witness:
  "\<exists>sks. VerifyEncKeySet demo_crypto cbor_coredet demo_key_codec (Some sks) (se_id demo_icp) [demo_icp] 2000 = Inr demo_set"
proof -
  have o: "ks_owner demo_set = sg_aid demo_signer" by (simp add: demo_set_def)
  have e: "enc_set demo_key_codec demo_set = Some (sk_set demo_signed_set)" by (simp add: demo_key_codec_def Let_def)
  have "checkValidAt demo_set 2000 = Inr ()"
    by (simp add: checkValidAt_def demo_set_def usable_at_def demo_enc_key_def NewEncKey_def satAdd_def limit_defs)
  then show ?thesis
    using published_set_verifies [OF demo_key_codec_ok demo_honest demo_set_check(1) demo_set_check(2) [folded demo_set_check(3)] o e]
      demo_signer_simps by metis
qed

section \<open>The key a sender picks\<close>

lemma latest_valid_spec:
  "latest_valid now best ks = Some k \<Longrightarrow>
     (best = Some k \<or> (k \<in> set ks \<and> Supported (k_suite k) \<and> ValidAt k now))
     \<and> (\<forall>b. best = Some b \<longrightarrow> k_not_before b \<le> k_not_before k)
     \<and> (\<forall>x \<in> set ks. Supported (k_suite x) \<and> ValidAt x now \<longrightarrow> k_not_before x \<le> k_not_before k)"
proof (induction now best ks rule: latest_valid.induct)
  case (2 now best x ks)
  show ?case
  proof (cases "\<not> Supported (k_suite x) \<or> \<not> ValidAt x now")
    case True
    then show ?thesis using 2 by auto
  next
    case False
    then show ?thesis using 2(2) 2(3) by (cases best) (force split: if_splits)+
  qed
qed simp

lemma latest_valid_none: "latest_valid now best ks = None \<longleftrightarrow> best = None \<and> (\<forall>x \<in> set ks. \<not> (Supported (k_suite x) \<and> ValidAt x now))"
  by (induction now best ks rule: latest_valid.induct) (auto split: option.splits)

lemma earliest_soon_spec:
  "earliest_soon t best ks = Some k \<Longrightarrow>
     (best = Some k \<or> (k \<in> set ks \<and> Supported (k_suite k) \<and> usable_at t k))
     \<and> (\<forall>b. best = Some b \<longrightarrow> k_not_before k \<le> k_not_before b)
     \<and> (\<forall>x \<in> set ks. Supported (k_suite x) \<and> usable_at t x \<longrightarrow> k_not_before k \<le> k_not_before x)"
proof (induction t best ks rule: earliest_soon.induct)
  case (2 t best x ks)
  show ?case
  proof (cases "\<not> Supported (k_suite x) \<or> \<not> usable_at t x")
    case True
    then show ?thesis using 2 by (auto simp: usable_at_def)
  next
    case False
    then show ?thesis using 2(2) 2(3) by (cases best) (force simp: usable_at_def split: if_splits)+
  qed
qed simp

lemma earliest_soon_none: "earliest_soon t best ks = None \<longleftrightarrow> best = None \<and> (\<forall>x \<in> set ks. \<not> (Supported (k_suite x) \<and> usable_at t x))"
  by (induction t best ks rule: earliest_soon.induct) (auto simp: usable_at_def split: option.splits)

lemma checked_keys:
  "check_keys C sn prev ks \<Longrightarrow> k \<in> set ks \<Longrightarrow> NewEncKey C (k_suite k) (k_pub k) (k_not_before k) (k_not_after k) = k"
  by (induction C sn prev ks rule: check_keys.induct) (auto simp: enc_key_check_def NewEncKey_def split: if_splits)

text \<open>C40: the key a sender seals to. From a well-formed set \<open>SelectKey\<close> returns a key of the set, of a suite this build has: the
  one that became valid last among those valid now, and only when there is none the one that becomes valid first among those
  valid within the clock skew. It fails exactly when the set has neither; and then, if every key is of a supported suite, no
  reader accepts the set at that time.\<close>

theorem SelectKey_picks:
  assumes "checkStructure C s = Inr ()"
  shows "case SelectKey C (Some s) now of
      Inr k \<Rightarrow> k \<in> set (ks_enc_keys s) \<and> Supported (k_suite k)
        \<and> (if \<exists>x \<in> set (ks_enc_keys s). Supported (k_suite x) \<and> ValidAt x now
           then ValidAt k now \<and> (\<forall>x \<in> set (ks_enc_keys s). Supported (k_suite x) \<and> ValidAt x now \<longrightarrow> k_not_before x \<le> k_not_before k)
           else usable_at (satAdd now ClockSkewMS) k
             \<and> (\<forall>x \<in> set (ks_enc_keys s). Supported (k_suite x) \<and> usable_at (satAdd now ClockSkewMS) x \<longrightarrow> k_not_before k \<le> k_not_before x))
    | Inl e \<Rightarrow> e = SealError NoUsableKey []
        \<and> (\<forall>x \<in> set (ks_enc_keys s). Supported (k_suite x) \<longrightarrow> \<not> ValidAt x now \<and> \<not> usable_at (satAdd now ClockSkewMS) x)
        \<and> ((\<forall>x \<in> set (ks_enc_keys s). Supported (k_suite x)) \<longrightarrow> checkValidAt s now \<noteq> Inr ())"
proof -
  let ?ks = "ks_enc_keys s" let ?t = "satAdd now ClockSkewMS"
  have chk: "check_keys C [] None ?ks" using assms by (auto simp: checkStructure_def split: if_splits)
  show ?thesis
  proof (cases "latest_valid now None ?ks")
    case (Some k)
    note l = latest_valid_spec [OF Some]
    then have "SelectKey C (Some s) now = Inr k" using Some checked_keys [OF chk] by (simp add: SelectKey_def)
    then show ?thesis using l by auto
  next
    case None
    note n = None [unfolded latest_valid_none, THEN conjunct2]
    show ?thesis
    proof (cases "earliest_soon ?t None ?ks")
      case (Some k)
      note l = earliest_soon_spec [OF Some]
      then have "SelectKey C (Some s) now = Inr k" using Some None checked_keys [OF chk] by (simp add: SelectKey_def)
      then show ?thesis using l n by auto
    next
      case none2: None
      have "SelectKey C (Some s) now = Inl (SealError NoUsableKey [])" using None none2 by (simp add: SelectKey_def fail_def)
      then show ?thesis using n none2 [unfolded earliest_soon_none] by (auto simp: checkValidAt_def list_ex_iff)
    qed
  qed
qed

theorem SelectKey_picks_witness: "\<exists>k. SelectKey demo_crypto (Some demo_set) 800 = Inr k \<and> usable_at 300800 k"
proof -
  have t: "satAdd 800 ClockSkewMS = 300800" by (simp add: satAdd_def limit_defs)
  have u: "usable_at 300800 demo_enc_key" "Supported (k_suite demo_enc_key)" "demo_enc_key \<in> set (ks_enc_keys demo_set)" "\<not> ValidAt demo_enc_key 800"
    by (simp_all add: usable_at_def demo_enc_key_def NewEncKey_def Supported_iff demo_set_def ValidAt_def)
  have "set (ks_enc_keys demo_set) = {demo_enc_key}" by (simp add: demo_set_def)
  then show ?thesis using SelectKey_picks [OF demo_set_check(1), of 800] u unfolding t by (auto split: sum.splits)
qed

end
