(* ===== verification/Seal_Open.thy ===== *)
theory Seal_Open
  imports Seal_Codec Seal_Keys_Props
begin

text \<open>
  The promise of sealed envelopes: what a sender seals to a published key, in one layer or under an interaction key in two,
  the recipient opens and verifies, whatever credential is attached on the way.
\<close>

section \<open>The two layers\<close>

text \<open>The documented behaviour of the HPKE suite for one key pair (RFC 9180): an encapsulation succeeds and has the suite's length,
  both ends get contexts that agree on the export and on what is sealed, the tag is 16 bytes long, and every plaintext up to the
  AEAD's limit is sealed.\<close>

definition seal_key :: "seal_hpke \<Rightarrow> bytes \<Rightarrow> bytes \<Rightarrow> bool" where
  "seal_key H sk pk \<longleftrightarrow> sh_public H pk \<and> sh_private H sk
     \<and> (\<forall>rnd info. \<exists>enc ctx ctx' key. sh_sender H rnd pk info = Some (enc, ctx) \<and> length enc = 32 \<and> sh_recipient H enc sk info = Some ctx'
          \<and> sh_export H ctx DAckExporterContext AckKeyLen = Some key \<and> sh_export H ctx' DAckExporterContext AckKeyLen = Some key
          \<and> (\<forall>pt. length pt \<le> 2 ^ 38 - 64 \<longrightarrow>
               (\<exists>ct. sh_seal H ctx pt = Some ct \<and> length ct = length pt + 16 \<and> sh_open H ctx' ct = Some pt)))"

lemma seal_keyD:
  assumes "seal_key H sk pk"
  obtains enc ctx ctx' key where "sh_sender H rnd pk info = Some (enc, ctx)" "length enc = 32" "sh_recipient H enc sk info = Some ctx'"
    "sh_export H ctx DAckExporterContext AckKeyLen = Some key" "sh_export H ctx' DAckExporterContext AckKeyLen = Some key"
    "\<And>pt. length pt \<le> 2 ^ 38 - 64 \<Longrightarrow> \<exists>ct. sh_seal H ctx pt = Some ct \<and> length ct = length pt + 16 \<and> sh_open H ctx' ct = Some pt"
  using assms unfolding seal_key_def by metis

lemma info_encodes:
  assumes D: "coredet_ok D" and "label = HPKELabel \<or> label = IXLabel" and "ValidString rcpt" "in_memory rcpt" and "length kid = KIDLen"
  shows "\<exists>b. hpke_info D label rcpt s kid = Some b"
proof -
  have "ValidString label" using assms(2) by (auto intro!: ValidString_ascii simp: HPKELabel_def IXLabel_def)
  moreover have "in_memory label" using assms(2) by (auto simp: in_memory_def HPKELabel_def IXLabel_def MaxInt_def)
  ultimately obtain v1 where v1: "enc_text D label = Some v1" using encodes(1) [OF D] by blast
  obtain v2 where v2: "enc_text D rcpt = Some v2" using encodes(1) [OF D assms(3,4)] by blast
  obtain v3 where v3: "enc_uint D (ucast s) = Some v3" using uint_encodes [OF D] by blast
  have "in_memory kid" using assms(5) by (simp add: in_memory_def KIDLen_def MaxInt_def)
  then obtain v4 where v4: "enc_bstr D kid = Some v4" using encodes(2) [OF D] by blast
  note i = enc_items(2) [OF D v1] enc_items(2) [OF D v2] enc_items(1) [OF D v3] enc_items(3) [OF D v4]
  show ?thesis
    unfolding hpke_info_def by (rule enc_struct_total [OF D, of _ 0]) (use i v1 v2 v3 v4 small_levels(1) in \<open>simp_all add: word_less_nat_alt\<close>)
qed

text \<open>The interaction key a message may be sealed to: the recipient's own, held for this interaction and this sender.\<close>

definition holds_ix :: "crypto \<Rightarrow> seal_hpke \<Rightarrow> ix_lookup \<Rightarrow> sealed_inner \<Rightarrow> ix_key \<Rightarrow> bool" where
  "holds_ix C H ix i k \<longleftrightarrow> rk_check (ix_RK k) \<and> seal_key H (ix_private k) (ix_pub k) \<and> ix_ix k = in_ix i \<and> ix_peer k = in_from i
     \<and> (\<exists>f. ix = Some f \<and> f (ix_KID C k) = Inr (Some k))"

lemma layer_two:
  assumes D: "coredet_ok D" and sha: "\<And>x. length (sha256 C x) = 32" and k: "holds_ix C H ix i k" and to: "ValidString rcpt" "in_memory rcpt"
  obtains t where "newLayer2Sender C D H rnd rcpt (ix_RK k) = Inr t" "l2_ikid t = ix_KID C k" "length (l2_ikid t) = KIDLen" "length (l2_enc2 t) = 32"
    "\<And>pt. length pt \<le> 2 ^ 38 - 64 \<Longrightarrow> \<exists>ct. sh_seal H (l2_ctx t) pt = Some ct \<and> length ct = length pt + 16
       \<and> openLayer2 D H rcpt k (l2_ikid t) (l2_enc2 t) ct = Inr pt"
proof -
  have kid: "rk_KID C (ix_RK k) = ix_KID C k" "length (ix_KID C k) = KIDLen"
    by (simp_all add: rk_KID_def ix_RK_def ix_KID_def KID_def sha KIDLen_def)
  have rk: "rk_check (ix_RK k)" "seal_key H (ix_private k) (ix_pub k)" using k by (simp_all add: holds_ix_def)
  then have p: "params (rk_suite (ix_RK k)) \<noteq> None" "sh_public H (rk_pub (ix_RK k))" "sh_private H (ix_private k)"
    by (auto simp: rk_check_def params_def seal_key_def ix_RK_def split: if_splits)
  obtain info where info: "IXInfo D rcpt (rk_suite (ix_RK k)) (ix_KID C k) = Some info"
    using info_encodes [OF D _ to kid(2)] by (auto simp: IXInfo_def)
  obtain enc ctx ctx' key where s: "sh_sender H rnd (ix_pub k) info = Some (enc, ctx)" "length enc = 32"
    "sh_recipient H enc (ix_private k) info = Some ctx'"
    "\<And>pt. length pt \<le> 2 ^ 38 - 64 \<Longrightarrow> \<exists>ct. sh_seal H ctx pt = Some ct \<and> length ct = length pt + 16 \<and> sh_open H ctx' ct = Some pt"
    using seal_keyD [OF rk(2)] by metis
  let ?t = "\<lparr>l2_ikid = ix_KID C k, l2_enc2 = enc, l2_ctx = ctx\<rparr>"
  have "newLayer2Sender C D H rnd rcpt (ix_RK k) = Inr ?t"
    using rk(1) p s(1) info kid(1) by (simp add: newLayer2Sender_def ebind_must) (simp add: ix_RK_def ebind_must)
  moreover have "openLayer2 D H rcpt k (ix_KID C k) enc ct = must (sh_open H ctx' ct) Decrypt []" for ct
    using p(3) info s(3) by (simp add: openLayer2_def ix_RK_def ebind_must)
  ultimately show ?thesis using that [of ?t] kid(2) s(2,4) by (fastforce simp: must_def)
qed

section \<open>The signed inner message\<close>

lemma inner_signs:
  assumes D: "coredet_ok D" and sha: "\<And>x. length (sha256 C x) = 32" and c: "checkForSeal D K i oexp = Inr ()" and z: "sealable D i"
    and sign: "\<And>pre. \<exists>sg. sign pre = (Some sg, in_seq i) \<and> length sg = SigLen"
    and len: "length enc = 32" "length (k_kid key) = KIDLen"
    and two: "\<And>t. two = Some t \<Longrightarrow> length (l2_ikid t) = KIDLen \<and> length (l2_enc2 t) = 32"
  obtains m pre sg b where "sign_inner C D i sign enc key two = Inr b" "decodeInner D b = Inr (m, i \<lparr>in_sig := sg\<rparr>)"
    "sign pre = (Some sg, in_seq i)" "length b \<le> 2 ^ 34 + 3000" "length sg = SigLen"
    "sigPreimage C D m enc (k_kid key) (ucast (k_suite key)) (map_option l2_ikid two) (map_option l2_enc2 two) = Some pre"
proof -
  obtain m where m: "inner_fieldMap D i = Some m" "fm_is D m (inner_entries D i)" "fm_weight m \<le> inner_size i + 2500" "length m + 6 \<le> max_entries"
    and e9: "enc_bstr D (in_body i) \<noteq> None"
    by (rule inner_is [OF D c z])
  have ext: "\<forall>p \<in> set (in_ext i). FirstIgnorableKey \<le> fst p" using checkForSeal_ok(17) [OF c] by blast
  have low: "inner_entries D i k = inner_base D i k" if "unat k < 64" for k
    using that by (intro inner_low [OF ext]) (simp add: FirstIgnorableKey_def word_less_nat_alt)
  have body: "rawBytes D m keyBody = Some (in_body i)"
    by (rule raw_eq(3) [OF D m(2) _ e9]) (use e9 in \<open>simp add: keyBody_def low inner_at\<close>)
  have pre: "\<forall>k \<in> set preKeys. inner_entries D i k = None"
    by (simp add: preKeys_def low) (simp add: inner_base_def)
  have mem: "in_memory enc" "in_memory (k_kid key)" using len by (simp_all add: in_memory_def MaxInt_def KIDLen_def)
  have mem2: "in_memory x" if "map_option l2_ikid two = Some x \<or> map_option l2_enc2 two = Some x" for x
    using that two by (cases two) (auto simp: in_memory_def MaxInt_def KIDLen_def)
  have t2: "(map_option l2_ikid two = None) = (map_option l2_enc2 two = None)" by simp
  obtain pre where p: "sigPreimage C D m enc (k_kid key) (ucast (k_suite key)) (map_option l2_ikid two) (map_option l2_enc2 two) = Some pre"
    using sigPreimage_total [OF D sha m(2,4) body pre mem mem2 t2] by blast
  obtain sg where sg: "sign pre = (Some sg, in_seq i)" "length sg = SigLen" using sign by blast
  then have "in_memory sg" by (simp add: in_memory_def SigLen_def MaxInt_def)
  then obtain s where s: "enc_bstr D sg = Some s" using encodes(2) [OF D] by blast
  have fm: "fm_is D (fm_put keySig s m) ((inner_entries D i)(keySig \<mapsto> s))" by (rule fm_is_put [OF m(2) flat_fits(3) [OF D s]])
  have "length (fm_put keySig s m) \<le> max_entries" using length_put [of keySig s m] m(4) by linarith
  then obtain b where b: "enc_map D (fm_put keySig s m) = Some b" "length b = encodedLen (fm_put keySig s m)"
    using encode_fm_is [OF D fm] by blast
  have "length b \<le> 9 + (fm_weight m + 9 + length s)"
    using encodedLen_weight [of "fm_put keySig s m"] fm_weight_put [of keySig s m] b(2) by linarith
  moreover have "length s \<le> 73" using enc_lengths(3) [OF D s] sg(2) by (simp add: SigLen_def)
  moreover have "inner_size i \<le> 2 ^ 34" using z by (simp add: sealable_def)
  ultimately have "length b \<le> 2 ^ 34 + 3000" using m(3) by linarith
  moreover have "sign_inner C D i sign enc key two = Inr b"
    using sg by (simp add: sign_inner_def m(1) p ebind_must nil_bytes_def s b(1) must_def)
  moreover have "decodeInner D b = Inr (fm_put keySig s m, i \<lparr>in_sig := sg\<rparr>)" by (rule inner_decodes [OF D c z m(1) s sg(2) b(1)])
  ultimately show ?thesis using that sg p unfolding sigPreimage_sig [of C D s m, symmetric] by blast
qed


section \<open>A sealed message opens\<close>

text \<open>What the Wrap carries: the inner, in the clear or under the second layer.\<close>

definition carries_inner :: "layer2_sender option \<Rightarrow> bytes \<Rightarrow> (bytes \<Rightarrow> bytes \<Rightarrow> bool) \<Rightarrow> wrap_fields \<Rightarrow> bool" where
  "carries_inner two b sealed w \<longleftrightarrow> wf_ikid w = map_option l2_ikid two \<and> wf_enc2 w = map_option l2_enc2 two
     \<and> (case two of None \<Rightarrow> wf_body w = b | Some t \<Rightarrow> sealed b (wf_body w))"

lemma wrap_opens:
  assumes D: "coredet_ok D" and b: "length b \<le> 2 ^ 34 + 3000"
    and two: "\<And>t. two = Some t \<Longrightarrow> length (l2_ikid t) = KIDLen \<and> length (l2_enc2 t) = 32
      \<and> (\<forall>pt. length pt \<le> 2 ^ 38 - 64 \<longrightarrow> (\<exists>ct. sh_seal H (l2_ctx t) pt = Some ct \<and> length ct = length pt + 16 \<and> sealed pt ct))"
    and ctx: "\<And>pt. length pt \<le> 2 ^ 38 - 64 \<Longrightarrow> \<exists>ct. sh_seal H ctx pt = Some ct \<and> length ct = length pt + 16 \<and> sh_open H ctx' ct = Some pt"
  obtains ct pt w where "seal_wrap D H ctx two b = Inr ct" "sh_open H ctx' ct = Some pt" "decodeWrap D pt = Inr w" "carries_inner two b sealed w"
    "ct \<noteq> []" "in_memory ct"
proof -
  obtain w where w: "(case two of
        None \<Rightarrow> Inr \<lparr>wf_ikid = None, wf_enc2 = None, wf_body = b\<rparr>
      | Some t \<Rightarrow>
          ebind (must (sh_seal H (l2_ctx t) b) InternalError []) (\<lambda>ct2.
            Inr \<lparr>wf_ikid = Some (l2_ikid t), wf_enc2 = Some (l2_enc2 t), wf_body = ct2\<rparr>)) = Inr w"
    and c: "carries_inner two b sealed w" and l: "length (wf_body w) \<le> 2 ^ 35"
  proof (cases two)
    case None
    then show ?thesis using that [of "\<lparr>wf_ikid = None, wf_enc2 = None, wf_body = b\<rparr>"] b by (simp add: carries_inner_def)
  next
    case (Some t)
    have "length b \<le> 2 ^ 38 - 64" using b by simp
    then obtain ct2 where "sh_seal H (l2_ctx t) b = Some ct2" "length ct2 = length b + 16" "sealed b ct2" using two [OF Some] by blast
    then show ?thesis using that Some b by (simp add: carries_inner_def ebind_must)
  qed
  have t: "(wf_ikid w = None) = (wf_enc2 w = None)" "\<And>x. wf_ikid w = Some x \<Longrightarrow> length x = KIDLen" "\<And>x. wf_enc2 w = Some x \<Longrightarrow> length x = 32"
    using c two unfolding carries_inner_def by auto
  obtain wrap pt where p: "paddedMap D w = Some (wrap, int (length pt))" "enc_map D wrap = Some pt" "decodeWrap D pt = Inr w"
    "length pt \<le> 2 ^ 38 - 64"
    using wrap_roundtrip [OF D t l] by metis
  obtain ct where ct: "sh_seal H ctx pt = Some ct" "length ct = length pt + 16" "sh_open H ctx' ct = Some pt" using ctx [OF p(4)] by blast
  have "seal_wrap D H ctx two b = Inr ct" by (simp add: seal_wrap_def w p(1,2) ebind_must ct(1) must_def)
  moreover have "ct \<noteq> []" "in_memory ct" using ct(2) p(4) by (auto simp: in_memory_def MaxInt_def)
  ultimately show ?thesis using that ct(3) p(3) c by blast
qed

lemma access_attaches:
  assumes D: "coredet_ok D" and m: "fm_is D m f" "length m < max_entries" "enc_map D m = Some env0" "f 7 = None" and a: "encodeAccess D (Some a) = Some raw"
    and parses: "\<And>env. enc_map D (fm_put 7 raw m) = Some env \<Longrightarrow> \<exists>o'. ParseOuter D env = Inr o'"
  obtains env d where "SetAccess D env0 (Some a) = Inr env" "enc_map D (fm_put 7 raw m) = Some env" "EnvDigest C D env0 = Inr d" "EnvDigest C D env = Inr d"
proof -
  have raw: "fits D raw" using access_roundtrip(2) [OF D a] within_fits small_levels(3) by blast
  have p: "fm_is D (fm_put 7 raw m) (f(7 \<mapsto> raw))" by (rule fm_is_put [OF m(1) raw])
  have "length (fm_put 7 raw m) \<le> max_entries" using length_put [of 7 raw m] m(2) by linarith
  then obtain env where env: "enc_map D (fm_put 7 raw m) = Some env" using encode_fm_is [OF D p] by blast
  have d: "decodeFields D env0 = Some m" "decodeFields D env = Some (fm_put 7 raw m)"
    using decode_fm_is [OF D m(1) m(3)] decode_fm_is [OF D p env] by simp_all
  have "7 \<notin> set (map fst m)" using m(4) fm_is_keys [OF m(1)] by auto
  then have "fm_del 7 m = m" by (auto simp: fm_del_def filter_id_conv)
  then have "EnvDigest C D env0 = Inr (sha256 C (ascii envDigestLabel @ [0] @ env0))"
    "EnvDigest C D env = Inr (sha256 C (ascii envDigestLabel @ [0] @ env0))"
    by (simp_all add: EnvDigest_def d ebind_must fm_del_put m(3))
  moreover have "SetAccess D env0 (Some a) = Inr env" using parses [OF env] by (auto simp: SetAccess_def a d ebind_must env)
  ultimately show ?thesis using that env by blast
qed


section \<open>The later steps\<close>

lemma signer_usable:
  assumes "VerifyObject C kel aid seq 0 pre sig = Inr ()"
  obtains states where "replay C kel = Inr states" "ks_aid (last states) = aid" "unat seq < length states"
    "\<And>arrival. SenderKeyUsable (states ! unat seq) arrival"
proof -
  obtain states where s: "replay C kel = Inr states" "ks_aid (last states) = aid" "unat seq < length states"
      "ks_status (states ! unat seq) = StatusActive"
    using current_state [OF assms] by metis
  then have st: "states ! unat seq = state_of kel (unat seq)" by (auto simp: replay_iff)
  then have "\<not> ks_retired_urgently (states ! unat seq)" using s(4) by (auto simp: state_of_def own_state_def split: if_splits)
  then show ?thesis using that [OF s(1-3)] s(4) by (simp add: SenderKeyUsable_def RetiredUsableAt_def)
qed

lemma inner_verifies:
  assumes "honest_signer C s" and "sg_sign s pre = (Some (in_sig i), in_seq i)" and "in_from i = sg_aid s" and "in_ts i \<noteq> 0" and "arrival \<noteq> 0"
  shows "VerifyInnerSig C (Some i) pre (sg_kel s) arrival = Inr ()"
proof -
  have v: "\<And>t. VerifyObject C (sg_kel s) (sg_aid s) (in_seq i) t pre (in_sig i) = Inr ()" "length (in_sig i) = 64"
    using assms(1) [unfolded honest_signer_def, rule_format, of pre] assms(2) by auto
  obtain states where st: "replay C (sg_kel s) = Inr states" "ks_aid (last states) = sg_aid s" "unat (in_seq i) < length states"
    "\<And>arrival. SenderKeyUsable (states ! unat (in_seq i)) arrival"
    using signer_usable [OF v(1)] by metis
  then show ?thesis using v assms(3-5) by (simp add: VerifyInnerSig_def SigLen_def Let_def not_le)
qed

lemma time_checks:
  assumes "in_ts i \<le> in_exp i" and "in_exp i - in_ts i \<le> MaxMessageLifetimeMS"
  shows "CheckTime (Some i) now = Inr () \<longleftrightarrow> now \<le> in_exp i \<and> in_ts i \<le> satAdd now ClockSkewMS"
  using assms by (auto simp: CheckTime_def fail_def not_less split: if_splits)

lemma match_own:
  assumes "checkForSeal D K i oexp = Inr ()" and "ev_to outer = in_to i" and "ev_exp outer = (if oexp = 0 then None else Some oexp)"
    and "\<And>k. key = Some k \<Longrightarrow> ix_ix k = in_ix i \<and> ix_peer k = in_from i"
  shows "match_outer K outer key (i \<lparr>in_sig := sg\<rparr>) = Inr (map_option (\<lambda>b. the (K b)) (in_kel i))"
proof -
  note ck = checkForSeal_ok [OF assms(1)]
  have "ebind (ParseKEL K b) (\<lambda>kel. Inr (Some kel)) = Inr (Some (the (K b)))" if kb: "in_kel i = Some b" for b
  proof -
    obtain kel where k: "ParseKEL K b = Inr kel" using ck(13) [OF kb] by blast
    then have "K b = Some kel" by (auto simp: ParseKEL_def fail_def split: if_splits option.splits)
    then show ?thesis by (simp add: k ebind_def)
  qed
  then show ?thesis using assms(2-4) ck(11) by (auto simp: match_outer_def split: option.splits)
qed

lemma open_wrap_own:
  assumes "carries_inner two b (\<lambda>pt ct. \<forall>k t. key = Some k \<and> two = Some t \<longrightarrow> openLayer2 D H rcpt k (l2_ikid t) (l2_enc2 t) ct = Inr pt) w"
    and "(two = None) = (key = None)" and "\<And>k t. key = Some k \<Longrightarrow> two = Some t \<Longrightarrow> holds_ix C H ix i k \<and> l2_ikid t = ix_KID C k"
  shows "open_wrap C D H ix rcpt ack w = Inr (b, key)"
proof (cases two)
  case None
  then show ?thesis using assms(1,2) by (simp add: carries_inner_def open_wrap_def)
next
  case (Some t)
  then obtain k where k: "key = Some k" using assms(2) by auto
  have h: "holds_ix C H ix i k" "l2_ikid t = ix_KID C k" using assms(3) [OF k Some] by simp_all
  then obtain f where f: "ix = Some f" "f (ix_KID C k) = Inr (Some k)" unfolding holds_ix_def by blast
  have "rk_check (ix_RK k)" using h(1) by (simp add: holds_ix_def)
  then have "ix_answers C k (ix_KID C k)"
    by (auto simp: ix_answers_def rk_check_def ix_RK_def params_def split: if_splits)
  moreover have "openLayer2 D H rcpt k (l2_ikid t) (l2_enc2 t) (wf_body w) = Inr b" "wf_ikid w = Some (ix_KID C k)" "wf_enc2 w = Some (l2_enc2 t)"
    using assms(1) Some k h(2) by (simp_all add: carries_inner_def)
  ultimately show ?thesis using f h(2) by (simp add: open_wrap_def withAck_def nil_bytes_def k)
qed


text \<open>C12: a sealed message arrives. A message that passes the sender's checks, signed by a signer whose signatures its own log
  verifies, is sealed to a published key of a supported suite, under a second layer too when the peer announced an interaction
  key. Any well-formed credential attaches to it without changing its digest, and the recipient, who holds the private key and
  for two layers its own interaction key of this interaction and sender, opens it: with the acknowledgement key the sender
  holds, the very message that was sealed now signed, the log it carried, and a preimage over which the signature verifies at
  every arrival; its time check passes exactly from the clock skew before its timestamp to its expiry. What CoreDet, HPKE and
  SHA-256 contribute is \<^const>\<open>coredet_ok\<close>, \<^const>\<open>seal_key\<close> and a digest of 32 bytes.\<close>

theorem sealed_message_opens:
  assumes D: "coredet_ok D" and sha: "\<And>x. length (sha256 C x) = 32"
    and c: "checkForSeal D K i (so_exp opts) = Inr ()" and z: "sealable D i"
    and hs: "honest_signer C s" "in_from i = sg_aid s" "\<And>pre. snd (sg_sign s pre) = in_seq i"
    and key: "enc_key_check C (kp_public kp)" "Supported (k_suite (kp_public kp))" "seal_key H (kp_private kp) (k_pub (kp_public kp))"
    and two: "so_peer_rk opts = map_option ix_RK own" "\<And>k. own = Some k \<Longrightarrow> holds_ix C H ix i k"
    and ring: "ring (k_kid (kp_public kp)) = Some kp" and a: "encodeAccess D (Some a) = Some raw"
  shows "\<exists>env0 env d op. Seal C D H K rnd rnd2 (Some i) (Some (kp_public kp)) (Some (sg_sign s)) opts = Inr (env0, op_ack op)
    \<and> SetAccess D env0 (Some a) = Inr env \<and> EnvDigest C D env0 = Inr d \<and> EnvDigest C D env = Inr d
    \<and> Open C D H K env (in_to i) (Some ring) ix = Inr op
    \<and> op_inner op = i \<lparr>in_sig := in_sig (op_inner op)\<rparr> \<and> op_kel op = map_option (\<lambda>b. the (K b)) (in_kel i)
    \<and> ev_access (op_outer op) = Some a \<and> op_layers op = (if own = None then 1 else 2)
    \<and> (\<forall>arrival. arrival \<noteq> 0 \<longrightarrow> VerifyInnerSig C (Some (op_inner op)) (op_preimage op) (sg_kel s) arrival = Inr ())
    \<and> (\<forall>now. CheckTime (Some (op_inner op)) now = Inr () \<longleftrightarrow> now \<le> in_exp i \<and> in_ts i \<le> satAdd now ClockSkewMS)"
proof -
  note ck = checkForSeal_ok [OF c]
  let ?key = "kp_public kp" let ?kid = "k_kid ?key"
  have su: "k_suite ?key = SuiteX25519" using key(2) by (simp add: Supported_iff)
  have kid: "length ?kid = KIDLen" using key(1) by (simp add: enc_key_check_def split: if_splits)
  have hk: "sh_public H (k_pub ?key)" "sh_private H (kp_private kp)" using key(3) by (simp_all add: seal_key_def)
  have to: "ValidString (in_to i)" "in_memory (in_to i)" using z by (auto simp: sealable_def inner_size_def in_memory_def MaxInt_def)
  obtain info where info: "HPKEInfo D (in_to i) SuiteX25519 ?kid = Some info"
    using info_encodes [OF D _ to kid] by (auto simp: HPKEInfo_def)
  obtain enc ctx ctx' ack where h: "sh_sender H rnd (k_pub ?key) info = Some (enc, ctx)" "length enc = 32"
    "sh_recipient H enc (kp_private kp) info = Some ctx'" "sh_export H ctx DAckExporterContext AckKeyLen = Some ack"
    "sh_export H ctx' DAckExporterContext AckKeyLen = Some ack"
    and sl: "\<And>pt. length pt \<le> 2 ^ 38 - 64 \<Longrightarrow> \<exists>ct. sh_seal H ctx pt = Some ct \<and> length ct = length pt + 16 \<and> sh_open H ctx' ct = Some pt"
    using seal_keyD [OF key(3), where rnd = rnd and info = info] by metis
  obtain ts where ts: "(case so_peer_rk opts of None \<Rightarrow> Inr None
        | Some r \<Rightarrow> ebind (newLayer2Sender C D H rnd2 (in_to i) r) (\<lambda>t. Inr (Some t))) = Inr ts"
    and tn: "(ts = None) = (own = None)" and tk: "\<And>t. ts = Some t \<Longrightarrow> length (l2_ikid t) = KIDLen \<and> length (l2_enc2 t) = 32
      \<and> (\<forall>pt. length pt \<le> 2 ^ 38 - 64 \<longrightarrow> (\<exists>ct. sh_seal H (l2_ctx t) pt = Some ct \<and> length ct = length pt + 16
         \<and> (\<forall>k. own = Some k \<longrightarrow> openLayer2 D H (in_to i) k (l2_ikid t) (l2_enc2 t) ct = Inr pt)))"
    and tl: "\<And>k t. own = Some k \<Longrightarrow> ts = Some t \<Longrightarrow> l2_ikid t = ix_KID C k"
  proof (cases own)
    case None
    then show ?thesis using that [of None] two(1) by simp
  next
    case (Some k)
    obtain t where t: "newLayer2Sender C D H rnd2 (in_to i) (ix_RK k) = Inr t" "l2_ikid t = ix_KID C k" "length (l2_ikid t) = KIDLen"
      "length (l2_enc2 t) = 32" "\<And>pt. length pt \<le> 2 ^ 38 - 64 \<Longrightarrow> \<exists>ct. sh_seal H (l2_ctx t) pt = Some ct \<and> length ct = length pt + 16
       \<and> openLayer2 D H (in_to i) k (l2_ikid t) (l2_enc2 t) ct = Inr pt"
      using layer_two [OF D sha two(2) [OF Some] to, of rnd2] by metis
    then show ?thesis using two(1) Some by (intro that [of "Some t"]) auto
  qed
  have sign: "\<exists>sg. sg_sign s pre = (Some sg, in_seq i) \<and> length sg = SigLen" for pre
    using hs(1) [unfolded honest_signer_def, rule_format, of pre] hs(3) [of pre] by (auto simp: SigLen_def)
  have tk2: "length (l2_ikid t) = KIDLen \<and> length (l2_enc2 t) = 32" if "ts = Some t" for t using tk [OF that] by blast
  obtain m pre sg b where b: "sign_inner C D i (sg_sign s) enc ?key ts = Inr b" "decodeInner D b = Inr (m, i \<lparr>in_sig := sg\<rparr>)"
    "sg_sign s pre = (Some sg, in_seq i)" "length b \<le> 2 ^ 34 + 3000" "length sg = SigLen"
    "sigPreimage C D m enc ?kid (ucast (k_suite ?key)) (map_option l2_ikid ts) (map_option l2_enc2 ts) = Some pre"
    by (rule inner_signs [OF D sha c z sign h(2) kid tk2])
  define sealed where
    "sealed = (\<lambda>pt ct. \<forall>k t. own = Some k \<and> ts = Some t \<longrightarrow> openLayer2 D H (in_to i) k (l2_ikid t) (l2_enc2 t) ct = Inr pt)"
  have tk3: "length (l2_ikid t) = KIDLen \<and> length (l2_enc2 t) = 32
      \<and> (\<forall>pt. length pt \<le> 2 ^ 38 - 64 \<longrightarrow> (\<exists>ct. sh_seal H (l2_ctx t) pt = Some ct \<and> length ct = length pt + 16 \<and> sealed pt ct))"
    if "ts = Some t" for t
    using tk [OF that] that by (simp add: sealed_def)
  obtain ct pt w where w: "seal_wrap D H ctx ts b = Inr ct" "sh_open H ctx' ct = Some pt" "decodeWrap D pt = Inr w"
    "carries_inner ts b sealed w" "ct \<noteq> []" "in_memory ct"
    by (rule wrap_opens [OF D b(4) tk3 sl])
  obtain mo v1 v2 v3 v4 v5 v6 v8 where mo: "outer_map D (in_to i) ?key enc ct (so_exp opts) = Some mo"
    and v: "enc_uint D 2 = Some v1" "enc_text D (in_to i) = Some v2" "enc_uint D 1 = Some v3" "enc_bstr D ?kid = Some v4"
      "enc_bstr D enc = Some v5" "enc_bstr D ct = Some v6" "enc_uint D (so_exp opts) = Some v8"
    and mf: "fm_is D mo ([1 \<mapsto> v1, 2 \<mapsto> v2, 3 \<mapsto> v3, 4 \<mapsto> v4, 5 \<mapsto> v5, 6 \<mapsto> v6] (8 := (if so_exp opts = 0 then None else Some v8)))"
    and ml: "length mo \<le> 7"
    by (rule outer_is [OF D to kid h(2) w(6) su])
  obtain env0 where env0: "enc_map D mo = Some env0" using encode_fm_is [OF D mf] ml by (auto simp: max_entries_def)
  have seal: "Seal C D H K rnd rnd2 (Some i) (Some ?key) (Some (sg_sign s)) opts = Inr (env0, ack)"
    using c ts b(1) w(1) mo env0 h(1,4) info hk(1) key(1) su
    by (simp add: Seal_def ebind_must params_def)
  let ?outer = "\<lparr>ev_v = 2, ev_to = in_to i, ev_suite = SuiteX25519, ev_kid = ?kid, ev_enc = enc, ev_ct = ct,
    ev_access = Some a, ev_exp = (if so_exp opts = 0 then None else Some (so_exp opts))\<rparr>"
  have parses: "ParseOuter D env = Inr ?outer" if "enc_map D (fm_put 7 raw mo) = Some env" for env
    using outer_parses [OF D v mf access_roundtrip(1) [OF D a] _ that ck(2) kid h(2) w(5)]
      within_fits [OF access_roundtrip(2) [OF D a] small_levels(3)] by blast
  obtain env d where env: "SetAccess D env0 (Some a) = Inr env" "enc_map D (fm_put 7 raw mo) = Some env" "EnvDigest C D env0 = Inr d"
    "EnvDigest C D env = Inr d"
    by (rule access_attaches [OF D mf _ env0 _ a]) (use ml parses in \<open>auto simp: max_entries_def\<close>)
  have wf: "wf_ikid w = map_option l2_ikid ts" "wf_enc2 w = map_option l2_enc2 ts" using w(4) by (simp_all add: carries_inner_def)
  have ow: "open_wrap C D H ix (in_to i) ack w = Inr (b, own)"
    by (rule open_wrap_own [OF w(4) [unfolded sealed_def] tn]) (use two(2) tl in blast)
  have mt: "match_outer K ?outer own (i \<lparr>in_sig := sg\<rparr>) = Inr (map_option (\<lambda>b. the (K b)) (in_kel i))"
    by (rule match_own [OF c]) (use two(2) in \<open>auto simp: holds_ix_def\<close>)
  let ?op = "\<lparr>op_outer = ?outer, op_inner = i \<lparr>in_sig := sg\<rparr>, op_kel = map_option (\<lambda>b. the (K b)) (in_kel i), op_preimage = pre,
    op_ack = ack, op_layers = (if own = None then 1 else 2), op_ikid = wf_ikid w\<rparr>"
  have "Open C D H K env (in_to i) (Some ring) ix = Inr ?op"
    using parses [OF env(2)] ring su hk(2) info h(3,5) w(2,3) ow b(2,6) mt wf tn
    by (simp add: Open_def before_def withAck_def ebind_must must_def)
  moreover have "VerifyInnerSig C (Some (i \<lparr>in_sig := sg\<rparr>)) pre (sg_kel s) arrival = Inr ()" if "arrival \<noteq> 0" for arrival
    using hs b(3) ck(8) that by (intro inner_verifies) simp_all
  moreover have "CheckTime (Some (i \<lparr>in_sig := sg\<rparr>)) now = Inr () \<longleftrightarrow> now \<le> in_exp i \<and> in_ts i \<le> satAdd now ClockSkewMS" for now
    using time_checks [of "i \<lparr>in_sig := sg\<rparr>" now] ck(9,10) by simp
  ultimately show ?thesis using seal env by (intro exI [of _ env0] exI [of _ env] exI [of _ d] exI [of _ ?op]) simp
qed

section \<open>An example in two layers\<close>

text \<open>A hash of 32 bytes, and an HPKE in which a private key is its own public key and the tag of a ciphertext is its context.\<close>

definition demo_seal_crypto :: crypto where
  "demo_seal_crypto = demo_crypto \<lparr>sha256 := (\<lambda>b. take 32 (b @ replicate 32 0))\<rparr>"

definition demo_tag :: "bytes \<Rightarrow> bytes" where
  "demo_tag ctx = take 16 (ctx @ replicate 16 0)"

definition demo_seal_hpke :: seal_hpke where
  "demo_seal_hpke = \<lparr>sh_public = (\<lambda>pk. length pk = 32), sh_private = (\<lambda>sk. length sk = 32),
     sh_sender = (\<lambda>rnd pk info. Some (take 32 (rnd @ replicate 32 0), pk)), sh_recipient = (\<lambda>enc sk info. Some sk),
     sh_seal = (\<lambda>ctx pt. if length pt \<le> 2 ^ 38 - 64 then Some (pt @ demo_tag ctx) else None),
     sh_open = (\<lambda>ctx ct. if drop (length ct - 16) ct = demo_tag ctx then Some (take (length ct - 16) ct) else None),
     sh_export = (\<lambda>ctx l n. Some (take n (ctx @ replicate n 0)))\<rparr>"

lemma demo_seal_key: "length k = 32 \<Longrightarrow> seal_key demo_seal_hpke k k"
  by (auto simp: seal_key_def demo_seal_hpke_def demo_tag_def)

definition demo_pair :: key_pair_rec where
  "demo_pair = \<lparr>kp_public = NewEncKey demo_seal_crypto SuiteX25519 (demo_key 40) 1000 86401000, kp_private = demo_key 40\<rparr>"

definition demo_ix :: ix_key where
  "demo_ix = \<lparr>ix_ix = ''ix-1'', ix_peer = se_id demo_icp, ix_suite = SuiteX25519, ix_pub = demo_key 41, ix_private = demo_key 41\<rparr>"

definition demo_inner :: sealed_inner where
  "demo_inner = \<lparr>in_from = se_id demo_icp, in_seq = 0, in_to = ''a'', in_type = ''t'', in_ix = ''ix-1'', in_mid = replicate 16 7,
     in_ts = 1000, in_exp = 2000, in_body = [1, 2, 3], in_kel = None, in_notices = [], in_keys = None, in_grant = None,
     in_rk = None, in_sig = [], in_ext = [(64, cborNull)]\<rparr>"

definition demo_opts :: seal_opts where
  "demo_opts = \<lparr>so_peer_rk = Some (ix_RK demo_ix), so_exp = 2000\<rparr>"

lemma demo_seal_honest: "honest_signer demo_seal_crypto demo_signer"
proof -
  let ?C = demo_seal_crypto
  have c: "enc_event ?C = enc_event demo_crypto" "cid_sum ?C = cid_sum demo_crypto" "ed_verify ?C = ed_verify demo_crypto"
    by (simp_all add: demo_seal_crypto_def)
  have "kel_valid ?C [demo_icp]" using demo_prefixes(1) by (simp add: kel_valid_def event_ok_def signed_ok_def c del: demo_crypto_simps)
  then have r: "replay ?C [demo_icp] = replay demo_crypto [demo_icp]" using demo_prefixes(1) by (metis replay_iff)
  have "VerifyObject ?C [demo_icp] = VerifyObject demo_crypto [demo_icp]" by (intro ext) (simp only: VerifyObject_def c r)
  then show ?thesis using demo_honest by (simp add: honest_signer_def del: demo_crypto_simps)
qed

lemma demo_seal_text: "ValidString (se_id demo_icp)" "\<not> has_nul (se_id demo_icp)" "length (se_id demo_icp) = 59" "se_id demo_icp \<noteq> []"
proof -
  have v: "ValidAID (se_id demo_icp)" by (simp add: demo_icp_def demo_sign_def demo_cid_valid)
  then show l: "length (se_id demo_icp) = 59" by (simp add: ValidAID_def aidLen_def split: if_splits)
  then show "se_id demo_icp \<noteq> []" by auto
  obtain b where b: "se_id demo_icp = CHR ''b'' # b32_encode b" by (auto simp: demo_icp_def demo_sign_def demo_cid_def)
  have d: "char_bits c \<noteq> None" if "c \<in> set (se_id demo_icp)" for c
  proof (cases "c = CHR ''b''")
    case True
    then show ?thesis by (simp add: char_bits_def)
  next
    case False
    then have "c \<in> set (enc_bits (concat (map byte_bits b)))" using that by (simp add: b b32_encode_def)
    then show ?thesis using enc_bits_decode [of "concat (map byte_bits b)"] by (metis image_eqI set_map)
  qed
  have code: "(of_char c :: nat) < 128 \<and> (of_char c :: nat) \<noteq> 0" if "c \<in> set (se_id demo_icp)" for c
  proof (rule ccontr)
    assume n: "\<not> ((of_char c :: nat) < 128 \<and> (of_char c :: nat) \<noteq> 0)"
    then have "\<not> (97 \<le> (of_char c :: nat) \<and> (of_char c :: nat) \<le> 122)" "\<not> (50 \<le> (of_char c :: nat) \<and> (of_char c :: nat) \<le> 55)" by linarith+
    then have "char_bits c = None" by (simp only: char_bits_def Let_def if_False option.map)
    then show False using d [OF that] by simp
  qed
  show "ValidString (se_id demo_icp)" using code by (intro ValidString_ascii) (simp add: list_all_iff)
  have "CHR 0x00 \<notin> set (se_id demo_icp)" using code [of "CHR 0x00"] by auto
  then show "\<not> has_nul (se_id demo_icp)" by (simp add: has_nul_def)
qed

lemma session_encodes:
  assumes D: "coredet_ok D"
  obtains raw where "encodeAccess D (Some \<lparr>ac_kind = AccessKindSession, ac_cap = None, ac_proof = []\<rparr>) = Some raw"
proof -
  obtain v where v: "enc_uint D AccessKindSession = Some v" using uint_encodes [OF D] by blast
  let ?fs = "[(1 :: u64, enc_uint D AccessKindSession)]"
  have i: "\<forall>p \<in> set ?fs. \<exists>v. snd p = Some v \<and> item_within D 0 v" using v enc_items(1) [OF D v] by simp
  have k: "sorted_wrt (<) (map fst ?fs)" by simp
  obtain raw where raw: "enc_struct D ?fs = Some raw" using enc_struct_total [OF D k i small_levels(1)] by auto
  have i2: "\<forall>p \<in> set ?fs. \<forall>v. snd p = Some v \<longrightarrow> item_within D 0 v" using i by auto
  note m = enc_structD [OF D k i2 small_levels(1) raw]
  have "rawUint D (map (\<lambda>f. (fst f, the (snd f))) ?fs) 1 = Some AccessKindSession" by (rule raw_of(1) [OF D _ v]) (simp add: v)
  then have "decodeAccess D raw \<noteq> None" using m(2) by (simp add: decodeAccess_def fm_has_def v)
  then show ?thesis using that raw by (simp add: encodeAccess_def access_encode_def)
qed

lemma demo_seal_checks:
  "checkForSeal cbor_coredet (\<lambda>_. None) demo_inner (so_exp demo_opts) = Inr ()" "sealable cbor_coredet demo_inner"
  "enc_key_check demo_seal_crypto (kp_public demo_pair)"
proof -
  have w: "wellFormedItem cbor_coredet cborNull" using cbor_consts(1) by (simp add: wellFormedItem_def cborNull_def)
  show "checkForSeal cbor_coredet (\<lambda>_. None) demo_inner (so_exp demo_opts) = Inr ()"
    using w demo_seal_text
    by (simp add: checkForSeal_def demo_inner_def demo_opts_def has_nul_def MIDLen_def limit_defs FirstIgnorableKey_def word_less_nat_alt)
  have "ValidString ''a''" "ValidString ''t''" "ValidString ''ix-1''" by (rule ValidString_ascii, simp)+
  then show "sealable cbor_coredet demo_inner"
    using demo_seal_text flat_items(4) [OF cbor_coredet_ok]
    by (simp add: sealable_def demo_inner_def fm_ok_def inner_size_def opt_len_def fm_weight_def cborNull_def max_entries_def max_levels_def)
  show "enc_key_check demo_seal_crypto (kp_public demo_pair)"
    by (simp add: enc_key_check_def demo_pair_def NewEncKey_def SuiteX25519_def params_def suite1_def KID_def KIDLen_def
        kidLabel_def ascii_def limit_defs demo_key_def demo_seal_crypto_def)
qed

theorem sealed_message_opens_witness:
  "\<exists>env op. Open demo_seal_crypto cbor_coredet demo_seal_hpke (\<lambda>_. None) env ''a'' (Some (\<lambda>_. Some demo_pair))
       (Some (\<lambda>_. Inr (Some demo_ix))) = Inr op
     \<and> in_body (op_inner op) = [1, 2, 3] \<and> op_layers op = 2 \<and> CheckTime (Some (op_inner op)) 1500 = Inr ()
     \<and> VerifyInnerSig demo_seal_crypto (Some (op_inner op)) (op_preimage op) [demo_icp] 5 = Inr ()"
proof -
  have l: "length (demo_key x) = 32" for x by (simp add: demo_key_def)
  have sha: "length (sha256 demo_seal_crypto x) = 32" for x by (simp add: demo_seal_crypto_def)
  have s: "in_from demo_inner = sg_aid demo_signer" by (simp add: demo_inner_def)
  have "snd (signingLocked demo_ctl) = 0"
    by (simp add: signingLocked_def demo_ctl_def demo_icp_def demo_sign_def)
  then have q: "snd (sg_sign demo_signer pre) = in_seq demo_inner" for pre
    by (auto simp: demo_inner_def demo_signer_def controller_signer_def Sign_def split: prod.splits option.splits)
  have k: "Supported (k_suite (kp_public demo_pair))" "seal_key demo_seal_hpke (kp_private demo_pair) (k_pub (kp_public demo_pair))"
    using demo_seal_key [OF l, of 40] by (simp_all add: Supported_iff demo_pair_def NewEncKey_def)
  have t: "so_peer_rk demo_opts = map_option ix_RK (Some demo_ix)" by (simp add: demo_opts_def)
  have h: "holds_ix demo_seal_crypto demo_seal_hpke (Some (\<lambda>_. Inr (Some demo_ix))) demo_inner kx" if "Some demo_ix = Some kx" for kx
    using demo_seal_key [OF l, of 41] l that
    by (auto simp: holds_ix_def demo_ix_def demo_inner_def rk_check_def ix_RK_def params_def suite1_def)
  obtain raw where raw: "encodeAccess cbor_coredet (Some \<lparr>ac_kind = AccessKindSession, ac_cap = None, ac_proof = []\<rparr>) = Some raw"
    by (rule session_encodes [OF cbor_coredet_ok])
  have to: "in_to demo_inner = ''a''" "in_body demo_inner = [1, 2, 3]" "in_ts demo_inner = 1000" "in_exp demo_inner = 2000"
    by (simp_all add: demo_inner_def)
  have now: "(1000 :: u64) \<le> satAdd 1500 ClockSkewMS" by (simp add: satAdd_def limit_defs)
  from sealed_message_opens [OF cbor_coredet_ok sha demo_seal_checks(1,2) demo_seal_honest s q demo_seal_checks(3) k t h _ raw,
      of "\<lambda>_. Some demo_pair" "[]" "[]"]
  obtain env op where o: "Open demo_seal_crypto cbor_coredet demo_seal_hpke (\<lambda>_. None) env ''a'' (Some (\<lambda>_. Some demo_pair))
       (Some (\<lambda>_. Inr (Some demo_ix))) = Inr op"
    and i: "op_inner op = demo_inner \<lparr>in_sig := in_sig (op_inner op)\<rparr>" "op_layers op = 2"
    and c: "\<forall>arrival. arrival \<noteq> 0 \<longrightarrow> VerifyInnerSig demo_seal_crypto (Some (op_inner op)) (op_preimage op) (sg_kel demo_signer) arrival = Inr ()"
      "\<forall>now. CheckTime (Some (op_inner op)) now = Inr () \<longleftrightarrow> now \<le> 2000 \<and> 1000 \<le> satAdd now ClockSkewMS"
    unfolding to by auto
  have "in_body (op_inner op) = [1, 2, 3]" by (subst i(1)) (simp add: to)
  then show ?thesis using o i(2) c now by (intro exI [of _ env] exI [of _ op]) (auto simp: word_le_nat_alt)
qed

end
