(* ===== verification/Spec2Isabelle.thy ===== *)
theory Spec2Isabelle
  imports Liab_Wire Replay_Cache Taskdoc Payment Ael_Supply Delegation_Checks Regpow_Props Relay_Auth Agent_Uri_Props Seal_Open
begin

text \<open>
  A verification library for ANetCore, the core of an agent network written in Go: identities and their key event logs,
  signed objects, delegation of tasks, receipts and reviews, payments, an event ledger, sealed messages and the small
  protocols around them. Every definition is a translation of a Go function, type or constant; the map of the manifest
  gives the file and the lines.

  \<^bold>\<open>The program and how its parts meet.\<close> An identity is an AID, the content identifier of the first event of its key event log
  (\<open>src/identity\<close>). Replaying a log gives the key states under which objects of that identity are judged; a controller
  builds, publishes and signs with it; a witness hub vouches for its tip in a notice. All other objects carry a signature
  envelope over a canonical CBOR preimage and are judged by the one function \<open>VerifyObject\<close>: task documents with their
  machine-checked scope (\<open>src/tsir\<close>), delegation messages (\<open>src/delegation\<close>), receipts, reviews and
  attestations (\<open>src/evidence\<close>), payment authorizations and receipts (\<open>src/payment\<close>), ledger records and head attestations
  (\<open>src/ael\<close>). A hub publishes what it owes as a Merkle-sum tree (\<open>src/liabtree\<close>) inside a ledger record. Messages travel in
  sealed envelopes (\<open>src/seal\<close>) to keys published in signed key sets; requests to a hub are authenticated by signatures and
  session MACs and dated by a clock for each hub (\<open>src/relayauth\<close>), and a registration is paid for by a proof of work
  (\<open>src/regpow\<close>). Agents are named by URIs (\<open>src/agenturi\<close>).

  \<^bold>\<open>Conventions.\<close> A Go string is a HOL string of its bytes, a byte slice a list of 8-bit words, \<open>uint64\<close> a 64-bit word; a signed
  integer is read from its word, or an \<open>int\<close> with the range written out where the code checks it. A pointer, slice or
  interface whose nil the code tells apart is an option. A Go error is the left side of a sum, with one constructor for each
  error the callers can tell apart; panics and early returns are branches. Loops are recursive functions, with a measure
  where the recursion is not structural; only \<open>cbor_parse\<close>, which serves examples, has fuel, twice the length of its
  input, and \<open>parse_enc\<close> shows that this is enough.
  What is not under \<open>src/\<close>, and the cryptography, is a parameter: SHA-256, Ed25519, HPKE and AEAD operations, the CID library,
  the CoreDet coders of structs, Unicode tables, randomness and clocks. What is asked of a parameter is a named predicate
  (\<open>coder_ok\<close>, \<open>coredet_ok\<close>, \<open>key_pair\<close>, \<open>hpke_pair\<close>, \<open>seal_key\<close>, \<open>key_codec_ok\<close>, \<open>notice_coder_ok\<close> and the like) with an instance that
  satisfies it in the witnesses. The absence of collisions is only ever asked of the inputs actually hashed.

  \<^bold>\<open>The theories.\<close>
  \<^item> \<open>Prelude\<close>: results, guards, big-endian words, the locales \<open>machine\<close> (a step function that keeps an invariant, with runs)
    and \<open>codec\<close> (a decoder that reads what its encoder writes), which the components interpret.
  \<^item> \<open>Liab_Tree\<close>, \<open>Liab_Proofs\<close>, \<open>Liab_Build\<close>, \<open>Liab_Props\<close>, \<open>Liab_Wire\<close> (\<open>src/liabtree\<close>): node hashes, proofs and their verification,
    the builder, and the wire form. Balances of accepted proofs are counted in the published total, every account of a built
    tree has a proof, only its own proofs are accepted, and a proof is parsed exactly from what is written.
  \<^item> \<open>Aid\<close>, \<open>Kel\<close>, \<open>Kel_Valid\<close>, \<open>Kel_Props\<close>, \<open>Kel_Extend\<close> (\<open>src/identity\<close>: aid, smallorder, kel, event checks, replay, update, verify):
    \<open>kel_valid\<close> is the declarative rule, \<open>replay_spec\<close> shows that the replay loop decides it and gives the states it
    describes. Pre-rotation, one history for an event identifier, and that a holder never loses an event.
  \<^item> \<open>Controller\<close>, \<open>Controller_Props\<close>, \<open>Kel_Notice\<close>, \<open>Signed_Object\<close>, \<open>Strict_Object\<close>, \<open>Replay_Cache\<close>: the controller's operations as a
    machine with an invariant, witness notices, the contract of signed objects as the locale \<open>signed_object\<close> and its strict
    form, interpreted by every signed object of the later theories, and the replay cache, which returns what a replay would.
  \<^item> \<open>Tsir\<close>, \<open>Tsir_Props\<close>, \<open>Taskdoc\<close> (\<open>src/tsir\<close>: \<open>predicate.go\<close>, \<open>taskdoc.go\<close>): the predicate language, its validation and evaluation, the glob
    matcher against a declarative relation, and the gate compiled from a signed document.
  \<^item> \<open>Payment\<close>, \<open>Ael\<close>, \<open>Ael_Props\<close>, \<open>Ael_Supply\<close> (\<open>src/payment\<close>, \<open>src/ael\<close>): windows of authorizations; the ledger with staging and
    quarantine, its invariant, what an equivocation leaves, head attestations and supply epochs over the liability tree.
  \<^item> \<open>Utf8\<close>, \<open>Base64\<close>, \<open>Evidence\<close>, \<open>Evidence_Commit\<close>, \<open>Evidence_Props\<close> (\<open>src/evidence\<close>): commitments and tags, receipts, reviews and
    attestations, and the interlock of a review with one receipt.
  \<^item> \<open>Delegation\<close>, \<open>Delegation_Props\<close>, \<open>Delegation_Checks\<close> (\<open>src/delegation\<close>): message bodies, the task binding and the checks of
    requests and results, composed of the documents and receipts above.
  \<^item> \<open>Regpow\<close>, \<open>Regpow_Props\<close> (\<open>src/regpow\<close>): the check, and the parallel search as steps of workers under any schedule.
  \<^item> \<open>Mono_Clock\<close>, \<open>Relay_Auth\<close> (\<open>src/relayauth\<close>): timestamps for each hub, request preimages, session MACs and the
    sealed session key.
  \<^item> \<open>Utf8_Runes\<close>, \<open>Agent_Uri\<close>, \<open>Agent_Uri_Props\<close> (\<open>src/agenturi\<close>): runes of a string, parsing, canonical forms.
  \<^item> \<open>Cbor\<close>, \<open>Cbor_Coredet\<close>: canonical CBOR items with a parser, and on them a CoreDet on which \<open>coredet_ok\<close> holds. They are
    examples for the properties, not a model of the third-party coder.
  \<^item> \<open>Seal_Fields\<close>, \<open>Seal_Keys\<close>, \<open>Seal_Keys_Props\<close>, \<open>Seal_Envelope\<close>, \<open>Seal_Codec\<close>, \<open>Seal_Open\<close> (\<open>src/seal\<close>, and \<open>src/a2acard/highwater.go\<close>): field maps, the signature
    preimage and Padme padding; key sets, the choice of a key and the high-water decisions; envelopes in one and two layers and
    the receive steps; every encoding of an envelope is read back, and a sealed message is opened and verified by its recipient.

  \<^bold>\<open>Not modelled.\<close> JSON canonicalisation, JOSE framing and publication of agent cards (\<open>src/a2acard\<close>), which rest on
  \<open>encoding/json\<close>; the coder itself and its null walk over reflected Go types (\<open>src/coredet\<close>); content identifiers (\<open>src/anetcid\<close>),
  a wrapper of third-party packages; identity files and recovery secrets (\<open>src/identity/idfile.go\<close>, \<open>recovery.go\<close>); effect records
  (\<open>src/effect\<close>); issuing and verifying capabilities, grants and delivery tokens (\<open>src/seal/access.go\<close>, \<open>grant.go\<close>, \<open>dack.go\<close>; of
  the first only the form of a capability); file locks (\<open>src/dirbox\<close>); the registry of wire names and its source scanner (\<open>src/wire\<close>), which are
  build-time tooling; and test support. Concurrency is modelled where it decides the outcome (the proof-of-work search);
  elsewhere the code holds one lock for each operation and an operation is one step.
\<close>

end
